(* ===== verification/Prelude.thy ===== *)
theory Prelude
  imports Main "HOL-Library.Word"
begin

text \<open>
  Shared vocabulary of the development: the outcome of a Go call that may panic, the Go idioms
  of the \<open>strings\<close> and \<open>strconv\<close> packages that several components use, conversions between
  strings and bytes, and the collections of simplification facts the component proofs share.
  Go strings are byte sequences, so they are modelled by \<open>string\<close> (a list of 8-bit characters).
\<close>

named_theorems model_defs \<open>definitions of the straight-line operations of a component\<close>
named_theorems state_simps \<open>what an operation does to the state it is given\<close>
named_theorems inv_intros \<open>preservation of the component invariants\<close>

section \<open>Outcomes\<close>

text \<open>
  A run-time panic (nil dereference, index out of range, failed type assertion, explicit
  \<open>panic\<close>) is a value of its own, apart from the errors a function returns.
\<close>

datatype 'a run = Panic | Ret 'a

definition bind_run :: "'a run \<Rightarrow> ('a \<Rightarrow> 'b run) \<Rightarrow> 'b run" where
  "bind_run m f = (case m of Panic \<Rightarrow> Panic | Ret x \<Rightarrow> f x)"

lemma bind_run_simps [simp]:
  "bind_run Panic f = Panic"
  "bind_run (Ret x) f = f x"
  by (simp_all add: bind_run_def)

lemma bind_run_Ret_conv:
  "bind_run m f = Ret y \<longleftrightarrow> (\<exists>x. m = Ret x \<and> f x = Ret y)"
  by (cases m) simp_all

definition map_run :: "('a \<Rightarrow> 'b) \<Rightarrow> 'a run \<Rightarrow> 'b run" where
  "map_run f m = bind_run m (\<lambda>x. Ret (f x))"

lemma map_run_simps [simp]:
  "map_run f Panic = Panic"
  "map_run f (Ret x) = Ret (f x)"
  by (simp_all add: map_run_def)

lemma map_sum_Inr: "map_sum f g r = Inr b \<longleftrightarrow> (\<exists>x. r = Inr x \<and> b = g x)"
  by (cases r) auto

section \<open>Bytes\<close>

type_synonym byte = "8 word"
type_synonym bytes = "8 word list"
type_synonym u32 = "32 word"
type_synonym u64 = "64 word"

definition bytes_of :: "string \<Rightarrow> bytes" where
  "bytes_of s = map (\<lambda>c. word_of_nat (of_char c)) s"

definition string_of :: "bytes \<Rightarrow> string" where
  "string_of bs = map (\<lambda>b. char_of (unat b)) bs"

lemma length_bytes_of [simp]: "length (bytes_of s) = length s"
  by (simp add: bytes_of_def)

lemma length_string_of [simp]: "length (string_of bs) = length bs"
  by (simp add: string_of_def)

lemma unat_word_of_char [simp]: "unat (word_of_nat (of_char c) :: byte) = of_char c"
proof -
  have "(of_char c :: nat) < 256"
    by (metis nat_of_char_less_256)
  then show ?thesis
    by (simp add: unat_of_nat)
qed

lemma string_of_bytes_of [simp]: "string_of (bytes_of s) = s"
  by (simp add: string_of_def bytes_of_def o_def)

lemma unat_byte_less: "unat (b :: byte) < 256"
  by (rule order.strict_trans2 [OF unsigned_less]) simp

lemma bytes_of_string_of [simp]: "bytes_of (string_of bs) = bs"
proof -
  have "word_of_nat (of_char (char_of (unat b) :: char)) = b" for b :: byte
    using unat_byte_less [of b] by simp
  then show ?thesis
    by (simp add: string_of_def bytes_of_def o_def map_idI)
qed

section \<open>The strings package\<close>

fun has_prefix :: "string \<Rightarrow> string \<Rightarrow> bool" where
  "has_prefix s [] = True"
| "has_prefix [] (p # ps) = False"
| "has_prefix (c # s) (p # ps) = (c = p \<and> has_prefix s ps)"

definition trim_prefix :: "string \<Rightarrow> string \<Rightarrow> string" where
  "trim_prefix s p = (if has_prefix s p then drop (length p) s else s)"

definition has_suffix :: "string \<Rightarrow> string \<Rightarrow> bool" where
  "has_suffix s p = has_prefix (rev s) (rev p)"

definition trim_suffix :: "string \<Rightarrow> string \<Rightarrow> string" where
  "trim_suffix s p = (if has_suffix s p then take (length s - length p) s else s)"

lemma has_prefix_append [simp]: "has_prefix (p @ s) p"
  by (induction p) auto

lemma has_prefix_self [simp]: "has_prefix p p"
  using has_prefix_append [of p "[]"] by simp

lemma has_prefix_iff: "has_prefix s p \<longleftrightarrow> (\<exists>t. s = p @ t)"
  by (induction s p rule: has_prefix.induct) auto

lemma trim_prefix_append [simp]: "trim_prefix (p @ s) p = s"
  by (simp add: trim_prefix_def)

lemma has_suffix_iff: "has_suffix s p \<longleftrightarrow> (\<exists>t. s = t @ p)"
proof
  assume "has_suffix s p"
  then obtain t where "rev s = rev p @ t"
    by (auto simp: has_suffix_def has_prefix_iff)
  then have "s = rev t @ p"
    by (metis rev_append rev_rev_ident)
  then show "\<exists>t. s = t @ p" ..
next
  assume "\<exists>t. s = t @ p"
  then show "has_suffix s p"
    by (auto simp: has_suffix_def)
qed

lemma trim_suffix_append [simp]: "trim_suffix (s @ p) p = s"
proof -
  have "has_suffix (s @ p) p"
    by (auto simp: has_suffix_iff)
  then show ?thesis
    by (simp add: trim_suffix_def)
qed

text \<open>\<open>strings.Cut\<close> on a one-byte separator: the parts around its first occurrence.\<close>

fun str_cut :: "char \<Rightarrow> string \<Rightarrow> string \<times> string \<times> bool" where
  "str_cut sep [] = ([], [], False)"
| "str_cut sep (c # s) =
     (if c = sep then ([], s, True)
      else case str_cut sep s of (a, b, found) \<Rightarrow> (c # a, b, found))"

lemma str_cut_notin: "sep \<notin> set s \<Longrightarrow> str_cut sep s = (s, [], False)"
  by (induction s) auto

lemma str_cut_found: "sep \<notin> set s \<Longrightarrow> str_cut sep (s @ sep # t) = (s, t, True)"
  by (induction s) auto

lemma str_cut_eq_found:
  "str_cut sep s = (a, b, True) \<Longrightarrow> s = a @ sep # b \<and> sep \<notin> set a"
  by (induction s arbitrary: a) (auto split: if_splits prod.splits)

lemma str_cut_eq_not_found:
  "str_cut sep s = (a, b, False) \<Longrightarrow> a = s \<and> b = [] \<and> sep \<notin> set s"
  by (induction s arbitrary: a) (auto split: if_splits prod.splits)

text \<open>\<open>strings.Split\<close> on a one-byte separator, and \<open>strings.Join\<close>.\<close>

fun split_on :: "char \<Rightarrow> string \<Rightarrow> string list" where
  "split_on sep [] = [[]]"
| "split_on sep (c # s) =
     (if c = sep then [] # split_on sep s
      else case split_on sep s of [] \<Rightarrow> [[c]] | p # ps \<Rightarrow> (c # p) # ps)"

fun join :: "string \<Rightarrow> string list \<Rightarrow> string" where
  "join sep [] = []"
| "join sep [p] = p"
| "join sep (p # q # ps) = p @ sep @ join sep (q # ps)"

lemma split_on_nonempty [simp]: "split_on sep s \<noteq> []"
  by (cases s) (auto split: list.splits)

lemma join_split_on: "join [sep] (split_on sep s) = s"
proof (induction s)
  case (Cons c s)
  obtain p ps where ps: "split_on sep s = p # ps"
    by (cases "split_on sep s") auto
  with Cons show ?case
    by (cases ps) auto
qed simp

text \<open>\<open>strconv.Itoa\<close> and \<open>strconv.FormatInt\<close> in base ten.\<close>

definition digit_char :: "nat \<Rightarrow> char" where
  "digit_char d = char_of (48 + d)"

fun dec_nat :: "nat \<Rightarrow> string" where
  "dec_nat n = (if n < 10 then [digit_char n] else dec_nat (n div 10) @ [digit_char (n mod 10)])"

declare dec_nat.simps [simp del]

definition itoa :: "int \<Rightarrow> string" where
  "itoa i = (if i < 0 then CHR ''-'' # dec_nat (nat (- i)) else dec_nat (nat i))"

lemma of_char_digit_char [simp]: "d < 10 \<Longrightarrow> (of_char (digit_char d) :: nat) = 48 + d"
  by (simp add: digit_char_def)

definition is_digit :: "char \<Rightarrow> bool" where
  "is_digit c = (48 \<le> (of_char c :: nat) \<and> (of_char c :: nat) \<le> 57)"

definition digit_val :: "char \<Rightarrow> int" where
  "digit_val c = int (of_char c) - 48"

lemma is_digit_digit_char [simp]: "d < 10 \<Longrightarrow> is_digit (digit_char d)"
  by (simp add: is_digit_def)

lemma digit_val_digit_char [simp]: "d < 10 \<Longrightarrow> digit_val (digit_char d) = int d"
  by (simp add: digit_val_def)

lemma digit_val_bounds: "is_digit c \<Longrightarrow> 0 \<le> digit_val c \<and> digit_val c \<le> 9"
  by (simp add: is_digit_def digit_val_def)

text \<open>The value of a digit string, read from the left onto \<open>x\<close>.\<close>

definition dec_val :: "int \<Rightarrow> string \<Rightarrow> int" where
  "dec_val x ds = foldl (\<lambda>x c. x * 10 + digit_val c) x ds"

lemma dec_val_simps [simp]:
  "dec_val x [] = x"
  "dec_val x (c # ds) = dec_val (x * 10 + digit_val c) ds"
  "dec_val x (ds @ es) = dec_val (dec_val x ds) es"
  by (simp_all add: dec_val_def)

lemma dec_val_ge: "\<forall>c \<in> set ds. is_digit c \<Longrightarrow> 0 \<le> x \<Longrightarrow> x \<le> dec_val x ds"
proof (induction ds arbitrary: x)
  case (Cons c ds)
  have "0 \<le> digit_val c" using Cons.prems digit_val_bounds by simp
  then have "x \<le> x * 10 + digit_val c" "0 \<le> x * 10 + digit_val c" using Cons.prems by auto
  with Cons.IH [of "x * 10 + digit_val c"] Cons.prems show ?case by simp
qed simp

lemma dec_nat_digits: "\<forall>c \<in> set (dec_nat n). is_digit c"
  by (induction n rule: dec_nat.induct) (subst dec_nat.simps, auto)

lemma dec_nat_nonempty [simp]: "dec_nat n \<noteq> []"
  by (subst dec_nat.simps) auto

lemma int_div_mod: "int n = int (n div k) * int k + int (n mod k)"
  by (metis div_mult_mod_eq of_nat_add of_nat_mult)

lemma dec_val_dec_nat [simp]: "dec_val 0 (dec_nat n) = int n"
proof (induction n rule: dec_nat.induct)
  case (1 n)
  then show ?case
  proof (cases "n < 10")
    case False
    from int_div_mod [of n 10] have "int n = int (n div 10) * 10 + int (n mod 10)" by simp
    then show ?thesis using 1 False by (subst dec_nat.simps) simp
  qed (subst dec_nat.simps, simp)
qed

lemma itoa_digits: "\<forall>c \<in> set (itoa i). is_digit c \<or> c = CHR ''-''"
  using dec_nat_digits by (auto simp: itoa_def)

lemma itoa_inj: "itoa i = itoa j \<longleftrightarrow> i = j"
proof
  have inj: "dec_nat m = dec_nat n \<Longrightarrow> m = n" for m n
    by (metis dec_val_dec_nat of_nat_eq_iff)
  have "CHR ''-'' # s \<noteq> dec_nat n" for s n
  proof
    assume "CHR ''-'' # s = dec_nat n"
    then have "is_digit (CHR ''-'')" using dec_nat_digits [of n] by (metis list.set_intros(1))
    then show False by (simp add: is_digit_def)
  qed
  then show "itoa i = itoa j \<Longrightarrow> i = j"
    by (auto simp: itoa_def split: if_splits dest: inj) (metis inj int_nat_eq nat_0_le not_less)+
qed simp

lemma length_dec_nat: "n < 10 ^ Suc k \<Longrightarrow> length (dec_nat n) \<le> Suc k"
proof (induction k arbitrary: n)
  case 0
  then show ?case by (subst dec_nat.simps) simp
next
  case (Suc k)
  have "n div 10 < 10 ^ Suc k" using Suc.prems by (simp add: less_mult_imp_div_less mult.commute)
  with Suc.IH show ?case by (subst dec_nat.simps) simp
qed

text \<open>Signed 64-bit arithmetic: the value that results when \<open>x\<close> wraps around.\<close>

definition wrap64 :: "int \<Rightarrow> int" where
  "wrap64 x = (x + 2 ^ 63) mod 2 ^ 64 - 2 ^ 63"

lemma wrap64_id: "- (2 ^ 63) \<le> x \<Longrightarrow> x < 2 ^ 63 \<Longrightarrow> wrap64 x = x"
  by (simp add: wrap64_def)

text \<open>
  \<open>strconv.ParseInt(s, 10, bits)\<close>: on a value out of range it returns the nearest bound with
  \<open>ErrRange\<close>, on anything that is not a signed digit string 0 with \<open>ErrSyntax\<close>.
\<close>

datatype num_error = ErrSyntax | ErrRange

definition parse_int :: "nat \<Rightarrow> string \<Rightarrow> num_error option \<times> int" where
  "parse_int bits s =
     (let neg = (case s of c # _ \<Rightarrow> c = CHR ''-'' | [] \<Rightarrow> False);
          ds = (case s of c # r \<Rightarrow> if c = CHR ''-'' \<or> c = CHR ''+'' then r else s | [] \<Rightarrow> s);
          n = dec_val 0 ds; m = 2 ^ (bits - 1)
      in if ds = [] \<or> \<not> list_all is_digit ds then (Some ErrSyntax, 0)
         else if neg then (if n > m then (Some ErrRange, - m) else (None, - n))
         else (if n \<ge> m then (Some ErrRange, m - 1) else (None, n)))"

text \<open>\<open>strings.ToLower\<close> on ASCII letters.\<close>

definition lower_char :: "char \<Rightarrow> char" where
  "lower_char c = (if 65 \<le> (of_char c :: nat) \<and> (of_char c :: nat) \<le> 90
     then char_of ((of_char c :: nat) + 32) else c)"

definition to_lower :: "string \<Rightarrow> string" where
  "to_lower s = map lower_char s"

section \<open>Lists\<close>

lemma distinct_butlast_last: "distinct xs \<Longrightarrow> a \<in> set (butlast xs) \<Longrightarrow> a \<noteq> last xs"
  by (cases xs rule: rev_cases) auto

lemma drop_take_drop: "drop i xs = take k (drop i xs) @ drop (i + length (take k (drop i xs))) xs"
proof (cases "k \<le> length xs - i")
  case True
  then show ?thesis
    using append_take_drop_id [of k "drop i xs"] by (simp add: add.commute)
qed simp

lemma upt_Suc_shift: "map f [Suc m..<Suc n] = map (\<lambda>i. f (Suc i)) [m..<n]"
  by (simp add: map_Suc_upt [symmetric] o_def del: upt_Suc)

text \<open>The first occurrence of every element, in order.\<close>

definition nub :: "'a list \<Rightarrow> 'a list" where
  "nub xs = rev (remdups (rev xs))"

lemma nub_Nil [simp]: "nub [] = []"
  by (simp add: nub_def)

lemma nub_snoc: "nub (xs @ [x]) = (if x \<in> set xs then nub xs else nub xs @ [x])"
  by (simp add: nub_def)

lemma set_nub [simp]: "set (nub xs) = set xs"
  by (simp add: nub_def)

lemma distinct_nub [simp]: "distinct (nub xs)"
  by (simp add: nub_def)

lemma nub_distinct [simp]: "distinct xs \<Longrightarrow> nub xs = xs"
  by (simp add: nub_def distinct_remdups_id)

lemma length_nub_mono: "length (nub xs) \<le> length (nub (xs @ ys))"
  by (induction ys rule: rev_induct) (auto simp: nub_snoc simp flip: append_assoc)

lemma nub_present: "x \<in> set xs \<Longrightarrow> nub (xs @ x # ys) = nub (xs @ ys)"
proof (induction ys rule: rev_induct)
  case Nil
  then show ?case by (simp add: nub_snoc)
next
  case (snoc y ys)
  then show ?case
    using nub_snoc [of "xs @ x # ys" y] nub_snoc [of "xs @ ys" y] by auto
qed

end
