(* ===== verification/Ring.thy ===== *)
theory Ring
  imports Prelude
begin

text \<open>
  The circular lists of Go's \<open>container/ring\<close>, as far as the ring queue uses them: an explicit
  store with the \<open>next\<close>, \<open>prev\<close> and \<open>Value\<close> fields of every node, and the operations
  \<open>New\<close>, \<open>Next\<close>, \<open>Prev\<close>, \<open>Move\<close> (forward) and \<open>Link\<close>. A value is \<open>None\<close> when the
  node's \<open>interface{}\<close> is nil. The abstraction \<open>cyc h C\<close> says that the nodes of \<open>C\<close>, in this
  order, form one ring of the store.
\<close>

record 'a heap =
  nxt :: "nat \<Rightarrow> nat"
  prv :: "nat \<Rightarrow> nat"
  val :: "nat \<Rightarrow> 'a option"
  brk :: nat \<comment> \<open>the first address not yet allocated\<close>

definition empty_heap :: "'a heap" where
  "empty_heap = \<lparr>nxt = (\<lambda>a. a), prv = (\<lambda>a. a), val = (\<lambda>_. None), brk = 0\<rparr>"

definition ring_New :: "nat \<Rightarrow> 'a heap \<Rightarrow> nat \<times> 'a heap" where
  "ring_New n h = (let b = brk h in
     (b, h\<lparr>nxt := (\<lambda>a. if b \<le> a \<and> a < b + n then (if Suc a = b + n then b else Suc a) else nxt h a),
           prv := (\<lambda>a. if b \<le> a \<and> a < b + n then (if a = b then b + n - 1 else a - 1) else prv h a),
           val := (\<lambda>a. if b \<le> a \<and> a < b + n then None else val h a),
           brk := b + n\<rparr>))"

fun ring_Move :: "'a heap \<Rightarrow> nat \<Rightarrow> nat \<Rightarrow> nat" where
  "ring_Move h 0 p = p"
| "ring_Move h (Suc n) p = ring_Move h n (nxt h p)"

definition ring_Link :: "nat \<Rightarrow> nat \<Rightarrow> 'a heap \<Rightarrow> 'a heap" where
  "ring_Link r s h = (let n = nxt h r; p = prv h s in
     h\<lparr>nxt := (nxt h)(r := s, p := n), prv := (prv h)(s := r, n := p)\<rparr>)"

section \<open>Rings as lists of nodes\<close>

fun linked :: "'a heap \<Rightarrow> nat list \<Rightarrow> bool" where
  "linked h [] = True"
| "linked h [a] = True"
| "linked h (a # b # xs) = (nxt h a = b \<and> prv h b = a \<and> linked h (b # xs))"

definition cyc :: "'a heap \<Rightarrow> nat list \<Rightarrow> bool" where
  "cyc h C \<longleftrightarrow> C \<noteq> [] \<and> distinct C \<and> (\<forall>a\<in>set C. a < brk h) \<and> linked h (C @ [hd C])"

lemma linked_append:
  "linked h (xs @ y # ys) \<longleftrightarrow> linked h (xs @ [y]) \<and> linked h (y # ys)"
  by (induction h xs rule: linked.induct) auto

lemma linked_appendD1: "linked h (xs @ ys) \<Longrightarrow> linked h xs"
  by (induction h xs rule: linked.induct) auto

lemma linked_frame:
  assumes "\<And>a. a \<in> set (butlast xs) \<Longrightarrow> nxt h' a = nxt h a"
    and "\<And>a. a \<in> set (tl xs) \<Longrightarrow> prv h' a = prv h a"
  shows "linked h' xs = linked h xs"
  using assms
proof (induction h xs rule: linked.induct)
  case (3 h a b xs)
  have "linked h' (b # xs) = linked h (b # xs)"
  proof (rule 3)
    show "nxt h' c = nxt h c" if "c \<in> set (butlast (b # xs))" for c
      using that 3(2) [of c] by auto
    show "prv h' c = prv h c" if "c \<in> set (tl (b # xs))" for c
      using that 3(3) [of c] by auto
  qed
  with 3(2) [of a] 3(3) [of b] show ?case by auto
qed simp_all

lemma cyc_rotate: "cyc h (xs @ ys) \<longleftrightarrow> cyc h (ys @ xs)"
proof (cases "xs = [] \<or> ys = []")
  case False
  then obtain x xs' y ys' where eq: "xs = x # xs'" "ys = y # ys'"
    by (auto simp: neq_Nil_conv)
  have "linked h ((x # xs') @ (y # ys') @ [x]) \<longleftrightarrow> linked h ((y # ys') @ (x # xs') @ [y])"
    using linked_append [of h "x # xs'" y "ys' @ [x]"] linked_append [of h "y # ys'" x "xs' @ [y]"]
    by auto
  with eq show ?thesis by (auto simp: cyc_def)
qed auto

lemma linked_nth:
  "linked h xs \<Longrightarrow> Suc i < length xs \<Longrightarrow> nxt h (xs ! i) = xs ! Suc i"
proof (induction h xs arbitrary: i rule: linked.induct)
  case (3 h a b xs)
  then show ?case by (cases i) auto
qed simp_all

lemma ring_Move_linked:
  "linked h xs \<Longrightarrow> i + n < length xs \<Longrightarrow> ring_Move h n (xs ! i) = xs ! (i + n)"
proof (induction n arbitrary: i)
  case (Suc n)
  then have "nxt h (xs ! i) = xs ! Suc i" by (intro linked_nth) auto
  with Suc show ?case by simp
qed simp

lemma cyc_Move:
  assumes "cyc h C" and "n < length C"
  shows "ring_Move h n (hd C) = C ! n"
proof -
  from assms have "ring_Move h n ((C @ [hd C]) ! 0) = (C @ [hd C]) ! (0 + n)"
    by (intro ring_Move_linked) (auto simp: cyc_def)
  moreover have "(C @ [hd C]) ! 0 = hd C"
    using assms(2) by (cases C) auto
  ultimately show ?thesis
    using assms(2) by (simp add: nth_append)
qed

lemma cyc_nxt:
  assumes "cyc h (a # b # xs)" shows "nxt h a = b"
  using assms by (auto simp: cyc_def)

lemma cyc_nxt_rotated:
  assumes "cyc h (xs @ a # b # ys)" shows "nxt h a = b"
  using assms cyc_rotate [of h xs "a # b # ys"] by (auto intro: cyc_nxt)

lemma cyc_prv:
  assumes "cyc h (x # xs @ [p])" shows "prv h x = p" and "nxt h p = x"
  using assms linked_append [of h "x # xs" p "[x]"] by (auto simp: cyc_def)

text \<open>Only the links of the ring's own nodes matter.\<close>

lemma cyc_frame:
  assumes "cyc h C" and "\<And>a. a \<in> set C \<Longrightarrow> nxt h' a = nxt h a \<and> prv h' a = prv h a"
    and "brk h \<le> brk h'"
  shows "cyc h' C"
proof -
  have sub: "set (butlast (C @ [hd C])) \<subseteq> set C" "set (tl (C @ [hd C])) \<subseteq> set C"
    using assms(1) by (cases C; force simp: cyc_def)+
  have "linked h' (C @ [hd C]) = linked h (C @ [hd C])"
    by (rule linked_frame) (use assms(2) sub in auto)
  with assms(1,3) show ?thesis by (auto simp: cyc_def)
qed

section \<open>New, Link\<close>

lemma val_ring_Link [simp]: "val (ring_Link a b h) = val h"
  by (simp add: ring_Link_def Let_def)

lemma brk_ring_Link [simp]: "brk (ring_Link a b h) = brk h"
  by (simp add: ring_Link_def Let_def)

lemma linked_upt_New:
  assumes "b \<le> i"
  shows "linked (snd (ring_New n (h\<lparr>brk := b\<rparr>))) [i..<b + n]"
proof (cases "i < b + n")
  case True
  define m where "m = b + n - Suc i"
  have "linked (snd (ring_New n (h\<lparr>brk := b\<rparr>))) [i..<i + Suc k]" if "i + k < b + n" for k
    using that
  proof (induction k)
    case (Suc k)
    have split: "[i..<i + Suc (Suc k)] = [i..<i + k] @ (i + k) # [i + Suc k]"
      by (simp add: upt_conv_Cons)
    from Suc have "linked (snd (ring_New n (h\<lparr>brk := b\<rparr>))) ([i..<i + k] @ [i + k])"
      by simp
    moreover from Suc(2) assms have "linked (snd (ring_New n (h\<lparr>brk := b\<rparr>))) [i + k, i + Suc k]"
      by (auto simp: ring_New_def Let_def)
    ultimately show ?case
      unfolding split
      using linked_append [of "snd (ring_New n (h\<lparr>brk := b\<rparr>))" "[i..<i + k]" "i + k" "[i + Suc k]"]
      by blast
  qed simp
  from this [of m] True have "linked (snd (ring_New n (h\<lparr>brk := b\<rparr>))) [i..<i + Suc m]"
    by (simp add: m_def del: upt_Suc)
  moreover have "i + Suc m = b + n"
    using True by (simp add: m_def)
  ultimately show ?thesis by (simp only:)
qed simp

lemma cyc_ring_New:
  assumes "0 < n" and "ring_New n h = (b, h')"
  shows "cyc h' [b..<b + n]" and "b = brk h" and "brk h' = b + n"
    and "\<And>a. a < brk h \<Longrightarrow> nxt h' a = nxt h a \<and> prv h' a = prv h a \<and> val h' a = val h a"
    and "\<And>a. b \<le> a \<Longrightarrow> a < b + n \<Longrightarrow> val h' a = None"
proof -
  from assms show b: "b = brk h" and brk: "brk h' = b + n"
    by (auto simp: ring_New_def Let_def)
  from assms show "\<And>a. a < brk h \<Longrightarrow> nxt h' a = nxt h a \<and> prv h' a = prv h a \<and> val h' a = val h a"
    and "\<And>a. b \<le> a \<Longrightarrow> a < b + n \<Longrightarrow> val h' a = None"
    by (auto simp: ring_New_def Let_def)
  have h': "h' = snd (ring_New n (h\<lparr>brk := b\<rparr>))"
    using assms b by simp
  have split: "[b..<b + n] @ [b] = [b..<b + n - 1] @ (b + n - 1) # [b]"
    using assms(1) by (simp add: upt_Suc_append [symmetric] flip: upt_Suc_append)
  have "linked h' ([b..<b + n - 1] @ [b + n - 1])"
    using linked_upt_New [of b b n h] assms(1) h' by (simp flip: upt_Suc_append)
  moreover have "linked h' [b + n - 1, b]"
    using assms(1) by (auto simp: h' ring_New_def Let_def)
  ultimately have "linked h' ([b..<b + n] @ [b])"
    unfolding split using linked_append [of h' "[b..<b + n - 1]" "b + n - 1" "[b]"] by blast
  with assms(1) brk show "cyc h' [b..<b + n]"
    by (auto simp: cyc_def)
qed

text \<open>\<open>e.Link(ring.New(1))\<close> inserts a fresh node behind \<open>e\<close>.\<close>

lemma cyc_insert:
  assumes cyc: "cyc h (e # xs)" and new: "ring_New 1 h = (b, h1)"
  shows "cyc (ring_Link e b h1) (e # b # xs)"
proof -
  note N = cyc_ring_New [OF _ new, simplified]
  from N(1) have bb: "nxt h1 b = b" "prv h1 b = b" by (auto simp: cyc_def)
  have bnew: "b \<notin> set (e # xs)" and dist: "distinct (e # xs)" and lt: "\<forall>a\<in>set (e # xs). a < brk h"
    using cyc N(2) by (auto simp: cyc_def)
  have "cyc h1 (e # xs)"
    by (rule cyc_frame [OF cyc]) (use N lt in auto)
  then have lk: "linked h1 (e # xs @ [e])" and nx: "nxt h1 e = hd (xs @ [e])"
    by (auto simp: cyc_def) (cases xs; auto)
  let ?h = "ring_Link e b h1"
  have h: "nxt ?h = (nxt h1)(e := b, b := hd (xs @ [e]))"
    "prv ?h = (prv h1)(b := e, hd (xs @ [e]) := b)" "brk ?h = brk h1"
    using bb nx by (simp_all add: ring_Link_def Let_def)
  have "linked ?h (xs @ [e])"
  proof -
    have "linked h1 (xs @ [e])"
      using lk by (cases xs) auto
    moreover have "linked ?h (xs @ [e]) = linked h1 (xs @ [e])"
    proof (rule linked_frame)
      show "nxt ?h a = nxt h1 a" if "a \<in> set (butlast (xs @ [e]))" for a
        using that dist bnew by (auto simp: h)
      show "prv ?h a = prv h1 a" if "a \<in> set (tl (xs @ [e]))" for a
        using that dist bnew by (cases xs) (auto simp: h)
    qed
    ultimately show ?thesis by simp
  qed
  moreover have "nxt ?h e = b" "prv ?h b = e" "nxt ?h b = hd (xs @ [e])" "prv ?h (hd (xs @ [e])) = b"
    using bnew dist by (auto simp: h hd_append)
  ultimately have "linked ?h (e # b # xs @ [e])"
    by (cases xs) auto
  then show ?thesis
    using bnew dist lt N(2,3) by (auto simp: cyc_def)
qed

text \<open>\<open>x.Prev().Link(x.Next())\<close> takes \<open>x\<close> out of its ring and leaves it alone in a ring of its own.\<close>

lemma cyc_unlink:
  assumes cyc: "cyc h (x # xs)" and ne: "xs \<noteq> []"
  shows "cyc (ring_Link (prv h x) (nxt h x) h) xs"
    and "prv h x = last xs" and "nxt h x = hd xs"
    and "nxt (ring_Link (prv h x) (nxt h x) h) x = x"
proof -
  have dist: "distinct (x # xs)" and lt: "\<forall>a\<in>set (x # xs). a < brk h"
    using cyc by (auto simp: cyc_def)
  from ne cyc show p: "prv h x = last xs"
    using cyc_prv(1) [of h x "butlast xs" "last xs"] by simp
  have np: "nxt h (last xs) = x"
    using ne cyc cyc_prv(2) [of h x "butlast xs" "last xs"] by simp
  from ne cyc show n: "nxt h x = hd xs"
    using cyc_nxt [of h x "hd xs" "tl xs"] by simp
  have pn: "prv h (hd xs) = x"
    using ne cyc by (cases xs) (auto simp: cyc_def)
  let ?h = "ring_Link (last xs) (hd xs) h"
  have h: "nxt ?h = (nxt h)(last xs := hd xs, x := x)"
    "prv ?h = (prv h)(hd xs := last xs, x := x)" "brk ?h = brk h"
    using np pn by (simp_all add: ring_Link_def Let_def)
  have "linked h xs"
    using cyc ne linked_appendD1 [of h xs "[x]"] by (cases xs) (auto simp: cyc_def)
  moreover have "linked ?h xs = linked h xs"
  proof (rule linked_frame)
    show "nxt ?h a = nxt h a" if "a \<in> set (butlast xs)" for a
      using that dist distinct_butlast_last [of xs a] by (auto simp: h dest: in_set_butlastD)
    show "prv ?h a = prv h a" if "a \<in> set (tl xs)" for a
    proof -
      have "a \<noteq> x" "a \<noteq> hd xs"
        using that dist ne by (cases xs; auto)+
      then show ?thesis by (simp add: h)
    qed
  qed
  ultimately have "linked ?h (butlast xs @ [last xs])"
    using ne by simp
  moreover have "linked ?h [last xs, hd xs]"
    using dist ne by (auto simp: h)
  ultimately have "linked ?h (xs @ [hd xs])"
    using linked_append [of ?h "butlast xs" "last xs" "[hd xs]"]
      append_butlast_last_id [OF ne] by (metis append_Cons append_Nil append_assoc)
  then have "cyc ?h xs"
    using dist lt ne by (auto simp: cyc_def h)
  with p n show "cyc (ring_Link (prv h x) (nxt h x) h) xs" by simp
  show "nxt (ring_Link (prv h x) (nxt h x) h) x = x"
    by (simp add: p n h)
qed

section \<open>Rotations\<close>

definition rotation :: "'b list \<Rightarrow> 'b list \<Rightarrow> bool" where
  "rotation L C \<longleftrightarrow> (\<exists>A B. L = A @ B \<and> C = B @ A)"

lemma rotation_rotate: "rotation L C \<longleftrightarrow> (\<exists>n. C = rotate n L)"
proof
  assume "rotation L C"
  then obtain A B where "L = A @ B" "C = B @ A" by (auto simp: rotation_def)
  then have "C = rotate (length A) L" by (simp add: rotate_append)
  then show "\<exists>n. C = rotate n L" ..
next
  assume "\<exists>n. C = rotate n L"
  then obtain n where "C = rotate n L" ..
  then show "rotation L C"
    unfolding rotation_def rotate_drop_take
    by (intro exI [of _ "take (n mod length L) L"] exI [of _ "drop (n mod length L) L"]) simp
qed

lemma rotation_shift: "rotation L (xs @ ys) \<Longrightarrow> rotation L (ys @ xs)"
  unfolding rotation_rotate by (metis rotate_append rotate_rotate)

lemma rotation_swap: "rotation (xs @ ys) (ys @ xs)"
  by (auto simp: rotation_def)

lemma rotation_cyc: "rotation L C \<Longrightarrow> cyc h C = cyc h L"
  by (auto simp: rotation_def) (subst cyc_rotate, assumption)+

lemma rotation_length: "rotation L C \<Longrightarrow> length C = length L"
  by (auto simp: rotation_def)

lemma rotation_set: "rotation L C \<Longrightarrow> set C = set L"
  by (auto simp: rotation_def)

lemma rotation_distinct: "rotation L C \<Longrightarrow> distinct C = distinct L"
  by (auto simp: rotation_def)

lemma rotation_hd:
  assumes "rotation L (P @ x # Q)" "distinct L" "hd L = x"
  shows "L = x # Q @ P"
proof -
  obtain A B where AB: "L = A @ B" "P @ x # Q = B @ A"
    using assms(1) by (auto simp: rotation_def)
  show ?thesis
  proof (cases A)
    case Nil
    with AB assms have "P @ x # Q = L" by simp
    with assms have "distinct (P @ x # Q)" "hd (P @ x # Q) = x" by simp_all
    then have "P = []" by (cases P) auto
    with \<open>P @ x # Q = L\<close> show ?thesis by simp
  next
    case (Cons a A')
    then have "a = x" using AB assms by simp
    have "B @ x # A' = P @ x # Q" "x \<notin> set B" "x \<notin> set A'"
      using AB assms Cons \<open>a = x\<close> by auto
    then have "B = P" "A' = Q"
      using append_Cons_eq_iff [of x B A' P Q] by auto
    with AB Cons \<open>a = x\<close> show ?thesis by simp
  qed
qed

end
