(* ===== verification/Ring_Queue.thy ===== *)
theory Ring_Queue
  imports Ring
begin

text \<open>
  \<open>wrapper/queue.go\<close>: the bounded queue \<open>RingQueue\<close> on a \<open>container/ring\<close>. The record has the
  fields of the Go struct (the mutex is not a field: every operation below is one critical
  section; the unlocked read of \<open>Get\<close> is the subject of the theory \<open>Queue_Race\<close>) and the store its
  nodes live in. A nil \<open>Value\<close> fails the type assertion \<open>.(T)\<close>, which is a panic. Loops over
  the ring are partial functions: \<open>None\<close> is a loop that does not end.
\<close>

datatype queue_error = QueueFull | QueueNull

record 'a ring_queue =
  hp :: "'a heap"
  r :: nat
  start :: int
  end' :: int
  max' :: int

definition NewRingQueue :: "nat \<Rightarrow> 'a ring_queue" where
  "NewRingQueue n = (case ring_New (n + 1) empty_heap of (b, h) \<Rightarrow>
     \<lparr>hp = h, r = b, start = 0, end' = 0, max' = int n + 1\<rparr>)"

definition node_at :: "'a ring_queue \<Rightarrow> int \<Rightarrow> nat" where
  "node_at q i = ring_Move (hp q) (nat i) (r q)"

definition Put :: "'a \<Rightarrow> 'a ring_queue \<Rightarrow> queue_error option \<times> 'a ring_queue" where
  "Put v q =
     (if start q = end' q + 1 then (Some QueueFull, q)
      else if end' q + 1 = max' q \<and> start q = 0 then (Some QueueFull, q)
      else let q1 = q\<lparr>hp := (hp q)\<lparr>val := (val (hp q))(node_at q (end' q) := Some v)\<rparr>\<rparr>;
               e = end' q + 1
           in (None, q1\<lparr>end' := (if e = max' q then 0 else e)\<rparr>))"

text \<open>\<open>Get\<close> tests for an empty queue before it takes the lock; the rest is the critical section.\<close>

definition get_locked :: "'a ring_queue \<Rightarrow> ('a \<times> 'a ring_queue) run" where
  "get_locked q =
     (case val (hp q) (node_at q (start q)) of
        None \<Rightarrow> Panic
      | Some v \<Rightarrow>
          let q1 = q\<lparr>hp := (hp q)\<lparr>val := (val (hp q))(node_at q (start q) := None)\<rparr>\<rparr>;
              s = start q + 1
          in Ret (v, q1\<lparr>start := (if s = max' q then 0 else s)\<rparr>))"

definition Get :: "'a ring_queue \<Rightarrow> ((queue_error + 'a) \<times> 'a ring_queue) run" where
  "Get q = (if start q = end' q then Ret (Inl QueueNull, q)
            else map_run (\<lambda>(v, q'). (Inr v, q')) (get_locked q))"

definition Len :: "'a ring_queue \<Rightarrow> int" where
  "Len q = (if start q < end' q then end' q - start q
            else if start q = end' q then 0
            else end' q + max' q - start q)"

partial_function (option) do_loop ::
  "('a \<Rightarrow> 's \<Rightarrow> 's) \<Rightarrow> 'a heap \<Rightarrow> nat \<Rightarrow> nat \<Rightarrow> 's \<Rightarrow> 's run option" where
  "do_loop f h s e acc =
     (if s = e then Some (Ret acc)
      else case val h s of None \<Rightarrow> Some Panic
      | Some v \<Rightarrow> do_loop f h (nxt h s) e (f v acc))"

declare do_loop.simps [code]

definition Do :: "('a \<Rightarrow> 's \<Rightarrow> 's) \<Rightarrow> 'a ring_queue \<Rightarrow> 's \<Rightarrow> 's run option" where
  "Do f q acc = do_loop f (hp q) (node_at q (start q)) (node_at q (end' q)) acc"

definition List :: "'a ring_queue \<Rightarrow> 'a list run option" where
  "List q = do_loop (\<lambda>v items. items @ [v]) (hp q) (node_at q (start q)) (node_at q (end' q)) []"

text \<open>The body of the loop of \<open>Remove\<close> when the callback answers true for node \<open>s\<close>.\<close>

definition remove_counters :: "bool \<Rightarrow> 'a ring_queue \<Rightarrow> 'a ring_queue" where
  "remove_counters isPrev q =
     (if start q > end' q \<and> \<not> isPrev
      then let s = start q + 1 in q\<lparr>start := (if s \<ge> max' q then s - max' q else s)\<rparr>
      else let e = end' q - 1 in q\<lparr>end' := (if e < 0 then e + max' q else e)\<rparr>)"

definition remove_node :: "nat \<Rightarrow> nat \<Rightarrow> bool \<Rightarrow> 'a ring_queue \<Rightarrow> 'a ring_queue" where
  "remove_node e s isPrev q = (case ring_New 1 (hp q) of (b, h1) \<Rightarrow>
     let h2 = ring_Link e b h1; q1 = remove_counters isPrev (q\<lparr>hp := h2\<rparr>)
     in q1\<lparr>hp := ring_Link (prv h2 s) (nxt h2 s) h2\<rparr>)"

definition removed_prev :: "nat \<Rightarrow> nat \<Rightarrow> 'a ring_queue \<Rightarrow> nat" where
  "removed_prev e s q = (case ring_New 1 (hp q) of (b, h1) \<Rightarrow> prv (ring_Link e b h1) s)"

partial_function (option) remove_loop ::
  "('a \<Rightarrow> bool) \<Rightarrow> nat \<Rightarrow> nat \<Rightarrow> bool \<Rightarrow> 'a ring_queue \<Rightarrow> 'a ring_queue run option" where
  "remove_loop f e s isPrev q =
     (if s = e then Some (Ret q)
      else case val (hp q) s of None \<Rightarrow> Some Panic
      | Some v \<Rightarrow>
          if f v then remove_loop f e (nxt (hp (remove_node e s (isPrev \<or> s = r q) q)) (removed_prev e s q))
                        (isPrev \<or> s = r q) (remove_node e s (isPrev \<or> s = r q) q)
          else remove_loop f e (nxt (hp q) s) (isPrev \<or> s = r q) q)"

declare remove_loop.simps [code]

definition Remove :: "('a \<Rightarrow> bool) \<Rightarrow> 'a ring_queue \<Rightarrow> 'a ring_queue run option" where
  "Remove f q = remove_loop f (node_at q (end' q)) (node_at q (start q)) False q"

section \<open>Abstraction: the segment of the ring that holds the queue's items\<close>

definition segment :: "'b list \<Rightarrow> nat \<Rightarrow> nat \<Rightarrow> 'b list" where
  "segment L s e = (if s \<le> e then take (e - s) (drop s L) else drop s L @ take e L)"

definition nodes :: "'a ring_queue \<Rightarrow> nat list" where
  "nodes q = map (\<lambda>i. node_at q (int i)) [0..<nat (max' q)]"

definition live_nodes :: "'a ring_queue \<Rightarrow> nat list" where
  "live_nodes q = segment (nodes q) (nat (start q)) (nat (end' q))"

definition queue_inv :: "'a ring_queue \<Rightarrow> bool" where
  "queue_inv q \<longleftrightarrow> cyc (hp q) (nodes q) \<and>
     0 \<le> start q \<and> start q < max' q \<and> 0 \<le> end' q \<and> end' q < max' q \<and>
     (\<forall>a\<in>set (live_nodes q). val (hp q) a \<noteq> None)"

definition items :: "'a ring_queue \<Rightarrow> 'a list" where
  "items q = map (\<lambda>a. the (val (hp q) a)) (live_nodes q)"

definition capacity :: "'a ring_queue \<Rightarrow> nat" where
  "capacity q = nat (max' q) - 1"

section \<open>Segments\<close>

abbreviation succ_mod :: "nat \<Rightarrow> nat \<Rightarrow> nat" where
  "succ_mod n i \<equiv> (if Suc i = n then 0 else Suc i)"

lemma segment_same [simp]: "segment L s s = []"
  by (simp add: segment_def)

lemma segment_snoc:
  assumes "s < length L" "e < length L" "s \<noteq> succ_mod (length L) e"
  shows "segment L s (succ_mod (length L) e) = segment L s e @ [L ! e]"
proof (cases "s \<le> e")
  case True
  then have "take (Suc e - s) (drop s L) = take (e - s) (drop s L) @ [L ! e]"
    using assms by (simp add: Suc_diff_le take_Suc_conv_app_nth)
  with True assms show ?thesis
    by (auto simp: segment_def split: if_splits)
next
  case False
  with assms show ?thesis
    by (auto simp: segment_def take_Suc_conv_app_nth split: if_splits)
qed

lemma segment_Cons:
  assumes "s < length L" "e < length L" "s \<noteq> e"
  shows "segment L s e = L ! s # segment L (succ_mod (length L) s) e"
proof -
  have d: "drop s L = L ! s # drop (Suc s) L"
    using assms(1) by (rule Cons_nth_drop_Suc [symmetric])
  show ?thesis
  proof (cases "s < e")
    case True
    then have "take (e - s) (drop s L) = L ! s # take (e - Suc s) (drop (Suc s) L)"
      by (simp add: d take_Cons' Suc_diff_Suc)
    with True assms show ?thesis by (auto simp: segment_def)
  next
    case False
    with assms d show ?thesis by (auto simp: segment_def)
  qed
qed

lemma segment_rotation:
  assumes "s < length L" "e < length L"
  obtains ys where "rotation L (segment L s e @ L ! e # ys)"
    and "hd (segment L s e @ [L ! e]) = L ! s"
proof (cases "s \<le> e")
  case True
  have "drop s L = take (e - s) (drop s L) @ drop s L ! (e - s) # drop (Suc (e - s)) (drop s L)"
    using assms True by (intro id_take_nth_drop) simp
  then have "drop s L @ take s L =
      segment L s e @ L ! e # (drop (Suc (e - s)) (drop s L) @ take s L)"
    using True assms by (simp add: segment_def)
  then have "rotation L (segment L s e @ L ! e # (drop (Suc (e - s)) (drop s L) @ take s L))"
    by (metis rotation_swap append_take_drop_id)
  moreover have "hd (segment L s e @ [L ! e]) = L ! s"
    using True assms by (cases "s = e") (auto simp: segment_Cons)
  ultimately show ?thesis
    by (rule that)
next
  case False
  have "take s L = take e (take s L) @ take s L ! e # drop (Suc e) (take s L)"
    using assms False by (intro id_take_nth_drop) simp
  then have "drop s L @ take s L = segment L s e @ L ! e # drop (Suc e) (take s L)"
    using False assms by (simp add: segment_def)
  then have "rotation L (segment L s e @ L ! e # drop (Suc e) (take s L))"
    by (metis rotation_swap append_take_drop_id)
  moreover have "hd (segment L s e @ [L ! e]) = L ! s"
    using False assms by (auto simp: segment_Cons)
  ultimately show ?thesis
    by (rule that)
qed

lemma nth_index_unique:
  "distinct (xs @ x # ys) \<Longrightarrow> i < length (xs @ x # ys) \<Longrightarrow> (xs @ x # ys) ! i = x \<Longrightarrow> i = length xs"
  using nth_eq_iff_index_eq [of "xs @ x # ys" i "length xs"] by simp

lemma segment_of_rotation:
  assumes dist: "distinct L" and rotation: "rotation L (lv @ x # ys)"
    and s: "s < length L" "L ! s = hd (lv @ [x])" and e: "e < length L" "L ! e = x"
  shows "segment L s e = lv"
proof -
  obtain A B where rot: "L = A @ B" "B @ A = lv @ x # ys"
    using rotation by (auto simp: rotation_def)
  show ?thesis
proof (cases "length B \<le> length lv")
  case True
  then obtain u where lv: "lv = B @ u" and A: "A = u @ x # ys"
    using rot(2) by (auto simp: append_eq_append_conv2)
  then have L: "L = u @ x # (ys @ B)"
    using rot(1) by simp
  then have eu: "e = length u"
    using nth_index_unique [of u x "ys @ B" e] dist e by simp
  show ?thesis
  proof (cases B)
    case Nil
    have "s = 0"
    proof (cases u)
      case Nil
      then show ?thesis
        using nth_index_unique [of "[]" x ys s] dist s L lv \<open>B = []\<close> by simp
    next
      case (Cons c cs)
      then show ?thesis
        using nth_index_unique [of "[]" c "cs @ x # ys" s] dist s L lv \<open>B = []\<close> by simp
    qed
    with Nil L lv eu show ?thesis by (simp add: segment_def)
  next
    case (Cons b bs)
    have "s = length (u @ x # ys)"
      using nth_index_unique [of "u @ x # ys" b bs s] dist s L lv Cons by simp
    then show ?thesis
      using L lv eu by (simp add: segment_def)
  qed
next
  case False
  then obtain v where B: "B = lv @ x # v" and ys: "ys = v @ A"
    using rot(2) by (auto simp: append_eq_append_conv2 append_eq_Cons_conv)
  then have L: "L = (A @ lv) @ x # v"
    using rot(1) by simp
  then have e': "e = length (A @ lv)"
    using nth_index_unique [of "A @ lv" x v e] dist e by simp
  have "s = length A"
  proof (cases lv)
    case Nil
    then show ?thesis
      using nth_index_unique [of A x v s] dist s L by simp
  next
    case (Cons c cs)
    then show ?thesis
      using nth_index_unique [of A c "cs @ x # v" s] dist s L by simp
  qed
  with e' L show ?thesis by (simp add: segment_def)
qed
qed

section \<open>The invariant and the operations\<close>

lemma nodes_nth: "i < nat (max' q) \<Longrightarrow> nodes q ! i = node_at q (int i)"
  by (simp add: nodes_def)

lemma length_nodes [simp]: "length (nodes q) = nat (max' q)"
  by (simp add: nodes_def)

lemma hd_nodes: "0 < max' q \<Longrightarrow> hd (nodes q) = r q"
  by (simp add: nodes_def hd_map node_at_def)

lemma nodes_of_cyc:
  assumes "cyc (hp q) L" "hd L = r q" "length L = nat (max' q)"
  shows "nodes q = L"
proof (rule nth_equalityI)
  show "length (nodes q) = length L" using assms(3) by simp
  fix i assume "i < length (nodes q)"
  with assms show "nodes q ! i = L ! i"
    using cyc_Move [OF assms(1), of i] by (simp add: nodes_nth node_at_def)
qed

lemma queue_invI:
  assumes "cyc (hp q) L" "hd L = r q" "length L = nat (max' q)"
    and "0 \<le> start q" "start q < max' q" "0 \<le> end' q" "end' q < max' q"
    and "segment L (nat (start q)) (nat (end' q)) = ns"
    and "\<And>a. a \<in> set ns \<Longrightarrow> val (hp q) a \<noteq> None"
  shows "queue_inv q \<and> live_nodes q = ns"
  using assms nodes_of_cyc [OF assms(1-3)] by (auto simp: queue_inv_def live_nodes_def)

lemma node_at_nodes:
  "queue_inv q \<Longrightarrow> 0 \<le> i \<Longrightarrow> i < max' q \<Longrightarrow> node_at q i = nodes q ! nat i"
  by (simp add: nodes_nth)

text \<open>The ring seen from the first item: the items, the node of \<open>end\<close>, the free nodes.\<close>

lemma queue_inv_ring:
  assumes "queue_inv q"
  obtains ys where "rotation (nodes q) (live_nodes q @ node_at q (end' q) # ys)"
    and "cyc (hp q) (live_nodes q @ node_at q (end' q) # ys)"
    and "hd (live_nodes q @ [node_at q (end' q)]) = node_at q (start q)"
proof -
  have se: "nat (start q) < length (nodes q)" "nat (end' q) < length (nodes q)"
    using assms by (auto simp: queue_inv_def)
  obtain ys where AB: "rotation (nodes q) (live_nodes q @ nodes q ! nat (end' q) # ys)"
    "hd (live_nodes q @ [nodes q ! nat (end' q)]) = nodes q ! nat (start q)"
    using segment_rotation [OF se] by (metis live_nodes_def)
  have n: "node_at q (end' q) = nodes q ! nat (end' q)" "node_at q (start q) = nodes q ! nat (start q)"
    using assms by (auto simp: queue_inv_def node_at_nodes [OF assms])
  have "cyc (hp q) (live_nodes q @ nodes q ! nat (end' q) # ys)"
    using assms rotation_cyc [OF AB(1), of "hp q"] by (simp add: queue_inv_def)
  with AB n show ?thesis
    using that [of ys] by simp
qed

lemma NewRingQueue_inv [inv_intros]:
  "queue_inv (NewRingQueue n :: 'a ring_queue)" "live_nodes (NewRingQueue n :: 'a ring_queue) = []"
proof -
  obtain b h where new: "ring_New (n + 1) (empty_heap :: 'a heap) = (b, h)"
    by (cases "ring_New (n + 1) (empty_heap :: 'a heap)") auto
  have C: "cyc h [b..<b + (n + 1)]"
    by (rule cyc_ring_New [OF _ new]) simp
  have q: "(NewRingQueue n :: 'a ring_queue) = \<lparr>hp = h, r = b, start = 0, end' = 0, max' = int n + 1\<rparr>"
    using new by (simp add: NewRingQueue_def)
  have "queue_inv (NewRingQueue n :: 'a ring_queue) \<and> live_nodes (NewRingQueue n :: 'a ring_queue) = []"
    by (rule queue_invI [of _ "[b..<b + (n + 1)]"])
       (use C in \<open>simp_all add: q nat_add_distrib del: upt_Suc\<close>)
  then show "queue_inv (NewRingQueue n :: 'a ring_queue)" "live_nodes (NewRingQueue n :: 'a ring_queue) = []"
    by simp_all
qed

lemma cyc_val_update [simp]: "cyc (h\<lparr>val := f\<rparr>) C = cyc h C"
proof -
  have "cyc (h\<lparr>val := f\<rparr>) C" if "cyc h C"
    by (rule cyc_frame [OF that]) auto
  moreover have "cyc h C" if "cyc (h\<lparr>val := f\<rparr>) C"
    by (rule cyc_frame [OF that]) auto
  ultimately show ?thesis by blast
qed

definition full :: "'a ring_queue \<Rightarrow> bool" where
  "full q \<longleftrightarrow> start q = end' q + 1 \<or> end' q + 1 = max' q \<and> start q = 0"

lemma length_live_nodes:
  assumes "queue_inv q"
  shows "int (length (live_nodes q)) = Len q"
  using assms by (auto simp: queue_inv_def live_nodes_def segment_def Len_def)

lemma full_iff:
  assumes "queue_inv q" shows "full q \<longleftrightarrow> length (live_nodes q) = capacity q"
  using assms length_live_nodes [OF assms]
  by (auto simp: full_def queue_inv_def capacity_def Len_def split: if_splits)

lemma Put_full: "full q \<Longrightarrow> Put v q = (Some QueueFull, q)"
  by (auto simp: Put_def full_def)

lemma Put_room:
  assumes inv: "queue_inv q" and room: "\<not> full q"
  obtains q' where "Put v q = (None, q')" "queue_inv q'" "items q' = items q @ [v]"
    and "max' q' = max' q"
proof -
  let ?e = "node_at q (end' q)"
  let ?L = "nodes q"
  define q' where "q' = snd (Put v q)"
  have q': "Put v q = (None, q')" "hp q' = (hp q)\<lparr>val := (val (hp q))(?e := Some v)\<rparr>"
      "r q' = r q" "start q' = start q" "max' q' = max' q"
      "end' q' = (if end' q + 1 = max' q then 0 else end' q + 1)"
    using room by (auto simp: q'_def Put_def full_def Let_def)
  have rng: "0 \<le> start q" "start q < max' q" "0 \<le> end' q" "end' q < max' q"
    and cyc: "cyc (hp q) ?L" and live: "\<forall>a\<in>set (live_nodes q). val (hp q) a \<noteq> None"
    using inv by (auto simp: queue_inv_def)
  have e: "?e = ?L ! nat (end' q)"
    using rng by (simp add: node_at_nodes [OF inv])
  have n': "nat (end' q') = succ_mod (length ?L) (nat (end' q))"
    using rng q' by auto
  have "segment ?L (nat (start q')) (nat (end' q')) = live_nodes q @ [?e]"
    unfolding n' e live_nodes_def q'(4)
    by (rule segment_snoc) (use rng room in \<open>auto simp: full_def\<close>)
  moreover have "cyc (hp q') ?L"
    using cyc q'(2) by simp
  ultimately have "queue_inv q' \<and> live_nodes q' = live_nodes q @ [?e]"
    by (intro queue_invI [of q' ?L]) (use rng q' live hd_nodes [of q] in auto)
  then have "queue_inv q'" and l': "live_nodes q' = live_nodes q @ [?e]"
    by auto
  moreover have "?e \<notin> set (live_nodes q)"
    by (rule queue_inv_ring [OF inv]) (auto simp: cyc_def)
  then have "items q' = items q @ [v]"
    by (auto simp: items_def l' q'(2))
  ultimately show ?thesis
    using that [of q'] q' by simp
qed

lemma Get_empty: "start q = end' q \<Longrightarrow> Get q = Ret (Inl QueueNull, q)"
  by (simp add: Get_def)

lemma empty_iff:
  assumes "queue_inv q" shows "start q = end' q \<longleftrightarrow> live_nodes q = []"
  using length_live_nodes [OF assms] assms
  by (auto simp: Len_def queue_inv_def split: if_splits)

lemma Get_item:
  assumes inv: "queue_inv q" and ne: "live_nodes q \<noteq> []"
  obtains q' where "Get q = Ret (Inr (hd (items q)), q')" "queue_inv q'"
    and "items q' = tl (items q)" "max' q' = max' q"
proof -
  let ?s = "node_at q (start q)"
  let ?L = "nodes q"
  have rng: "0 \<le> start q" "start q < max' q" "0 \<le> end' q" "end' q < max' q"
    and cyc: "cyc (hp q) ?L" and live: "\<forall>a\<in>set (live_nodes q). val (hp q) a \<noteq> None"
    using inv by (auto simp: queue_inv_def)
  have s: "?s = ?L ! nat (start q)"
    using rng by (simp add: node_at_nodes [OF inv])
  have ne': "start q \<noteq> end' q" using ne empty_iff [OF inv] by simp
  define ns where "ns = segment ?L (succ_mod (length ?L) (nat (start q))) (nat (end' q))"
  have seg: "live_nodes q = ?s # ns"
    unfolding s ns_def live_nodes_def
    by (rule segment_Cons) (use rng ne' in auto)
  then obtain v where v: "val (hp q) ?s = Some v"
    using live by auto
  define q' where "q' = q\<lparr>hp := (hp q)\<lparr>val := (val (hp q))(?s := None)\<rparr>,
      start := (if start q + 1 = max' q then 0 else start q + 1)\<rparr>"
  have get: "Get q = Ret (Inr v, q')"
    using ne' v by (simp add: Get_def get_locked_def Let_def q'_def)
  have dist: "distinct (?s # ns)"
    by (rule queue_inv_ring [OF inv]) (auto simp: cyc_def seg)
  have "nat (start q') = succ_mod (length ?L) (nat (start q))"
    using rng by (auto simp: q'_def)
  then have "queue_inv q' \<and> live_nodes q' = ns"
    by (intro queue_invI [of q' ?L])
       (use rng cyc live dist seg hd_nodes [of q] in \<open>auto simp: q'_def ns_def\<close>)
  then have "queue_inv q'" and l': "live_nodes q' = ns"
    by auto
  moreover have "items q = v # items q'"
    using dist v by (auto simp: items_def l' seg) (auto simp: q'_def)
  ultimately show ?thesis
    using that [of q'] get by (simp add: q'_def)
qed

section \<open>Loops over the items\<close>

lemma do_loop_items:
  assumes "linked h (xs @ [e])" "e \<notin> set xs" "\<And>a. a \<in> set xs \<Longrightarrow> val h a \<noteq> None"
  shows "do_loop f h (hd (xs @ [e])) e acc = Some (Ret (fold f (map (\<lambda>a. the (val h a)) xs) acc))"
  using assms
proof (induction xs arbitrary: acc)
  case Nil
  then show ?case by (simp add: do_loop.simps)
next
  case (Cons a xs)
  from Cons.prems(3) obtain v where v: "val h a = Some v" by fastforce
  have "nxt h a = hd (xs @ [e])" and "linked h (xs @ [e])"
    using Cons.prems(1) by (cases xs; auto)+
  with Cons v show ?case
    by (simp add: do_loop.simps [of f h a])
qed

lemma cyc_linkedD: "cyc h (xs @ e # ys) \<Longrightarrow> linked h (xs @ [e]) \<and> e \<notin> set xs"
  using linked_append [of h xs e "ys @ [hd (xs @ e # ys)]"] by (auto simp: cyc_def)

lemma Do_items:
  assumes "queue_inv q"
  shows "Do f q acc = Some (Ret (fold f (items q) acc))"
proof -
  obtain ys where cyc: "cyc (hp q) (live_nodes q @ node_at q (end' q) # ys)"
    and hd: "hd (live_nodes q @ [node_at q (end' q)]) = node_at q (start q)"
    using queue_inv_ring [OF assms] by metis
  have "\<And>a. a \<in> set (live_nodes q) \<Longrightarrow> val (hp q) a \<noteq> None"
    using assms by (auto simp: queue_inv_def)
  with cyc_linkedD [OF cyc] hd show ?thesis
    using do_loop_items [of "hp q" "live_nodes q" "node_at q (end' q)" f acc]
    by (simp add: Do_def items_def)
qed

lemma fold_snoc: "fold (\<lambda>v acc. acc @ [v]) xs acc = acc @ xs"
  by (induction xs arbitrary: acc) auto

lemma List_items: "queue_inv q \<Longrightarrow> List q = Some (Ret (items q))"
  using Do_items [of q "\<lambda>v items. items @ [v]" "[]"] by (simp add: List_def Do_def fold_snoc)

section \<open>Remove\<close>

text \<open>
  The state of the loop: \<open>ps\<close> are the items already kept, \<open>xs\<close> those still to be visited, \<open>ys\<close>
  the free nodes behind \<open>end\<close>. The ring of the store is \<open>xs, end, ys, ps\<close>; \<open>L\<close> is the same
  ring from the root node on, which is how the counters address it.
\<close>

definition remove_inv ::
  "nat \<Rightarrow> bool \<Rightarrow> nat list \<Rightarrow> nat list \<Rightarrow> nat list \<Rightarrow> nat list \<Rightarrow> 'a ring_queue \<Rightarrow> bool" where
  "remove_inv e passed ps xs ys L q \<longleftrightarrow>
     cyc (hp q) L \<and> rotation L (xs @ e # ys @ ps) \<and>
     hd L = r q \<and> length L = nat (max' q) \<and>
     0 \<le> start q \<and> start q < max' q \<and> 0 \<le> end' q \<and> end' q < max' q \<and>
     L ! nat (start q) = hd (ps @ xs @ [e]) \<and> L ! nat (end' q) = e \<and>
     (passed \<longleftrightarrow> r q \<in> set ps) \<and> (\<forall>a\<in>set (ps @ xs). val (hp q) a \<noteq> None)"

lemma remove_inv_done:
  assumes "remove_inv e passed ps [] ys L q"
  shows "queue_inv q \<and> live_nodes q = ps"
proof -
  have "rotation L (ps @ e # ys)"
    using assms rotation_shift [of L "e # ys" ps] by (simp add: remove_inv_def)
  then have "segment L (nat (start q)) (nat (end' q)) = ps"
    using assms by (intro segment_of_rotation) (auto simp: remove_inv_def cyc_def)
  then show ?thesis
    using assms by (intro queue_invI [of q L]) (auto simp: remove_inv_def)
qed

lemma remove_inv_start:
  assumes "queue_inv q"
  obtains ys where "remove_inv (node_at q (end' q)) False [] (live_nodes q) ys (nodes q) q"
proof -
  obtain ys where "rotation (nodes q) (live_nodes q @ node_at q (end' q) # ys)"
    "hd (live_nodes q @ [node_at q (end' q)]) = node_at q (start q)"
    using queue_inv_ring [OF assms] by metis
  moreover have "node_at q (end' q) = nodes q ! nat (end' q)" "node_at q (start q) = nodes q ! nat (start q)"
    using assms by (auto simp: queue_inv_def nodes_nth)
  moreover have "hd (nodes q) = r q"
    using assms by (intro hd_nodes) (auto simp: queue_inv_def)
  ultimately have "remove_inv (node_at q (end' q)) False [] (live_nodes q) ys (nodes q) q"
    using assms by (auto simp: remove_inv_def queue_inv_def)
  then show ?thesis by (rule that)
qed

lemma remove_inv_cyc:
  "remove_inv e passed ps xs ys L q \<Longrightarrow> cyc (hp q) (xs @ e # ys @ ps)"
  by (auto simp: remove_inv_def dest: rotation_cyc [of _ _ "hp q"])

lemma remove_inv_keep:
  assumes "remove_inv e passed ps (x # xs) ys L q"
  shows "remove_inv e (passed \<or> x = r q) (ps @ [x]) xs ys L q"
proof -
  have "rotation L ([x] @ (xs @ e # ys @ ps))"
    using assms by (simp add: remove_inv_def)
  then have "rotation L (xs @ e # ys @ ps @ [x])"
    using rotation_shift [of L "[x]" "xs @ e # ys @ ps"] by simp
  with assms show ?thesis
    by (auto simp: remove_inv_def hd_append)
qed

text \<open>One removal: the ring afterwards, in the order of the loop.\<close>

lemma remove_counters_hp [simp]:
  "hp (remove_counters p q) = hp q" "r (remove_counters p q) = r q"
  "max' (remove_counters p q) = max' q"
  by (simp_all add: remove_counters_def Let_def)

lemma remove_counters_of_hp [simp]:
  "start (remove_counters p (q\<lparr>hp := h\<rparr>)) = start (remove_counters p q)"
  "end' (remove_counters p (q\<lparr>hp := h\<rparr>)) = end' (remove_counters p q)"
  by (simp_all add: remove_counters_def Let_def)

lemma remove_node_counters [simp]:
  "start (remove_node e x p q) = start (remove_counters p q)"
  "end' (remove_node e x p q) = end' (remove_counters p q)"
  "r (remove_node e x p q) = r q" "max' (remove_node e x p q) = max' q"
  by (simp_all add: remove_node_def Let_def split: prod.split)

lemma remove_node_ring:
  assumes cyc: "cyc (hp q) (x # xs @ e # zs)"
  defines "b \<equiv> brk (hp q)"
  shows "cyc (hp (remove_node e x p q)) (xs @ e # b # zs)"
    and "nxt (hp (remove_node e x p q)) (removed_prev e x q) = hd (xs @ [e])"
    and "a < b \<Longrightarrow> val (hp (remove_node e x p q)) a = val (hp q) a"
proof -
  obtain c h1 where new: "ring_New 1 (hp q) = (c, h1)"
    by (cases "ring_New 1 (hp q)") auto
  note N = cyc_ring_New [OF _ new]
  have c: "c = b" using N(2) by (simp add: b_def)
  define h2 where "h2 = ring_Link e b h1"
  let ?h3 = "ring_Link (prv h2 x) (nxt h2 x) h2"
  have rem: "hp (remove_node e x p q) = ?h3" "removed_prev e x q = prv h2 x"
    by (simp_all add: remove_node_def removed_prev_def new [simplified] Let_def c h2_def)
  have "cyc (hp q) (e # zs @ x # xs)"
    using cyc cyc_rotate [of "hp q" "x # xs" "e # zs"] by simp
  then have "cyc h2 (e # b # zs @ x # xs)"
    unfolding h2_def using cyc_insert [OF _ new] c by simp
  then have two: "cyc h2 (x # (xs @ e # b # zs))"
    using cyc_rotate [of h2 "x # xs" "e # b # zs"] by simp
  note U = cyc_unlink [OF two, simplified]
  from U(1) rem show "cyc (hp (remove_node e x p q)) (xs @ e # b # zs)" by simp
  have last: "prv h2 x = last (b # zs)" using U(2) by simp
  have "(xs @ e # butlast (b # zs)) @ [last (b # zs)] = xs @ e # b # zs"
    using append_butlast_last_id [of "b # zs"] by (metis append_Cons append_assoc list.distinct(1))
  then have "cyc ?h3 (last (b # zs) # xs @ e # butlast (b # zs))"
    using U(1) cyc_rotate [of ?h3 "xs @ e # butlast (b # zs)" "[last (b # zs)]"]
    by (metis append_Cons append_Nil)
  then have "nxt ?h3 (last (b # zs)) = hd (xs @ [e])"
    by (cases xs) (auto dest: cyc_nxt)
  with rem last show "nxt (hp (remove_node e x p q)) (removed_prev e x q) = hd (xs @ [e])"
    by simp
  show "val (hp (remove_node e x p q)) a = val (hp q) a" if "a < b"
    using N(4) that by (simp add: rem h2_def b_def)
qed

lemma remove_inv_drop:
  assumes inv: "remove_inv e passed ps (x # xs) ys L q" and root: "x \<noteq> r q"
  obtains L' where
    "remove_inv e passed ps xs (brk (hp q) # ys) L' (remove_node e x passed q)"
proof -
  note result = that
  let ?b = "brk (hp q)"
  let ?q = "remove_node e x passed q"
  have cyc: "cyc (hp q) (x # xs @ e # ys @ ps)"
    using remove_inv_cyc [OF inv] by simp
  note R = remove_node_ring [OF cyc, where p = passed]
  from inv have L: "cyc (hp q) L" "rotation L (x # xs @ e # ys @ ps)" "hd L = r q"
      "length L = nat (max' q)" and rng: "0 \<le> start q" "start q < max' q" "0 \<le> end' q" "end' q < max' q"
    and nth: "L ! nat (start q) = hd (ps @ x # xs @ [e])" "L ! nat (end' q) = e"
    and passed: "passed \<longleftrightarrow> r q \<in> set ps"
    and vals: "\<forall>a\<in>set (ps @ x # xs). val (hp q) a \<noteq> None"
    by (auto simp: remove_inv_def)
  have dist: "distinct L" using L(1) by (simp add: cyc_def)
  have lens: "nat (start q) < length L" "nat (end' q) < length L"
    using rng L(4) by auto
  have "\<forall>a\<in>set (ps @ xs). a < ?b" using cyc by (auto simp: cyc_def)
  then have vals': "\<forall>a\<in>set (ps @ xs). val (hp ?q) a \<noteq> None"
    using vals R(3) by auto
  have goal: thesis
    if L': "rotation L' (xs @ e # ?b # ys @ ps)" "hd L' = r q"
      and s': "L' = P @ Q" "Q \<noteq> []" "hd Q = hd (ps @ xs @ [e])" "start ?q = int (length P)"
      and e': "L' = P' @ e # Q'" "end' ?q = int (length P')" for L' P Q P' Q'
  proof (rule result [of L'])
    have len: "length L' = length L"
      using rotation_length [OF L'(1)] rotation_length [OF L(2)] by simp
    have "cyc (hp ?q) L'"
      using R(1) rotation_cyc [OF L'(1), of "hp ?q"] by simp
    moreover have "start ?q < max' q"
      using s'(1,2,4) len L(4) by (auto simp: neq_Nil_conv)
    moreover have "end' ?q < max' q"
      using e' len L(4) by auto
    moreover have "L' ! nat (start ?q) = hd Q"
      using s'(1,2,4) by (simp add: nth_append hd_conv_nth)
    moreover have "L' ! nat (end' ?q) = e"
      using e' by simp
    ultimately show "remove_inv e passed ps xs (?b # ys) L' ?q"
      using L' s'(3,4) e'(2) len L(4) passed vals' by (simp add: remove_inv_def)
  qed
  have "r q \<in> set (x # xs @ e # ys @ ps)"
    using L(1,3) hd_in_set [of L] by (simp only: rotation_set [OF L(2)]) (simp add: cyc_def)
  with root consider (todo) "r q \<in> set xs" | (stop) "r q = e" | (free) "r q \<in> set ys" | (kept) "r q \<in> set ps"
    by auto
  then show thesis
  proof cases
    case todo
    then obtain u v where xs: "xs = u @ r q # v" by (auto simp: in_set_conv_decomp)
    have Leq: "L = r q # v @ e # ys @ ps @ x # u"
      using rotation_hd [of L "x # u" "r q" "v @ e # ys @ ps"] L(2,3) dist by (simp add: xs)
    have E: "nat (end' q) = Suc (length v)"
      using nth_index_unique [of "r q # v" e "ys @ ps @ x # u" "nat (end' q)"] dist nth(2) lens(2)
      by (simp add: Leq)
    have S: "nat (start q) = length v + length ys + 2"
      using nth_index_unique [of "r q # v @ e # ys" "hd (ps @ [x])" "tl (ps @ x # u)" "nat (start q)"]
        dist nth(1) lens(1) by (cases ps) (simp_all add: Leq)
    have gt: "end' q < start q" and np: "\<not> passed"
      using E S rng passed todo dist by (auto simp: Leq)
    then have cnt: "start ?q = (if start q + 1 \<ge> max' q then start q + 1 - max' q else start q + 1)"
      "end' ?q = end' q"
      by (simp_all add: remove_counters_def Let_def)
    have max: "max' q = int (length v + length ys + length ps + length u + 3)"
      using L(4) rng by (simp add: Leq)
    have rot: "rotation (r q # v @ e # ?b # ys @ ps @ u) (xs @ e # ?b # ys @ ps)"
      using rotation_swap [of "r q # v @ e # ?b # ys @ ps" u] by (simp add: xs)
    show thesis
    proof (cases "ps = [] \<and> u = []")
      case True
      show thesis
        by (rule goal [OF rot, where P = "[]" and Q = "r q # v @ e # ?b # ys @ ps @ u" and P' = "r q # v"])
           (use True cnt max E S rng in \<open>simp_all add: xs\<close>)
    next
      case False
      then have "0 < length ps + length u" by auto
      then have "start q + 1 < max' q" using S max rng(1) by linarith
      then have cnt: "start ?q = start q + 1" "end' ?q = end' q" using cnt by simp_all
      show thesis
        by (rule goal [OF rot, where P = "r q # v @ e # ?b # ys" and P' = "r q # v"])
           (use False cnt max E S rng in \<open>auto simp: xs hd_append\<close>)
    qed
  next
    case stop
    have Leq: "L = e # ys @ ps @ x # xs"
      using rotation_hd [of L "x # xs" "r q" "ys @ ps"] L(2,3) dist by (simp add: stop)
    have E: "nat (end' q) = 0"
      using nth_index_unique [of "[]" e "ys @ ps @ x # xs" "nat (end' q)"] dist nth(2) lens(2)
      by (simp add: Leq)
    have S: "nat (start q) = Suc (length ys)"
      using nth_index_unique [of "e # ys" "hd (ps @ [x])" "tl (ps @ x # xs)" "nat (start q)"]
        dist nth(1) lens(1) by (cases ps) (simp_all add: Leq)
    have gt: "end' q < start q" and np: "\<not> passed"
      using E S rng passed stop dist by (auto simp: Leq)
    then have cnt: "start ?q = (if start q + 1 \<ge> max' q then start q + 1 - max' q else start q + 1)"
      "end' ?q = end' q"
      by (simp_all add: remove_counters_def Let_def)
    have max: "max' q = int (length ys + length ps + length xs + 2)"
      using L(4) rng by (simp add: Leq)
    have rot: "rotation (e # ?b # ys @ ps @ xs) (xs @ e # ?b # ys @ ps)"
      using rotation_swap [of "e # ?b # ys @ ps" xs] by simp
    show thesis
    proof (cases "ps = [] \<and> xs = []")
      case True
      show thesis
        by (rule goal [OF rot, where P = "[]" and Q = "e # ?b # ys @ ps @ xs" and P' = "[]"])
           (use True stop cnt max E S rng in simp_all)
    next
      case False
      then have "0 < length ps + length xs" by auto
      then have "start q + 1 < max' q" using S max rng(1) by linarith
      then have cnt: "start ?q = start q + 1" "end' ?q = end' q" using cnt by simp_all
      show thesis
        by (rule goal [OF rot, where P = "e # ?b # ys" and P' = "[]"])
           (use False stop cnt max E S rng in \<open>auto simp: hd_append\<close>)
    qed
  next
    case free
    then obtain y1 y2 where ys: "ys = y1 @ r q # y2" by (auto simp: in_set_conv_decomp)
    have Leq: "L = r q # y2 @ ps @ x # xs @ e # y1"
      using rotation_hd [of L "x # xs @ e # y1" "r q" "y2 @ ps"] L(2,3) dist by (simp add: ys)
    have E: "nat (end' q) = length y2 + length ps + length xs + 2"
      using nth_index_unique [of "r q # y2 @ ps @ x # xs" e y1 "nat (end' q)"] dist nth(2) lens(2)
      by (simp add: Leq)
    have S: "nat (start q) = Suc (length y2)"
      using nth_index_unique [of "r q # y2" "hd (ps @ [x])" "tl (ps @ x # xs @ e # y1)" "nat (start q)"]
        dist nth(1) lens(1) by (cases ps) (simp_all add: Leq)
    have "start q \<le> end' q" using E S rng by linarith
    then have cnt: "start ?q = start q" "end' ?q = end' q - 1"
      using E rng by (auto simp: remove_counters_def Let_def)
    have rot: "rotation (r q # y2 @ ps @ xs @ e # ?b # y1) (xs @ e # ?b # ys @ ps)"
      using rotation_swap [of "r q # y2 @ ps" "xs @ e # ?b # y1"] by (simp add: ys)
    show thesis
      by (rule goal [OF rot, where P = "r q # y2" and P' = "r q # y2 @ ps @ xs"])
         (use cnt E S rng in \<open>auto simp: hd_append\<close>)
  next
    case kept
    then obtain p1 p2 where ps: "ps = p1 @ r q # p2" by (auto simp: in_set_conv_decomp)
    have Leq: "L = r q # p2 @ x # xs @ e # ys @ p1"
      using rotation_hd [of L "x # xs @ e # ys @ p1" "r q" p2] L(2,3) dist by (simp add: ps)
    have E: "nat (end' q) = length p2 + length xs + 2"
      using nth_index_unique [of "r q # p2 @ x # xs" e "ys @ p1" "nat (end' q)"] dist nth(2) lens(2)
      by (simp add: Leq)
    have S: "nat (start q) = (if p1 = [] then 0 else length p2 + length xs + length ys + 3)"
    proof (cases p1)
      case Nil
      then show ?thesis
        using nth_index_unique [of "[]" "r q" "p2 @ x # xs @ e # ys" "nat (start q)"] dist nth(1) lens(1)
        by (simp add: Leq ps)
    next
      case (Cons c cs)
      then show ?thesis
        using nth_index_unique [of "r q # p2 @ x # xs @ e # ys" c cs "nat (start q)"] dist nth(1) lens(1)
        by (simp add: Leq ps)
    qed
    have pass: passed using passed kept by simp
    then have cnt: "start ?q = start q" "end' ?q = end' q - 1"
      using E rng by (auto simp: remove_counters_def Let_def)
    have rot: "rotation (r q # p2 @ xs @ e # ?b # ys @ p1) (xs @ e # ?b # ys @ ps)"
      using rotation_swap [of "r q # p2" "xs @ e # ?b # ys @ p1"] by (simp add: ps)
    show thesis
    proof (cases "p1 = []")
      case True
      show thesis
        by (rule goal [OF rot, where P = "[]" and Q = "r q # p2 @ xs @ e # ?b # ys @ p1"
              and P' = "r q # p2 @ xs"])
           (use True cnt E S rng in \<open>simp_all add: ps\<close>)
    next
      case False
      show thesis
        by (rule goal [OF rot, where P = "r q # p2 @ xs @ e # ?b # ys" and P' = "r q # p2 @ xs"])
           (use False cnt E S rng in \<open>auto simp: ps hd_append\<close>)
    qed
  qed
qed

text \<open>The loop, item by item.\<close>

abbreviation item :: "'a ring_queue \<Rightarrow> nat \<Rightarrow> 'a" where
  "item q a \<equiv> the (val (hp q) a)"

lemma remove_loop_end: "remove_loop f e e passed q = Some (Ret q)"
  by (simp add: remove_loop.simps)

lemma remove_loop_keep_step:
  assumes "x \<noteq> e" "val (hp q) x = Some v" "\<not> f v"
  shows "remove_loop f e x passed q = remove_loop f e (nxt (hp q) x) (passed \<or> x = r q) q"
  using assms by (simp add: remove_loop.simps [of f e x])

lemma remove_loop_drop_step:
  assumes "cyc (hp q) (x # xs @ e # zs)" "val (hp q) x = Some v" "f v"
  shows "remove_loop f e x passed q =
    remove_loop f e (hd (xs @ [e])) (passed \<or> x = r q) (remove_node e x (passed \<or> x = r q) q)"
proof -
  have "x \<noteq> e" using assms(1) by (auto simp: cyc_def)
  with assms show ?thesis
    by (simp add: remove_loop.simps [of f e x] remove_node_ring(2))
qed

lemma remove_loop_spec:
  assumes "remove_inv e passed ps xs ys L q"
    and "r q \<notin> set xs \<or> \<not> f (item q (r q))"
  shows "\<exists>q'. remove_loop f e (hd (xs @ [e])) passed q = Some (Ret q') \<and> queue_inv q' \<and>
    items q' = map (item q) ps @ filter (\<lambda>v. \<not> f v) (map (item q) xs) \<and> max' q' = max' q"
  using assms
proof (induction xs arbitrary: passed ps ys L q)
  case Nil
  then show ?case
    using remove_inv_done [OF Nil(1)] by (simp add: remove_loop_end items_def)
next
  case (Cons x xs)
  have cyc: "cyc (hp q) (x # xs @ e # ys @ ps)"
    using remove_inv_cyc [OF Cons.prems(1)] by simp
  from Cons.prems(1) obtain v where v: "val (hp q) x = Some v"
    by (auto simp: remove_inv_def)
  have x: "x \<noteq> e" using cyc by (auto simp: cyc_def)
  have nxt: "nxt (hp q) x = hd (xs @ [e])"
    using cyc by (cases xs) (auto dest: cyc_nxt)
  show ?case
  proof (cases "f v")
    case False
    have "remove_inv e (passed \<or> x = r q) (ps @ [x]) xs ys L q"
      by (rule remove_inv_keep [OF Cons.prems(1)])
    then show ?thesis
      using Cons.IH [of "passed \<or> x = r q" "ps @ [x]" ys L q] Cons.prems(2) False v x nxt
      by (auto simp: remove_loop_keep_step)
  next
    case True
    then have root: "x \<noteq> r q" using Cons.prems(2) v by auto
    let ?q = "remove_node e x passed q"
    obtain L' where inv': "remove_inv e passed ps xs (brk (hp q) # ys) L' ?q"
      by (rule remove_inv_drop [OF Cons.prems(1) root])
    have old: "item ?q a = item q a" if "a \<in> set (ps @ xs)" for a
      using that cyc remove_node_ring(3) [OF cyc] by (auto simp: cyc_def)
    then have maps: "map (item ?q) ps = map (item q) ps" "map (item ?q) xs = map (item q) xs"
      by simp_all
    have "r ?q \<notin> set xs \<or> \<not> f (item ?q (r ?q))"
      using Cons.prems(2) old by auto
    from Cons.IH [OF inv' this] show ?thesis
      using remove_loop_drop_step [where f = f, OF cyc v True] root True v by (simp add: maps)
  qed
qed

lemma Remove_items:
  assumes inv: "queue_inv q" and root: "r q \<notin> set (live_nodes q) \<or> \<not> f (item q (r q))"
  obtains q' where "Remove f q = Some (Ret q')" "queue_inv q'"
    and "items q' = filter (\<lambda>v. \<not> f v) (items q)" "max' q' = max' q"
proof -
  obtain ys where rinv: "remove_inv (node_at q (end' q)) False [] (live_nodes q) ys (nodes q) q"
    using remove_inv_start [OF inv] .
  have "hd (live_nodes q @ [node_at q (end' q)]) = node_at q (start q)"
    using queue_inv_ring [OF inv] by metis
  with remove_loop_spec [where f = f, OF rinv root] that show ?thesis
    by (auto simp: Remove_def items_def)
qed

text \<open>
  Removing the item in the node the struct points to (\<open>r.r\<close>): \<open>Link\<close> takes the node out of the
  ring, but \<open>r.r\<close> still refers to it, so every index of the queue addresses this one node.
\<close>

lemma remove_loop_keep_all:
  assumes "linked (hp q) (xs @ ws @ [e])" "e \<notin> set xs"
    and "\<And>a. a \<in> set xs \<Longrightarrow> \<exists>v. val (hp q) a = Some v \<and> \<not> f v"
  shows "\<exists>passed'. remove_loop f e (hd (xs @ ws @ [e])) passed q = remove_loop f e (hd (ws @ [e])) passed' q"
  using assms
proof (induction xs arbitrary: passed)
  case (Cons x xs)
  obtain v where v: "val (hp q) x = Some v" "\<not> f v" using Cons.prems(3) by auto
  have "nxt (hp q) x = hd (xs @ ws @ [e])" "linked (hp q) (xs @ ws @ [e])"
    using Cons.prems(1) by (cases xs; cases ws; auto)+
  with Cons v show ?case
    by (simp add: remove_loop_keep_step)
qed auto

lemma ring_Move_fixed: "nxt h p = p \<Longrightarrow> ring_Move h n p = p"
  by (induction n) auto

lemma Len_remove_counters:
  assumes "queue_inv q" "live_nodes q \<noteq> []"
  shows "Len (remove_node e x True q) = Len q - 1"
proof -
  have "start q \<noteq> end' q" using assms empty_iff by blast
  with assms show ?thesis
    by (auto simp: Len_def remove_counters_def Let_def queue_inv_def)
qed

lemma Remove_root_collapses:
  assumes inv: "queue_inv q" and root: "r q \<in> set (live_nodes q)"
    and drop: "f (item q (r q))"
    and keep: "\<And>a. a \<in> set (live_nodes q) \<Longrightarrow> a \<noteq> r q \<Longrightarrow> \<not> f (item q a)"
  obtains q' where "Remove f q = Some (Ret q')" "Len q' = Len q - 1" "\<And>i. node_at q' i = r q"
proof -
  let ?e = "node_at q (end' q)"
  obtain ys where cyc: "cyc (hp q) (live_nodes q @ ?e # ys)"
    and hd: "hd (live_nodes q @ [?e]) = node_at q (start q)"
    using queue_inv_ring [OF inv] by metis
  obtain us ws where live: "live_nodes q = us @ r q # ws"
    using root by (auto simp: in_set_conv_decomp)
  have vals: "\<exists>v. val (hp q) a = Some v \<and> \<not> f v" if "a \<in> set us \<union> set ws" for a
    using that inv keep [of a] cyc by (force simp: queue_inv_def live cyc_def)
  obtain v where v: "val (hp q) (r q) = Some v" "f v"
    using inv root drop by (force simp: queue_inv_def)
  have cyc': "cyc (hp q) (r q # ws @ ?e # ys @ us)"
    using cyc cyc_rotate [of "hp q" us "r q # ws @ ?e # ys"] by (simp add: live)
  note R = remove_node_ring [OF cyc']
  obtain p where p: "remove_loop f ?e (hd (us @ (r q # ws) @ [?e])) False q =
      remove_loop f ?e (hd ((r q # ws) @ [?e])) p q"
    using remove_loop_keep_all [of q us "r q # ws" ?e f False] cyc_linkedD [OF cyc] vals
    by (auto simp: live)
  let ?q = "remove_node ?e (r q) True q"
  have "remove_loop f ?e (r q) p q = remove_loop f ?e (hd (ws @ [?e])) True ?q"
    using remove_loop_drop_step [where f = f, OF cyc' v] by simp
  moreover obtain p' where "remove_loop f ?e (hd (ws @ [] @ [?e])) True ?q = remove_loop f ?e (hd ([] @ [?e])) p' ?q"
  proof -
    have old: "val (hp ?q) a = val (hp q) a" if "a \<in> set ws" for a
      using that cyc' R(3) by (auto simp: cyc_def)
    show ?thesis
      using that remove_loop_keep_all [of ?q ws "[]" ?e f True] cyc_linkedD [OF R(1)] vals old by auto
  qed
  ultimately have rem: "Remove f q = Some (Ret ?q)"
    using p hd by (simp add: Remove_def live remove_loop_end)
  have "nxt (hp ?q) (r q) = r q"
  proof -
    obtain c h1 where new: "ring_New 1 (hp q) = (c, h1)"
      by (cases "ring_New 1 (hp q)") auto
    have "cyc (hp q) (?e # ys @ us @ r q # ws)"
      using cyc cyc_rotate [of "hp q" "us @ r q # ws" "?e # ys"] by (simp add: live)
    then have "cyc (ring_Link ?e c h1) (r q # (ws @ ?e # c # ys @ us))"
      using cyc_insert [OF _ new] cyc_rotate [of "ring_Link ?e c h1" "?e # c # ys @ us" "r q # ws"] by simp
    from cyc_unlink(4) [OF this] show ?thesis
      by (simp add: remove_node_def new [simplified] Let_def)
  qed
  then have "node_at ?q i = r q" for i
    by (simp add: node_at_def ring_Move_fixed)
  moreover have "Len ?q = Len q - 1"
    by (rule Len_remove_counters [OF inv]) (use root in auto)
  ultimately show ?thesis using rem that by simp
qed

section \<open>The queue as a bounded first-in first-out list\<close>

text \<open>The contract: what the four operations do to the list of items.\<close>

datatype 'a queue_op = QPut 'a | QGet | QLen | QList

datatype 'a queue_res =
  RPut "queue_error option" | RGet "queue_error + 'a" | RLen int | RList "'a list"

fun fifo_step :: "nat \<Rightarrow> 'a queue_op \<Rightarrow> 'a list \<Rightarrow> 'a queue_res \<times> 'a list" where
  "fifo_step cap (QPut v) xs =
     (if length xs < cap then (RPut None, xs @ [v]) else (RPut (Some QueueFull), xs))"
| "fifo_step cap QGet [] = (RGet (Inl QueueNull), [])"
| "fifo_step cap QGet (x # xs) = (RGet (Inr x), xs)"
| "fifo_step cap QLen xs = (RLen (int (length xs)), xs)"
| "fifo_step cap QList xs = (RList xs, xs)"

fun fifo_run :: "nat \<Rightarrow> 'a queue_op list \<Rightarrow> 'a list \<Rightarrow> 'a queue_res list \<times> 'a list" where
  "fifo_run cap [] xs = ([], xs)"
| "fifo_run cap (p # ops) xs = (case fifo_step cap p xs of (x, xs') \<Rightarrow>
     case fifo_run cap ops xs' of (rs, xs'') \<Rightarrow> (x # rs, xs''))"

text \<open>The code's operations, run one after the other; \<open>None\<close> is a call that does not return.\<close>

fun queue_step :: "'a queue_op \<Rightarrow> 'a ring_queue \<Rightarrow> ('a queue_res \<times> 'a ring_queue) run option" where
  "queue_step (QPut v) q = Some (Ret (case Put v q of (e, q') \<Rightarrow> (RPut e, q')))"
| "queue_step QGet q = Some (map_run (\<lambda>(x, q'). (RGet x, q')) (Get q))"
| "queue_step QLen q = Some (Ret (RLen (Len q), q))"
| "queue_step QList q = map_option (map_run (\<lambda>xs. (RList xs, q))) (List q)"

fun run_steps ::
  "('o \<Rightarrow> 'q \<Rightarrow> ('x \<times> 'q) run option) \<Rightarrow> 'o list \<Rightarrow> 'q \<Rightarrow> ('x list \<times> 'q) run option" where
  "run_steps step [] q = Some (Ret ([], q))"
| "run_steps step (p # ops) q =
     (case step p q of None \<Rightarrow> None | Some Panic \<Rightarrow> Some Panic
      | Some (Ret (x, q')) \<Rightarrow> map_option (map_run (\<lambda>(xs, q''). (x # xs, q''))) (run_steps step ops q'))"

text \<open>
  A client of a queue relies on no more than this: from a good state each operation answers and
  changes the contents as the list does, and the state stays good.
\<close>

locale bounded_fifo =
  fixes step :: "'a queue_op \<Rightarrow> 'q \<Rightarrow> ('a queue_res \<times> 'q) run option"
    and inv :: "'q \<Rightarrow> bool" and contents :: "'q \<Rightarrow> 'a list" and cap :: "'q \<Rightarrow> nat"
  assumes step_refines: "inv q \<Longrightarrow> \<exists>x q'. step p q = Some (Ret (x, q')) \<and> inv q' \<and> cap q' = cap q \<and>
      fifo_step (cap q) p (contents q) = (x, contents q')"
    and contents_bound: "inv q \<Longrightarrow> length (contents q) \<le> cap q"
begin

lemma run_refines:
  "inv q \<Longrightarrow> \<exists>xs q'. run_steps step ops q = Some (Ret (xs, q')) \<and> inv q' \<and> cap q' = cap q \<and>
     fifo_run (cap q) ops (contents q) = (xs, contents q')"
proof (induction ops arbitrary: q)
  case (Cons p ops)
  obtain x q1 where one: "step p q = Some (Ret (x, q1))" "inv q1" "cap q1 = cap q"
    "fifo_step (cap q) p (contents q) = (x, contents q1)"
    using step_refines [OF Cons.prems] by blast
  obtain xs q2 where "run_steps step ops q1 = Some (Ret (xs, q2))" "inv q2" "cap q2 = cap q1"
    "fifo_run (cap q1) ops (contents q1) = (xs, contents q2)"
    using Cons.IH [OF one(2)] by blast
  with one show ?case by simp
qed simp

lemma run_never_fails: "inv q \<Longrightarrow> \<exists>z. run_steps step ops q = Some (Ret z)"
  using run_refines by blast

end

lemma items_length: "queue_inv q \<Longrightarrow> int (length (items q)) = Len q"
  by (simp add: items_def length_live_nodes)

lemma capacity_bound: "queue_inv q \<Longrightarrow> length (items q) \<le> capacity q"
  using items_length [of q] by (auto simp: capacity_def Len_def queue_inv_def split: if_splits)

lemma queue_step_refines:
  assumes inv: "queue_inv q"
  shows "\<exists>x q'. queue_step p q = Some (Ret (x, q')) \<and> queue_inv q' \<and> capacity q' = capacity q \<and>
    fifo_step (capacity q) p (items q) = (x, items q')"
proof (cases p)
  case (QPut v)
  show ?thesis
  proof (cases "full q")
    case True
    then have "length (items q) = capacity q" using full_iff [OF inv] by (simp add: items_def)
    with True QPut inv show ?thesis by (simp add: Put_full)
  next
    case False
    then have "length (items q) < capacity q"
      using full_iff [OF inv] capacity_bound [OF inv] by (simp add: items_def)
    with QPut show ?thesis
      by (rule_tac Put_room [OF inv False, of v]) (auto simp: capacity_def)
  qed
next
  case QGet
  show ?thesis
  proof (cases "live_nodes q = []")
    case True
    then show ?thesis using QGet inv empty_iff [OF inv] by (simp add: Get_empty items_def)
  next
    case False
    obtain q' where q': "Get q = Ret (Inr (hd (items q)), q')" "queue_inv q'"
      "items q' = tl (items q)" "max' q' = max' q"
      by (rule Get_item [OF inv False])
    moreover from False obtain x xs where "items q = x # xs"
      by (cases "live_nodes q") (auto simp: items_def)
    ultimately show ?thesis using QGet by (simp add: capacity_def)
  qed
qed (use inv in \<open>simp_all add: items_length List_items\<close>)

interpretation rq: bounded_fifo queue_step queue_inv items capacity
  by unfold_locales (rule queue_step_refines capacity_bound; assumption)+

lemma NewRingQueue_items: "items (NewRingQueue n) = []" "capacity (NewRingQueue n) = n"
  by (simp_all add: items_def NewRingQueue_inv) (simp add: NewRingQueue_def capacity_def split: prod.split)

text \<open>
  C1: Any sequence of \<open>Put\<close>, \<open>Get\<close>, \<open>Len\<close> and \<open>List\<close> calls on a fresh \<open>NewRingQueue(n)\<close>
  returns, never panics, and answers exactly as a first-in first-out list of capacity \<open>n\<close> does:
  \<open>QueueFull\<close> on the \<open>n\<close>-th unserved item, \<open>QueueNull\<close> on an empty queue, items in order.
\<close>

theorem ring_queue_is_bounded_fifo:
  "\<exists>q'. run_steps queue_step ops (NewRingQueue n) = Some (Ret (fst (fifo_run n ops []), q')) \<and>
     queue_inv q' \<and> items q' = snd (fifo_run n ops [])"
  using rq.run_refines [OF NewRingQueue_inv(1), of ops n] by (auto simp: NewRingQueue_items)

text \<open>
  C2: \<open>Remove(f)\<close> on a well-formed queue keeps exactly the items \<open>f\<close> rejects, in their order, and
  leaves a well-formed queue of the same capacity, provided the item stored in the node that the
  struct field \<open>r\<close> points to is not one of the removed ones.
\<close>

theorem Remove_filters:
  assumes "queue_inv q" and "r q \<in> set (live_nodes q) \<Longrightarrow> \<not> f (item q (r q))"
  shows "\<exists>q'. Remove f q = Some (Ret q') \<and> queue_inv q' \<and>
    items q' = filter (\<lambda>v. \<not> f v) (items q) \<and> capacity q' = capacity q"
  using Remove_items [of q f] assms by (metis capacity_def)

definition demo_queue :: "nat ring_queue" where
  "demo_queue = snd (Put 3 (snd (Put 2 (snd (Put 1 (NewRingQueue 4))))))"

lemma demo_queue_inv: "queue_inv demo_queue" "items demo_queue = [1, 2, 3]"
  "r demo_queue \<in> set (live_nodes demo_queue)" "item demo_queue (r demo_queue) = 1"
  by code_simp+

theorem Remove_filters_witness:
  "\<exists>q'. Remove (\<lambda>v. v = 2) demo_queue = Some (Ret q') \<and> queue_inv q' \<and> items q' = [1, 3]"
  using Remove_filters [of demo_queue "\<lambda>v. v = 2"] demo_queue_inv by auto

text \<open>
  C3: When \<open>Remove\<close> deletes the item in the node \<open>r\<close> points to, the ring collapses to that one
  node: \<open>List\<close> then reports an empty queue while \<open>Len\<close> still counts the other items.
\<close>

theorem Remove_root_loses_items:
  assumes "queue_inv q" and "r q \<in> set (live_nodes q)" and "f (item q (r q))"
    and "\<And>a. a \<in> set (live_nodes q) \<Longrightarrow> a \<noteq> r q \<Longrightarrow> \<not> f (item q a)"
  shows "\<exists>q'. Remove f q = Some (Ret q') \<and> Len q' = Len q - 1 \<and> List q' = Some (Ret []) \<and>
    (\<forall>i. node_at q' i = r q)"
proof -
  obtain q' where q': "Remove f q = Some (Ret q')" "Len q' = Len q - 1" "\<And>i. node_at q' i = r q"
    using Remove_root_collapses [of q f] assms by metis
  then have "List q' = Some (Ret [])"
    by (simp add: List_def do_loop.simps)
  with q' show ?thesis by simp
qed

theorem Remove_root_loses_items_witness:
  "\<exists>q'. Remove (\<lambda>v. v = 1) demo_queue = Some (Ret q') \<and> Len q' = 2 \<and> List q' = Some (Ret [])"
proof -
  have "\<forall>a\<in>set (live_nodes demo_queue). a \<noteq> r demo_queue \<longrightarrow> item demo_queue a \<noteq> 1"
    by code_simp
  moreover have "Len demo_queue = 3"
    by code_simp
  ultimately show ?thesis
    using Remove_root_loses_items [of demo_queue "\<lambda>v. v = 1"] demo_queue_inv by auto
qed

end
