(* ===== verification/Queue_Race.thy ===== *)
theory Queue_Race
  imports Ring_Queue
begin

text \<open>
  The unlocked test of \<open>RingQueue.Get\<close> (\<open>wrapper/queue.go\<close>): \<open>Get\<close> compares \<open>start\<close> and
  \<open>end\<close> before it takes the mutex, and does not repeat the test once it holds it. Goroutines are
  numbered; a step is one goroutine doing one such atomic piece of a call.
\<close>

datatype 'a pc = Idle | Checked | Crashed

record 'a race =
  queue :: "'a ring_queue"
  pcs :: "nat \<Rightarrow> 'a pc"

text \<open>\<open>C\<close> are the goroutines that call \<open>Get\<close>; any goroutine may call \<open>Put\<close>.\<close>

inductive race_step :: "nat set \<Rightarrow> 'a race \<Rightarrow> 'a race \<Rightarrow> bool" for C where
  put: "race_step C s (s\<lparr>queue := snd (Put v (queue s))\<rparr>)"
| check_empty: "i \<in> C \<Longrightarrow> pcs s i = Idle \<Longrightarrow> start (queue s) = end' (queue s) \<Longrightarrow> race_step C s s"
| check_item: "i \<in> C \<Longrightarrow> pcs s i = Idle \<Longrightarrow> start (queue s) \<noteq> end' (queue s) \<Longrightarrow>
    race_step C s (s\<lparr>pcs := (pcs s)(i := Checked)\<rparr>)"
| take_item: "i \<in> C \<Longrightarrow> pcs s i = Checked \<Longrightarrow> get_locked (queue s) = Ret (v, q') \<Longrightarrow>
    race_step C s (s\<lparr>queue := q', pcs := (pcs s)(i := Idle)\<rparr>)"
| take_crash: "i \<in> C \<Longrightarrow> pcs s i = Checked \<Longrightarrow> get_locked (queue s) = Panic \<Longrightarrow>
    race_step C s (s\<lparr>pcs := (pcs s)(i := Crashed)\<rparr>)"

definition race_init :: "nat \<Rightarrow> 'a race" where
  "race_init n = \<lparr>queue = NewRingQueue n, pcs = (\<lambda>_. Idle)\<rparr>"

inductive race_reach :: "nat set \<Rightarrow> nat \<Rightarrow> 'a race \<Rightarrow> bool" for C n where
  start: "race_reach C n (race_init n)"
| step: "race_reach C n s \<Longrightarrow> race_step C s t \<Longrightarrow> race_reach C n t"

inductive_cases race_stepE: "race_step C s t"

section \<open>One consumer\<close>

definition single_inv :: "nat \<Rightarrow> 'a race \<Rightarrow> bool" where
  "single_inv c s \<longleftrightarrow> queue_inv (queue s) \<and> pcs s c \<noteq> Crashed \<and>
     (\<forall>i. i \<noteq> c \<longrightarrow> pcs s i = Idle) \<and> (pcs s c = Checked \<longrightarrow> live_nodes (queue s) \<noteq> [])"

lemma Put_keeps:
  assumes "queue_inv q"
  shows "queue_inv (snd (Put v q))" and "live_nodes q \<noteq> [] \<Longrightarrow> live_nodes (snd (Put v q)) \<noteq> []"
proof -
  have "queue_inv (snd (Put v q)) \<and> (live_nodes q \<noteq> [] \<longrightarrow> live_nodes (snd (Put v q)) \<noteq> [])"
  proof (cases "full q")
    case False
    obtain q' where "Put v q = (None, q')" "queue_inv q'" "items q' = items q @ [v]"
      by (rule Put_room [OF assms False])
    then show ?thesis by (auto simp: items_def)
  qed (use assms in \<open>simp add: Put_full\<close>)
  then show "queue_inv (snd (Put v q))" "live_nodes q \<noteq> [] \<Longrightarrow> live_nodes (snd (Put v q)) \<noteq> []"
    by auto
qed

lemma get_locked_item:
  assumes "queue_inv q" "live_nodes q \<noteq> []"
  obtains v q' where "get_locked q = Ret (v, q')" "queue_inv q'"
proof -
  obtain q' where "Get q = Ret (Inr (hd (items q)), q')" "queue_inv q'"
    by (rule Get_item [OF assms])
  then show ?thesis
    using that by (cases "get_locked q") (auto simp: Get_def split: if_splits)
qed

lemma single_inv_step: "race_step {c} s t \<Longrightarrow> single_inv c s \<Longrightarrow> single_inv c t"
proof (induction rule: race_step.induct)
  case (put s v)
  then show ?case by (auto simp: single_inv_def Put_keeps)
next
  case (check_item i s)
  then show ?case by (auto simp: single_inv_def empty_iff)
next
  case (take_item i s v q')
  then have "queue_inv (queue s)" "live_nodes (queue s) \<noteq> []"
    by (auto simp: single_inv_def)
  then obtain v2 q2 where "get_locked (queue s) = Ret (v2, q2)" "queue_inv q2"
    by (rule get_locked_item)
  with take_item show ?case by (auto simp: single_inv_def)
next
  case (take_crash i s)
  then have "queue_inv (queue s)" "live_nodes (queue s) \<noteq> []"
    by (auto simp: single_inv_def)
  then obtain v2 q2 where "get_locked (queue s) = Ret (v2, q2)"
    by (rule get_locked_item)
  with take_crash show ?case by simp
qed simp

lemma single_inv_init: "single_inv c (race_init n)"
  by (simp add: single_inv_def race_init_def NewRingQueue_inv)

lemma single_inv_reach: "race_reach {c} n s \<Longrightarrow> single_inv c s"
  by (induction rule: race_reach.induct) (auto intro: single_inv_init single_inv_step)



section \<open>Two consumers\<close>

definition one_item :: "nat ring_queue" where
  "one_item = snd (Put 7 (NewRingQueue 2))"

lemma one_item_eval:
  "start one_item \<noteq> end' one_item"
  "\<exists>q'. get_locked one_item = Ret (7, q') \<and> get_locked q' = Panic"
proof -
  show "start one_item \<noteq> end' one_item" by code_simp
  have "(case get_locked one_item of Panic \<Rightarrow> False | Ret (v, q') \<Rightarrow>
      v = 7 \<and> (case get_locked q' of Panic \<Rightarrow> True | Ret _ \<Rightarrow> False))"
    by code_simp
  then obtain q' where q': "get_locked one_item = Ret (7, q')"
      "case get_locked q' of Panic \<Rightarrow> True | Ret _ \<Rightarrow> False"
    by (cases "get_locked one_item") auto
  then have "get_locked q' = Panic" by (cases "get_locked q'") auto
  with q'(1) show "\<exists>q'. get_locked one_item = Ret (7, q') \<and> get_locked q' = Panic"
    by blast
qed

text \<open>
  With two goroutines calling \<open>Get\<close> there is an interleaving in which one of them panics:
  both see the same single item, one takes it, and the other asserts the type of a nil value.
\<close>

theorem two_consumers_can_panic:
  "\<exists>s. race_reach {0, 1} 2 (s :: nat race) \<and> pcs s 1 = Crashed"
proof -
  obtain q' where q': "get_locked one_item = Ret (7, q')" "get_locked q' = Panic"
    using one_item_eval(2) by blast
  let ?s1 = "\<lparr>queue = one_item, pcs = (\<lambda>_. Idle)\<rparr> :: nat race"
  let ?s2 = "?s1\<lparr>pcs := (pcs ?s1)(0 := Checked)\<rparr>"
  let ?s3 = "?s2\<lparr>pcs := (pcs ?s2)(1 := Checked)\<rparr>"
  let ?s4 = "?s3\<lparr>queue := q', pcs := (pcs ?s3)(0 := Idle)\<rparr>"
  let ?s5 = "?s4\<lparr>pcs := (pcs ?s4)(1 := Crashed)\<rparr>"
  have "race_step {0, 1} (race_init 2) ?s1"
    using race_step.put [of "{0, 1}" "race_init 2 :: nat race" 7] by (simp add: race_init_def one_item_def)
  then have "race_reach {0, 1} 2 ?s1" by (rule race_reach.step [OF race_reach.start])
  then have "race_reach {0, 1} 2 ?s2"
    by (rule race_reach.step, intro race_step.check_item) (use one_item_eval in auto)
  then have "race_reach {0, 1} 2 ?s3"
    by (rule race_reach.step, intro race_step.check_item) (use one_item_eval in auto)
  then have "race_reach {0, 1} 2 ?s4"
    by (rule race_reach.step, intro race_step.take_item) (use q' in auto)
  then have "race_reach {0, 1} 2 ?s5"
    by (rule race_reach.step, intro race_step.take_crash) (use q' in auto)
  then show ?thesis by (intro exI [of _ ?s5]) simp
qed

end
