(* ===== verification/Buffers.thy ===== *)
theory Buffers
  imports Prelude
begin

text \<open>
  \<open>buffer/limit.go\<close> and \<open>buffer/pre_reader.go\<close>. An \<open>io.Writer\<close> or \<open>io.Reader\<close> is a
  function on the state of the stream it stands for; the two locales below are the parts of Go's
  \<open>io\<close> contracts the code relies on. Error values other than \<open>io.EOF\<close> are of an arbitrary type.
\<close>

datatype 'e io_error = EOF | IOError 'e

section \<open>Writers and LimitedWriter\<close>

type_synonym ('w, 'e) writer = "'w \<Rightarrow> bytes \<Rightarrow> int \<times> 'e io_error option \<times> 'w"

record 'w limited_writer =
  W :: 'w
  N :: int
  MaxN :: int
  ignoreError :: bool

definition LimitWriterIgnoreError :: "'w limited_writer \<Rightarrow> 'w limited_writer" where
  "LimitWriterIgnoreError lw = lw\<lparr>ignoreError := True\<rparr>"

definition LimitWriter ::
  "'w \<Rightarrow> int \<Rightarrow> ('w limited_writer \<Rightarrow> 'w limited_writer) list \<Rightarrow> 'w limited_writer" where
  "LimitWriter w n options =
     fold (\<lambda>option lw. option lw) options \<lparr>W = w, N = n, MaxN = n, ignoreError = False\<rparr>"

definition lw_Write ::
  "('w, 'e) writer \<Rightarrow> 'w limited_writer \<Rightarrow> bytes \<Rightarrow> int \<times> 'e io_error option \<times> 'w limited_writer" where
  "lw_Write wr l p =
     (let c = int (length p);
          (n, err, l') =
            (if N l \<le> 0 then (0, Some EOF, l)
             else let p' = (if int (length p) > N l then take (nat (N l)) p else p);
                      (n, err, w) = wr (W l) p'
                  in (n, err, l\<lparr>W := w, N := N l - n\<rparr>))
      in if ignoreError l then (c, None, l') else (n, err, l'))"

text \<open>
  What \<open>io.Writer\<close> documents of the count it returns: between 0 and the length of the argument,
  and that many bytes of it have been written. The bytes written so far are \<open>sink w\<close>.
\<close>

locale counting_writer =
  fixes wr :: "('w, 'e) writer" and sink :: "'w \<Rightarrow> bytes" and good :: "'w \<Rightarrow> bool"
  assumes write_counts: "good w \<Longrightarrow> wr w p = (n, err, w') \<Longrightarrow>
      0 \<le> n \<and> n \<le> int (length p) \<and> sink w' = sink w @ take (nat n) p \<and> good w'"
begin

lemma lw_Write_counts:
  assumes "good (W l)" "lw_Write wr l p = (n, err, l')"
  shows "\<exists>m. 0 \<le> m \<and> m \<le> int (length p) \<and> m \<le> max 0 (N l) \<and> N l' = N l - m \<and>
    sink (W l') = sink (W l) @ take (nat m) p \<and> good (W l') \<and> MaxN l' = MaxN l \<and>
    ignoreError l' = ignoreError l \<and> n = (if ignoreError l then int (length p) else m)"
proof (cases "N l \<le> 0")
  case True
  with assms show ?thesis
    by (intro exI [of _ 0]) (auto simp: lw_Write_def Let_def split: if_splits)
next
  case False
  define p' where "p' = (if int (length p) > N l then take (nat (N l)) p else p)"
  obtain m e w where w: "wr (W l) p' = (m, e, w)" by (cases "wr (W l) p'") auto
  from write_counts [OF assms(1) w] have m: "0 \<le> m" "m \<le> int (length p')"
    "sink w = sink (W l) @ take (nat m) p'" "good w" by auto
  have "l' = l\<lparr>W := w, N := N l - m\<rparr>" "n = (if ignoreError l then int (length p) else m)"
    using assms(2) False w by (auto simp: lw_Write_def Let_def p'_def split: if_splits)
  moreover have "take (nat m) p' = take (nat m) p"
    using m(2) by (auto simp: p'_def min_def split: if_splits)
  ultimately show ?thesis
    using m False by (intro exI [of _ m]) (auto simp: p'_def split: if_splits)
qed

text \<open>The bytes that pass are counted by \<open>N\<close> and never exceed the limit.\<close>

definition within_limit :: "bytes \<Rightarrow> 'w limited_writer \<Rightarrow> bool" where
  "within_limit s l \<longleftrightarrow> good (W l) \<and> (\<exists>t. sink (W l) = s @ t \<and> int (length t) = MaxN l - N l \<and>
     (0 \<le> MaxN l \<longrightarrow> 0 \<le> N l) \<and> (MaxN l < 0 \<longrightarrow> t = []))"

lemma within_limit_Write:
  assumes "within_limit s l" "lw_Write wr l p = (n, err, l')"
  shows "within_limit s l'"
proof -
  from assms(1) obtain t where t: "good (W l)" "sink (W l) = s @ t" "int (length t) = MaxN l - N l"
    "0 \<le> MaxN l \<longrightarrow> 0 \<le> N l" "MaxN l < 0 \<longrightarrow> t = []"
    by (auto simp: within_limit_def)
  from lw_Write_counts [OF t(1) assms(2)] obtain m where m: "0 \<le> m" "m \<le> int (length p)"
    "m \<le> max 0 (N l)" "N l' = N l - m" "sink (W l') = sink (W l) @ take (nat m) p" "good (W l')"
    "MaxN l' = MaxN l" by blast
  have neg: "m = 0" if "MaxN l < 0" using that t m by auto
  show ?thesis
    unfolding within_limit_def
    by (intro conjI exI [of _ "t @ take (nat m) p"]) (use t m neg in \<open>auto simp: max_def split: if_splits\<close>)
qed

end

text \<open>A writer that takes everything, as \<open>bytes.Buffer\<close> does.\<close>

locale complete_writer = counting_writer +
  assumes write_all: "good w \<Longrightarrow> \<exists>w'. wr w p = (int (length p), None, w')"
begin

lemma lw_Write_complete:
  assumes "good (W l)"
  shows "\<exists>w' n err. lw_Write wr l p = (n, err, l\<lparr>W := w', N := N l - int (min (length p) (nat (N l)))\<rparr>) \<and>
    good w' \<and> sink w' = sink (W l) @ take (nat (N l)) p \<and>
    n = (if ignoreError l then int (length p) else int (min (length p) (nat (N l)))) \<and>
    (err = None \<longleftrightarrow> ignoreError l \<or> 0 < N l)"
proof (cases "0 < N l")
  case False
  with assms show ?thesis
    by (intro exI [of _ "W l"]) (simp add: lw_Write_def Let_def)
next
  case True
  define p' where "p' = take (nat (N l)) p"
  obtain w where w: "wr (W l) p' = (int (length p'), None, w)"
    using write_all [OF assms] by blast
  have p': "(if int (length p) > N l then take (nat (N l)) p else p) = p'"
    using True by (auto simp: p'_def)
  from write_counts [OF assms w] have "sink w = sink (W l) @ p'" "good w" by auto
  then show ?thesis
    using assms w True by (auto simp: lw_Write_def Let_def p' p'_def min.commute)
qed

end

text \<open>\<open>bytes.Buffer\<close>.\<close>

definition buffer_Write :: "(bytes, 'e) writer" where
  "buffer_Write w p = (int (length p), None, w @ p)"

interpretation bytes_buffer: complete_writer buffer_Write "\<lambda>w. w" "\<lambda>_. True"
  by unfold_locales (auto simp: buffer_Write_def)

text \<open>A \<open>LimitedWriter\<close> that reports its errors is itself a counting writer, so limits stack.\<close>

interpretation limited_buffer: counting_writer "lw_Write buffer_Write" W "\<lambda>l. \<not> ignoreError l"
  by unfold_locales (use bytes_buffer.lw_Write_counts in fastforce)

fun write_all_to :: "('w, 'e) writer \<Rightarrow> 'w \<Rightarrow> bytes list \<Rightarrow> (int \<times> 'e io_error option) list \<times> 'w" where
  "write_all_to wr w [] = ([], w)"
| "write_all_to wr w (p # ps) = (case wr w p of (n, err, w') \<Rightarrow>
     case write_all_to wr w' ps of (rs, w'') \<Rightarrow> ((n, err) # rs, w''))"

lemma take_nat_diff_append:
  "take (nat n) p @ take (nat (n - int (min (length p) (nat n)))) q = take (nat n) (p @ q)"
proof (cases "length p \<le> nat n")
  case True
  then have "nat (n - int (length p)) = nat n - length p" by (simp add: nat_diff_distrib')
  with True show ?thesis by (simp add: min_absorb1)
next
  case False
  then have "n - int (min (length p) (nat n)) \<le> 0" by (auto simp: min_def)
  with False show ?thesis by simp
qed

lemma lw_write_all:
  "\<exists>l' rs. write_all_to (lw_Write (buffer_Write :: (bytes, 'e) writer)) l ps = (rs, l') \<and>
     W l' = W l @ take (nat (N l)) (concat ps) \<and>
     (ignoreError l \<longrightarrow> rs = map (\<lambda>p. (int (length p), None)) ps)"
proof (induction ps arbitrary: l)
  case (Cons p ps)
  let ?w = "buffer_Write :: (bytes, 'e) writer"
  obtain w' n err where one: "lw_Write ?w l p =
      (n, err, l\<lparr>W := w', N := N l - int (min (length p) (nat (N l)))\<rparr>)"
    "w' = W l @ take (nat (N l)) p"
    "n = (if ignoreError l then int (length p) else int (min (length p) (nat (N l))))"
    "err = None \<longleftrightarrow> ignoreError l \<or> 0 < N l"
    using bytes_buffer.lw_Write_complete [of l p] by blast
  let ?l = "l\<lparr>W := w', N := N l - int (min (length p) (nat (N l)))\<rparr>"
  obtain l' rs where rest: "write_all_to (lw_Write ?w) ?l ps = (rs, l')"
    "W l' = W ?l @ take (nat (N ?l)) (concat ps)"
    "ignoreError ?l \<longrightarrow> rs = map (\<lambda>p. (int (length p), None)) ps"
    using Cons.IH [of ?l] by blast
  show ?case
    using one rest take_nat_diff_append [of "N l" p "concat ps"] by auto
qed simp

lemma LimitWriter_fields:
  "W (LimitWriter w n (replicate k LimitWriterIgnoreError)) = w \<and>
   N (LimitWriter w n (replicate k LimitWriterIgnoreError)) = n \<and>
   (ignoreError (LimitWriter w n (replicate k LimitWriterIgnoreError)) \<longleftrightarrow> 0 < k)"
proof -
  have "fold (\<lambda>option lw. option lw) (replicate k LimitWriterIgnoreError) lw =
      (if k = 0 then lw else lw\<lparr>ignoreError := True\<rparr>)" for lw :: "'a limited_writer"
    by (induction k arbitrary: lw) (auto simp: LimitWriterIgnoreError_def)
  then show ?thesis by (simp add: LimitWriter_def)
qed

text \<open>
  Whatever is written, in whatever pieces, exactly the first \<open>n\<close> bytes reach a writer that takes
  everything; when \<open>LimitWriterIgnoreError\<close> is among the options (\<open>k\<close> times), every call reports
  complete success.
\<close>

theorem LimitWriter_passes_prefix:
  "\<exists>l' rs. write_all_to (lw_Write (buffer_Write :: (bytes, 'e) writer))
       (LimitWriter w n (replicate k LimitWriterIgnoreError)) ps = (rs, l') \<and>
     W l' = w @ take (nat n) (concat ps) \<and>
     (k = 0 \<or> rs = map (\<lambda>p. (int (length p), None)) ps)"
  using lw_write_all [of "LimitWriter w n (replicate k LimitWriterIgnoreError)" ps]
    LimitWriter_fields [of w n k] by auto

section \<open>Readers and PreReader\<close>

text \<open>A read of at most \<open>k\<close> bytes returns the bytes, an error and the state after the call.\<close>

type_synonym ('r, 'e) reader = "'r \<Rightarrow> nat \<Rightarrow> bytes \<times> 'e io_error option \<times> 'r"

record 'r pre_reader =
  rd :: 'r
  buf :: bytes
  bufIdx :: int
  maxLen :: int

definition pr_Buffer :: "'r pre_reader \<Rightarrow> bytes" where
  "pr_Buffer r = buf r"

definition pr_String :: "'r pre_reader \<Rightarrow> string" where
  "pr_String r = string_of (buf r)"

definition pr_Close :: "('r \<Rightarrow> 'e option \<times> 'r) \<Rightarrow> 'r pre_reader \<Rightarrow> 'e option \<times> 'r pre_reader" where
  "pr_Close close r = (let r1 = r\<lparr>buf := [], bufIdx := 0, maxLen := 0\<rparr>; (err, c) = close (rd r1)
     in (err, r1\<lparr>rd := c\<rparr>))"

definition pr_Read :: "('r, 'e) reader \<Rightarrow> ('r pre_reader, 'e) reader" where
  "pr_Read read r k =
     (if bufIdx r \<ge> maxLen r then (case read (rd r) k of (d, err, c) \<Rightarrow> (d, err, r\<lparr>rd := c\<rparr>))
      else if int (length (buf r)) \<le> bufIdx r then ([], Some EOF, r)
      else let d = take k (drop (nat (bufIdx r)) (buf r))
           in (d, None, r\<lparr>bufIdx := bufIdx r + int (length d)\<rparr>))"

text \<open>The filling loop; \<open>None\<close> is a reader that returns no bytes and no error for ever.\<close>

partial_function (option) fill ::
  "('r, 'e) reader \<Rightarrow> 'r pre_reader \<Rightarrow> int \<Rightarrow> ('r pre_reader \<times> 'e io_error option) option" where
  "fill read r i =
     (if i < maxLen r then
        case read (rd r) (nat (maxLen r - i)) of (d, err, c) \<Rightarrow>
          let r1 = r\<lparr>rd := c\<rparr> in
          if d \<noteq> [] then fill read (r1\<lparr>buf := buf r1 @ d\<rparr>) (i + int (length d))
          else if err = Some EOF then Some (r1, None)
          else if err \<noteq> None then Some (r1, err)
          else fill read r1 i
      else Some (r, None))"

declare fill.simps [code]

definition NewPreReader ::
  "('r, 'e) reader \<Rightarrow> 'r \<Rightarrow> int \<Rightarrow> ('r pre_reader \<times> 'e io_error option) option" where
  "NewPreReader read reader n = fill read \<lparr>rd = reader, buf = [], bufIdx = 0, maxLen = n\<rparr> 0"

text \<open>
  A reader of a finite stream: \<open>pending r\<close> are the bytes still to come. A read for at least one
  byte makes progress while there are any, and reports \<open>io.EOF\<close> once there are none.
\<close>

locale stream_reader =
  fixes read :: "('r, 'e) reader" and pending :: "'r \<Rightarrow> bytes" and ok :: "'r \<Rightarrow> bool"
  assumes read_stream: "ok r \<Longrightarrow> read r k = (d, err, r') \<Longrightarrow>
      pending r = d @ pending r' \<and> length d \<le> k \<and> ok r'"
    and read_progress: "ok r \<Longrightarrow> read r k = (d, err, r') \<Longrightarrow> 0 < k \<Longrightarrow> pending r \<noteq> [] \<Longrightarrow> d \<noteq> []"
    and read_error: "ok r \<Longrightarrow> read r k = (d, Some e, r') \<Longrightarrow> e = EOF \<and> pending r' = []"
    and read_end: "ok r \<Longrightarrow> read r k = (d, err, r') \<Longrightarrow> 0 < k \<Longrightarrow> pending r = [] \<Longrightarrow> err = Some EOF"
begin

lemma fill_prefix:
  assumes "ok (rd r)" "i = int (length (buf r))" "i \<le> maxLen r"
  shows "\<exists>c. ok c \<and> fill read r i =
      Some (r\<lparr>rd := c, buf := buf r @ take (nat (maxLen r - i)) (pending (rd r))\<rparr>, None) \<and>
      pending c = drop (nat (maxLen r - i)) (pending (rd r))"
  using assms
proof (induction "nat (maxLen r - i)" arbitrary: r i rule: less_induct)
  case less
  let ?k = "nat (maxLen r - i)"
  show ?case
  proof (cases "i < maxLen r")
    case False
    with less.prems show ?thesis
      by (intro exI [of _ "rd r"]) (auto simp: fill.simps)
  next
    case True
    obtain d err c where rd: "read (rd r) ?k = (d, err, c)"
      by (cases "read (rd r) ?k") auto
    note S = read_stream [OF less.prems(1) rd]
    show ?thesis
    proof (cases "pending (rd r) = []")
      case empty: True
      then have "d = []" "err = Some EOF" "pending c = []"
        using S read_end [OF less.prems(1) rd] True by auto
      with True rd empty S show ?thesis
        by (intro exI [of _ c]) (auto simp: fill.simps [of read r])
    next
      case False
      have d: "d \<noteq> []" using read_progress [OF less.prems(1) rd _ False] True by simp
      let ?r = "r\<lparr>rd := c, buf := buf r @ d\<rparr>"
      have step: "fill read r i = fill read ?r (i + int (length d))"
        using True rd d by (simp add: fill.simps [of read r])
      have len: "length d \<le> ?k" using S by simp
      have "\<exists>c'. ok c' \<and> fill read ?r (i + int (length d)) =
          Some (?r\<lparr>rd := c', buf := buf ?r @ take (nat (maxLen ?r - (i + int (length d)))) (pending (rd ?r))\<rparr>, None) \<and>
          pending c' = drop (nat (maxLen ?r - (i + int (length d)))) (pending (rd ?r))"
        using less.prems True d len S by (intro less.hyps) auto
      moreover have "nat (maxLen r - (i + int (length d))) = ?k - length d"
        by (simp add: nat_diff_distrib' algebra_simps)
      ultimately show ?thesis
        using S len by (auto simp: step)
    qed
  qed
qed

definition pr_pending :: "'r pre_reader \<Rightarrow> bytes" where
  "pr_pending r = drop (nat (bufIdx r)) (buf r) @ pending (rd r)"

definition pr_ok :: "'r pre_reader \<Rightarrow> bool" where
  "pr_ok r \<longleftrightarrow> ok (rd r) \<and> 0 \<le> bufIdx r \<and> bufIdx r \<le> int (length (buf r)) \<and>
     int (length (buf r)) \<le> maxLen r \<and> (int (length (buf r)) < maxLen r \<longrightarrow> pending (rd r) = [])"

lemma NewPreReader_ok:
  assumes "ok c" "0 \<le> n"
  shows "\<exists>r. NewPreReader read c n = Some (r, None) \<and> pr_ok r \<and> pr_pending r = pending c \<and>
    pr_Buffer r = take (nat n) (pending c)"
proof -
  let ?r = "\<lparr>rd = c, buf = [], bufIdx = 0, maxLen = n\<rparr>"
  obtain c' where c': "ok c'" "fill read ?r 0 = Some (?r\<lparr>rd := c', buf := take (nat n) (pending c)\<rparr>, None)"
    "pending c' = drop (nat n) (pending c)"
    using fill_prefix [of ?r 0] assms by auto
  then show ?thesis
    using assms by (auto simp: NewPreReader_def pr_ok_def pr_pending_def pr_Buffer_def min_def)
qed

lemma pr_Read_stream:
  assumes "pr_ok r" "pr_Read read r k = (d, err, r')"
  shows "pr_pending r = d @ pr_pending r' \<and> length d \<le> k \<and> pr_ok r'"
proof (cases "bufIdx r \<ge> maxLen r")
  case True
  then obtain c where c: "read (rd r) k = (d, err, c)" "r' = r\<lparr>rd := c\<rparr>"
    using assms(2) by (auto simp: pr_Read_def split: prod.splits)
  have "ok (rd r)" using assms(1) by (simp add: pr_ok_def)
  from read_stream [OF this c(1)] True assms(1) c(2) show ?thesis
    by (auto simp: pr_pending_def pr_ok_def)
next
  case False
  show ?thesis
  proof (cases "int (length (buf r)) \<le> bufIdx r")
    case True
    with False assms show ?thesis by (auto simp: pr_Read_def)
  next
    case room: False
    then have d: "d = take k (drop (nat (bufIdx r)) (buf r))" and r': "r' = r\<lparr>bufIdx := bufIdx r + int (length d)\<rparr>"
    using assms(2) False by (auto simp: pr_Read_def Let_def)
  have "length d \<le> k" "int (length d) \<le> int (length (buf r)) - bufIdx r"
    using room assms(1) by (auto simp: d pr_ok_def)
  moreover have "drop (nat (bufIdx r)) (buf r) = d @ drop (nat (bufIdx r) + length d) (buf r)"
    unfolding d by (rule drop_take_drop)
  ultimately show ?thesis
    using assms(1) by (auto simp: r' pr_pending_def pr_ok_def nat_add_distrib)
  qed
qed

lemma pr_Read_error:
  assumes "pr_ok r" "pr_Read read r k = (d, Some e, r')"
  shows "e = EOF \<and> pr_pending r' = []"
proof (cases "bufIdx r \<ge> maxLen r")
  case True
  then obtain c where c: "read (rd r) k = (d, Some e, c)" "r' = r\<lparr>rd := c\<rparr>"
    using assms(2) by (auto simp: pr_Read_def split: prod.splits)
  have "ok (rd r)" using assms(1) by (simp add: pr_ok_def)
  from read_error [OF this c(1)] True assms(1) c(2) show ?thesis
    by (auto simp: pr_pending_def pr_ok_def)
qed (use assms in \<open>auto simp: pr_Read_def pr_pending_def pr_ok_def Let_def split: if_splits\<close>)

lemma pr_Read_progress:
  assumes "pr_ok r" "pr_Read read r k = (d, err, r')" "0 < k"
  shows "(pr_pending r \<noteq> [] \<longrightarrow> d \<noteq> []) \<and> (pr_pending r = [] \<longrightarrow> err = Some EOF)"
proof (cases "bufIdx r \<ge> maxLen r")
  case True
  then obtain c where c: "read (rd r) k = (d, err, c)"
    using assms(2) by (auto simp: pr_Read_def split: prod.splits)
  have "ok (rd r)" "pr_pending r = pending (rd r)"
    using assms(1) True by (auto simp: pr_ok_def pr_pending_def)
  with read_progress [OF _ c] read_end [OF _ c] assms(3) show ?thesis by auto
next
  case False
  with assms show ?thesis
    by (auto simp: pr_Read_def pr_pending_def pr_ok_def Let_def split: if_splits)
qed

end

text \<open>\<open>io.ReadAll\<close> with a buffer of \<open>k\<close> bytes, as the decoders of the module drain a body.\<close>

partial_function (option) read_all ::
  "('r, 'e) reader \<Rightarrow> nat \<Rightarrow> 'r \<Rightarrow> bytes \<Rightarrow> (bytes \<times> 'e io_error) option" where
  "read_all read k r acc =
     (case read r k of (d, err, r') \<Rightarrow>
        (case err of None \<Rightarrow> read_all read k r' (acc @ d) | Some e \<Rightarrow> Some (acc @ d, e)))"

declare read_all.simps [code]

context stream_reader begin

lemma read_all_pending:
  assumes "ok r" "0 < k"
  shows "read_all read k r acc = Some (acc @ pending r, EOF)"
  using assms(1)
proof (induction "length (pending r)" arbitrary: r acc rule: less_induct)
  case less
  obtain d err r' where rd: "read r k = (d, err, r')" by (cases "read r k") auto
  note S = read_stream [OF less.prems rd]
  show ?case
  proof (cases err)
    case None
    then have "pending r \<noteq> []" using read_end [OF less.prems rd assms(2)] by auto
    then have "d \<noteq> []" using read_progress [OF less.prems rd assms(2)] by simp
    then have "read_all read k r' (acc @ d) = Some ((acc @ d) @ pending r', EOF)"
      using S by (intro less.hyps) auto
    then show ?thesis using rd None S by (simp add: read_all.simps [of read k r])
  next
    case (Some e)
    with read_error [OF less.prems] rd have "e = EOF" "pending r' = []" by auto
    with Some S rd show ?thesis by (simp add: read_all.simps [of read k r])
  qed
qed

end

text \<open>A response body arrives in non-empty chunks.\<close>

fun body_read :: "(bytes list, 'e) reader" where
  "body_read [] k = ([], Some EOF, [])"
| "body_read (c # cs) k = (take k c, None, if k < length c then drop k c # cs else cs)"

lemma body_read_simp:
  "body_read cs k = (d, err, cs') \<Longrightarrow> [] \<notin> set cs \<Longrightarrow>
    concat cs = d @ concat cs' \<and> length d \<le> k \<and> [] \<notin> set cs' \<and> (cs = [] \<longrightarrow> d = [] \<and> err = Some EOF) \<and>
    (0 < k \<longrightarrow> cs \<noteq> [] \<longrightarrow> d \<noteq> []) \<and> (cs \<noteq> [] \<longrightarrow> err = None)"
  by (cases cs) (auto split: if_splits)

interpretation body: stream_reader body_read concat "\<lambda>cs. [] \<notin> set cs"
proof unfold_locales
  fix cs :: "bytes list" and k d and err :: "'a io_error option" and cs'
  assume ok: "[] \<notin> set cs" and rd: "body_read cs k = (d, err, cs')"
  note S = body_read_simp [OF rd ok]
  show "concat cs = d @ concat cs' \<and> length d \<le> k \<and> [] \<notin> set cs'" using S by simp
  show "d \<noteq> []" if "0 < k" "concat cs \<noteq> []" using S that by auto
  show "err = Some EOF" if "0 < k" "concat cs = []" using S that ok by (cases cs) auto
next
  fix cs :: "bytes list" and k d and e :: "'a io_error" and cs'
  assume ok: "[] \<notin> set cs" and rd: "body_read cs k = (d, Some e, cs')"
  show "e = EOF \<and> concat cs' = []" using body_read_simp [OF rd ok] ok by (cases cs) auto
qed

interpretation pre_body: stream_reader "pr_Read body_read" body.pr_pending body.pr_ok
  by unfold_locales (use body.pr_Read_stream body.pr_Read_progress body.pr_Read_error in blast)+

text \<open>
  C8: \<open>NewPreReader\<close> on a body in non-empty chunks returns, without error, for every chunking;
  \<open>Buffer\<close> then holds the first \<open>n\<close> bytes, and reading the \<open>PreReader\<close> to its end in pieces of
  any size still yields the whole stream.
\<close>

theorem NewPreReader_transparent:
  assumes "[] \<notin> set chunks" and "0 \<le> n" and "0 < k"
  shows "\<exists>r. NewPreReader (body_read :: (bytes list, 'e) reader) chunks n = Some (r, None) \<and>
    pr_Buffer r = take (nat n) (concat chunks) \<and>
    read_all (pr_Read (body_read :: (bytes list, 'e) reader)) k r [] = Some (concat chunks, EOF)"
proof -
  obtain r where r: "NewPreReader (body_read :: (bytes list, 'e) reader) chunks n = Some (r, None)"
    "body.pr_ok r" "body.pr_pending r = concat chunks" "pr_Buffer r = take (nat n) (concat chunks)"
    using body.NewPreReader_ok [OF assms(1,2)] by blast
  with pre_body.read_all_pending [OF r(2) assms(3), of "[]"] show ?thesis by simp
qed

theorem NewPreReader_transparent_witness:
  "\<exists>r. NewPreReader (body_read :: (bytes list, unit) reader) [[1, 2], [3]] 2 = Some (r, None) \<and>
    pr_Buffer r = [1, 2] \<and>
    read_all (pr_Read (body_read :: (bytes list, unit) reader)) 1 r [] = Some ([1, 2, 3], EOF)"
  using NewPreReader_transparent [of "[[1, 2], [3]]" 2 1] by simp

end
