(* ===== verification/Sets.thy ===== *)
theory Sets
  imports Prelude "HOL-Library.Multiset"
begin

text \<open>
  \<open>sets/sets.go\<close> and \<open>sets/array.go\<close>. A \<open>Set\<close> is a Go map from items to the index they were
  inserted with; the map is an association list with distinct keys. Go leaves the order of a
  \<open>range\<close> over a map open and \<open>sort.Sort\<close> is not stable, so every method that ranges takes the
  order of that range as an argument \<open>ks\<close>: what holds for all of them holds for every run.
\<close>

section \<open>The map-backed Set\<close>

type_synonym 'a go_set = "('a \<times> int) list"

definition keys :: "'a go_set \<Rightarrow> 'a list" where
  "keys s = map fst s"

definition Has :: "'a go_set \<Rightarrow> 'a \<Rightarrow> bool" where
  "Has s item = (map_of s item \<noteq> None)"

definition set_Len :: "'a go_set \<Rightarrow> int" where
  "set_Len s = int (length s)"

definition insert_item :: "'a go_set \<Rightarrow> 'a \<Rightarrow> 'a go_set" where
  "insert_item s item = (if Has s item then s else s @ [(item, set_Len s)])"

definition Insert :: "'a go_set \<Rightarrow> 'a list \<Rightarrow> 'a go_set" where
  "Insert s items = foldl insert_item s items"

definition New :: "'a list \<Rightarrow> 'a go_set" where
  "New items = Insert [] items"

definition Delete :: "'a go_set \<Rightarrow> 'a list \<Rightarrow> 'a go_set" where
  "Delete s items = foldl (\<lambda>s item. filter (\<lambda>(k, i). k \<noteq> item) s) s items"

definition HasAll :: "'a go_set \<Rightarrow> 'a list \<Rightarrow> bool" where
  "HasAll s items = list_all (Has s) items"

definition HasAny :: "'a go_set \<Rightarrow> 'a list \<Rightarrow> bool" where
  "HasAny s items = list_ex (Has s) items"

text \<open>\<open>ks\<close> is a possible order of a \<open>range\<close> over \<open>s\<close>.\<close>

definition ranges :: "'a list \<Rightarrow> 'a go_set \<Rightarrow> bool" where
  "ranges ks s = (distinct ks \<and> set ks = set (keys s))"

definition set_List :: "'a list \<Rightarrow> 'a go_set \<Rightarrow> 'a list" where
  "set_List ks s =
     (let res = map (\<lambda>item. (the (map_of s item), item)) ks in map snd (sort_key fst res))"

definition SortedList :: "('a :: linorder) list \<Rightarrow> 'a go_set \<Rightarrow> 'a list" where
  "SortedList ks s = sort ks"

definition Clone :: "'a list \<Rightarrow> 'a go_set \<Rightarrow> 'a go_set" where
  "Clone ks s = New (set_List ks s)"

definition Difference :: "'a list \<Rightarrow> 'a go_set \<Rightarrow> 'a go_set \<Rightarrow> 'a go_set" where
  "Difference ks s s2 = foldl (\<lambda>result key. if \<not> Has s2 key then Insert result [key] else result) (New []) ks"

definition Union :: "'a list \<Rightarrow> 'a list \<Rightarrow> 'a go_set \<Rightarrow> 'a go_set \<Rightarrow> 'a go_set" where
  "Union ks ks2 s s2 =
     foldl (\<lambda>result key. Insert result [key])
       (foldl (\<lambda>result key. Insert result [key]) (New []) ks) ks2"

text \<open>The smaller of the two sets is walked: \<open>ks\<close> orders that one.\<close>

definition walk_of :: "'a go_set \<Rightarrow> 'a go_set \<Rightarrow> 'a go_set \<times> 'a go_set" where
  "walk_of s s2 = (if set_Len s < set_Len s2 then (s, s2) else (s2, s))"

definition Intersection :: "'a list \<Rightarrow> 'a go_set \<Rightarrow> 'a go_set \<Rightarrow> 'a go_set" where
  "Intersection ks s s2 = (case walk_of s s2 of (walk, other) \<Rightarrow>
     foldl (\<lambda>result key. if Has other key then Insert result [key] else result) (New []) ks)"

definition IsSuperset :: "'a list \<Rightarrow> 'a go_set \<Rightarrow> 'a go_set \<Rightarrow> bool" where
  "IsSuperset ks2 s s2 = list_all (Has s) ks2"

definition Equal :: "'a list \<Rightarrow> 'a go_set \<Rightarrow> 'a go_set \<Rightarrow> bool" where
  "Equal ks2 s s2 = (set_Len s = set_Len s2 \<and> IsSuperset ks2 s s2)"

definition PopAny :: "'a list \<Rightarrow> 'a \<Rightarrow> 'a go_set \<Rightarrow> 'a \<times> bool \<times> 'a go_set" where
  "PopAny ks zeroValue s = (case ks of
     [] \<Rightarrow> (zeroValue, False, s)
   | key # _ \<Rightarrow> (key, True, Delete s [key]))"

subsection \<open>Keys\<close>

lemma Has_iff [simp]: "Has s x \<longleftrightarrow> x \<in> set (keys s)"
  by (auto simp: Has_def keys_def map_of_eq_None_iff)

lemma keys_Nil [simp]: "keys [] = []"
  by (simp add: keys_def)

lemma keys_insert_item [simp]:
  "keys (insert_item s x) = (if x \<in> set (keys s) then keys s else keys s @ [x])"
  by (simp add: insert_item_def) (simp add: keys_def)

lemma Insert_simps [simp]:
  "Insert s [] = s"
  "Insert s (x # xs) = Insert (insert_item s x) xs"
  by (simp_all add: Insert_def)

lemma keys_Delete [simp]: "keys (Delete s xs) = filter (\<lambda>x. x \<notin> set xs) (keys s)"
proof -
  have one: "keys (filter (\<lambda>(k, i). k \<noteq> x) s) = filter (\<lambda>k. k \<noteq> x) (keys s)" for s :: "'a go_set" and x
    by (induction s) (auto simp: keys_def)
  have "keys (foldl (\<lambda>s item. filter (\<lambda>(k, i). k \<noteq> item) s) s xs) = filter (\<lambda>x. x \<notin> set xs) (keys s)"
    by (induction xs arbitrary: s) (auto simp: one intro!: filter_cong)
  then show ?thesis by (simp add: Delete_def)
qed

lemma length_keys [simp]: "length (keys s) = length s"
  by (simp add: keys_def)

section \<open>Stores that keep one copy of an item\<close>

text \<open>
  What \<open>Set\<close> and \<open>ArraySet\<close> share: adding an item that is present changes nothing, adding another
  one appends it while there is room (\<open>cap\<close> is the number of places, if it is bounded).
\<close>

definition room :: "nat option \<Rightarrow> nat \<Rightarrow> bool" where
  "room cap n = (case cap of None \<Rightarrow> True | Some c \<Rightarrow> n < c)"

definition clip :: "nat option \<Rightarrow> 'b list \<Rightarrow> 'b list" where
  "clip cap xs = (case cap of None \<Rightarrow> xs | Some c \<Rightarrow> take c xs)"

locale dedup_store =
  fixes add :: "'s \<Rightarrow> 'a \<Rightarrow> 's" and items :: "'s \<Rightarrow> 'a list" and ok :: "'s \<Rightarrow> bool"
    and storable :: "'a \<Rightarrow> bool" and cap :: "'s \<Rightarrow> nat option"
  assumes add_ok: "ok s \<Longrightarrow> storable x \<Longrightarrow> ok (add s x) \<and> cap (add s x) = cap s"
    and add_items: "ok s \<Longrightarrow> storable x \<Longrightarrow> items (add s x) =
      (if x \<in> set (items s) \<or> \<not> room (cap s) (length (items s)) then items s else items s @ [x])"
begin

lemma adds_items:
  assumes "ok s" "\<forall>x \<in> set xs. storable x" "items s = []"
  shows "items (foldl add s xs) = clip (cap s) (nub xs) \<and> ok (foldl add s xs) \<and> cap (foldl add s xs) = cap s"
  using assms(2)
proof (induction xs rule: rev_induct)
  case Nil
  then show ?case using assms by (simp add: clip_def split: option.split)
next
  case (snoc x xs)
  let ?s = "foldl add s xs"
  have IH: "items ?s = clip (cap s) (nub xs)" "ok ?s" "cap ?s = cap s" and x: "storable x"
    using snoc by auto
  have eq: "items (add ?s x) =
      (if x \<in> set (clip (cap s) (nub xs)) \<or> \<not> room (cap s) (length (clip (cap s) (nub xs)))
       then clip (cap s) (nub xs) else clip (cap s) (nub xs) @ [x])"
    using add_items [OF IH(2) x] IH by simp
  have "items (add ?s x) = clip (cap s) (nub (xs @ [x]))"
  proof (cases "cap s")
    case None
    then show ?thesis by (simp add: eq clip_def room_def nub_snoc)
  next
    case (Some c)
    show ?thesis
    proof (cases "length (nub xs) < c")
      case True
      then have "take c (nub xs) = nub xs" by simp
      with True show ?thesis by (simp add: eq Some clip_def room_def nub_snoc)
    next
      case False
      then show ?thesis by (simp add: eq Some clip_def room_def nub_snoc)
    qed
  qed
  with add_ok [OF IH(2) x] IH show ?case by simp
qed

end

text \<open>While nothing has been deleted the index of an item is its position.\<close>

definition in_order :: "'a go_set \<Rightarrow> bool" where
  "in_order s \<longleftrightarrow> distinct (keys s) \<and> map snd s = map int [0..<length s]"

lemma in_order_insert_item: "in_order s \<Longrightarrow> in_order (insert_item s x)"
  by (auto simp: in_order_def insert_item_def set_Len_def) (auto simp: keys_def)

interpretation go_set: dedup_store insert_item keys in_order "\<lambda>_. True" "\<lambda>_. None"
  by unfold_locales (auto simp: in_order_insert_item room_def)

lemma New_keys: "keys (New xs) = nub xs" and New_in_order: "in_order (New xs)"
  using go_set.adds_items [of "[]" xs] by (auto simp: New_def Insert_def clip_def in_order_def)

lemma sorted_key_unique:
  assumes "mset xs = mset ys" "sorted (map f xs)" "sorted (map f ys)" "inj_on f (set xs)"
  shows "xs = ys"
  by (metis assms properties_for_sort_key sort_key_inj_key_eq)

lemma set_List_in_order:
  assumes "in_order s" "ranges ks s"
  shows "set_List ks s = keys s"
proof -
  have d: "distinct (map fst s)" and snd: "map snd s = map int [0..<length s]"
    using assms(1) by (auto simp: in_order_def keys_def)
  let ?f = "\<lambda>item. (the (map_of s item), item)"
  let ?swap = "map (\<lambda>(k, i). (i, k)) s"
  have ksm: "mset ks = mset (keys s)"
    using assms by (metis ranges_def in_order_def set_eq_iff_mset_eq_distinct)
  have sw: "map ?f (keys s) = ?swap"
    using d by (auto simp: keys_def o_def map_of_eq_Some_iff intro!: map_cong)
  have m: "mset (map ?f ks) = mset ?swap"
    using ksm sw by (metis mset_map)
  have fst: "map fst ?swap = map int [0..<length s]"
    using snd by (simp add: o_def case_prod_beta)
  have "sorted (map fst ?swap)" "distinct (map fst ?swap)"
    unfolding fst by (auto simp: distinct_map inj_on_def sorted_map sorted_wrt_iff_nth_less)
  then have inj: "inj_on fst (set ?swap)" and sorted: "sorted (map fst ?swap)"
    using distinct_map [of fst ?swap] by blast+
  have "sort_key fst (map ?f ks) = ?swap"
  proof (rule sorted_key_unique [where f = fst])
    show "mset (sort_key fst (map ?f ks)) = mset ?swap" using m by simp
    show "inj_on fst (set (sort_key fst (map ?f ks)))" using m inj by (metis set_mset_mset set_sort)
  qed (use sorted in auto)
  then show ?thesis
    by (simp add: set_List_def Let_def keys_def o_def case_prod_beta)
qed
section \<open>The algebra of Set\<close>

text \<open>Every method keeps the keys distinct; \<open>foldl\<close> of guarded insertions adds the chosen keys.\<close>

definition go_map :: "'a go_set \<Rightarrow> bool" where
  "go_map s \<longleftrightarrow> distinct (keys s)"

lemma go_map_insert_item: "go_map s \<Longrightarrow> go_map (insert_item s x)"
  by (simp add: go_map_def)

lemma go_map_foldl_insert:
  "go_map s \<Longrightarrow> go_map (foldl (\<lambda>r k. if P k then Insert r [k] else r) s ks) \<and>
    set (keys (foldl (\<lambda>r k. if P k then Insert r [k] else r) s ks)) = set (keys s) \<union> {k \<in> set ks. P k}"
proof (induction ks arbitrary: s)
  case (Cons k ks)
  then show ?case
    using Cons.IH [of "insert_item s k"] Cons.IH [of s] by (auto simp: go_map_insert_item)
qed simp

lemma go_map_New [simp]: "go_map (New xs)" "set (keys (New xs)) = set xs"
  by (simp_all add: go_map_def New_keys)

lemma go_map_Insert: "go_map s \<Longrightarrow> go_map (Insert s xs)"
  by (induction xs arbitrary: s) (auto simp: go_map_insert_item)

lemma go_map_Delete: "go_map s \<Longrightarrow> go_map (Delete s xs)"
  by (simp add: go_map_def)

lemma Union_keys:
  "ranges ks s \<Longrightarrow> ranges ks2 s2 \<Longrightarrow>
    go_map (Union ks ks2 s s2) \<and> set (keys (Union ks ks2 s s2)) = set (keys s) \<union> set (keys s2)"
  using go_map_foldl_insert [of "New []" "\<lambda>_. True" ks]
    go_map_foldl_insert [of "foldl (\<lambda>r k. Insert r [k]) (New []) ks" "\<lambda>_. True" ks2]
  by (simp add: Union_def ranges_def)

lemma Difference_keys:
  "ranges ks s \<Longrightarrow>
    go_map (Difference ks s s2) \<and> set (keys (Difference ks s s2)) = set (keys s) - set (keys s2)"
  using go_map_foldl_insert [of "New []" "\<lambda>k. \<not> Has s2 k" ks]
  by (auto simp: Difference_def ranges_def)

lemma Intersection_keys:
  "ranges ks (fst (walk_of s s2)) \<Longrightarrow>
    go_map (Intersection ks s s2) \<and> set (keys (Intersection ks s s2)) = set (keys s) \<inter> set (keys s2)"
  using go_map_foldl_insert [of "New []" "Has (snd (walk_of s s2))" ks]
  by (auto simp: Intersection_def ranges_def walk_of_def split: if_splits)

lemma IsSuperset_keys: "ranges ks2 s2 \<Longrightarrow> IsSuperset ks2 s s2 \<longleftrightarrow> set (keys s2) \<subseteq> set (keys s)"
  by (auto simp: IsSuperset_def ranges_def list_all_iff)

lemma Equal_keys:
  assumes "go_map s" "go_map s2" "ranges ks2 s2"
  shows "Equal ks2 s s2 \<longleftrightarrow> set (keys s) = set (keys s2)"
proof -
  have len: "card (set (keys s)) = length s" "card (set (keys s2)) = length s2"
    using assms by (simp_all add: go_map_def distinct_card)
  show ?thesis
    using card_subset_eq [of "set (keys s)" "set (keys s2)"] len
    by (auto simp: Equal_def set_Len_def IsSuperset_keys [OF assms(3)])
qed

lemma mset_set_List: "mset (set_List ks s) = mset ks"
  by (simp add: set_List_def Let_def multiset.map_comp o_def)

lemma Clone_keys: "ranges ks s \<Longrightarrow> go_map (Clone ks s) \<and> set (keys (Clone ks s)) = set (keys s)"
  using mset_eq_setD [OF mset_set_List [of ks s]] by (simp add: Clone_def ranges_def)

lemma PopAny_keys:
  assumes "go_map s" "ranges ks s" "PopAny ks z s = (x, found, s')"
  shows "(found \<longleftrightarrow> s \<noteq> []) \<and> (found \<longrightarrow> x \<in> set (keys s)) \<and> go_map s' \<and>
    set (keys s') = (if found then set (keys s) - {x} else {})"
proof (cases ks)
  case Nil
  then have "keys s = []" using assms(2) by (simp add: ranges_def)
  with assms Nil show ?thesis by (auto simp: PopAny_def keys_def go_map_def)
next
  case (Cons k r)
  then have "k \<in> set (keys s)" using assms(2) by (auto simp: ranges_def)
  moreover from this have "s \<noteq> []" by (auto simp: keys_def)
  ultimately show ?thesis
    using assms Cons by (auto simp: PopAny_def go_map_Delete)
qed

text \<open>
  A set that is built by \<open>New\<close> lists its items in the order they were first inserted, each once,
  whatever order the map is ranged over.
\<close>

theorem New_List_insertion_order:
  assumes "ranges ks (New items)"
  shows "set_List ks (New items) = nub items \<and> set_Len (New items) = int (length (nub items))"
  using set_List_in_order [OF New_in_order assms] length_keys [of "New items"]
  by (simp add: New_keys set_Len_def)

theorem New_List_insertion_order_witness:
  "set_List [1::nat, 2, 3] (New [3, 1, 3, 2]) = [3, 1, 2]"
  using New_List_insertion_order [of "[1::nat, 2, 3]" "[3, 1, 3, 2]"]
  by (auto simp: ranges_def New_keys nub_def)

text \<open>
  C10: \<open>Union\<close>, \<open>Difference\<close> and \<open>Intersection\<close> hold exactly the items of the set operation,
  \<open>IsSuperset\<close> and \<open>Equal\<close> decide inclusion and equality of the items and \<open>Clone\<close> has the same
  items, for every order in which the maps are ranged over; the results are sets again.
\<close>

theorem Set_algebra:
  assumes "go_map s" "go_map s2" "ranges ks s" "ranges ks2 s2" "ranges kw (fst (walk_of s s2))"
  shows "set (keys (Union ks ks2 s s2)) = set (keys s) \<union> set (keys s2) \<and>
    set (keys (Difference ks s s2)) = set (keys s) - set (keys s2) \<and>
    set (keys (Intersection kw s s2)) = set (keys s) \<inter> set (keys s2) \<and>
    (IsSuperset ks2 s s2 \<longleftrightarrow> set (keys s2) \<subseteq> set (keys s)) \<and>
    (Equal ks2 s s2 \<longleftrightarrow> set (keys s) = set (keys s2)) \<and>
    set (keys (Clone ks s)) = set (keys s) \<and>
    go_map (Union ks ks2 s s2) \<and> go_map (Difference ks s s2) \<and> go_map (Intersection kw s s2) \<and>
    go_map (Clone ks s)"
  using Union_keys [OF assms(3,4)] Difference_keys [OF assms(3)] Intersection_keys [OF assms(5)]
    IsSuperset_keys [OF assms(4)] Equal_keys [OF assms(1,2,4)] Clone_keys [OF assms(3)]
  by simp

theorem Set_algebra_witness:
  "set (keys (Intersection [4::nat, 2] (New [1, 2, 3]) (New [2, 4]))) = {2}"
proof -
  have "set (keys (Intersection [4::nat, 2] (New [1, 2, 3]) (New [2, 4]))) =
      set (keys (New [1::nat, 2, 3])) \<inter> set (keys (New [2, 4]))"
  proof -
    have "walk_of (New [1::nat, 2, 3]) (New [2, 4]) = (New [2, 4], New [1, 2, 3])"
      by code_simp
    then show ?thesis
      using Set_algebra [of "New [1::nat, 2, 3]" "New [2, 4]" "[3, 2, 1]" "[4, 2]" "[4, 2]"]
      by (simp add: ranges_def insert_commute)
  qed
  also have "\<dots> = {2}" by simp
  finally show ?thesis .
qed

text \<open>
  After a \<open>Delete\<close> the next \<open>Insert\<close> reuses the index of a remaining item: the two then compare
  as equal in \<open>List\<close>, and their order depends on the order of the map.
\<close>

theorem List_order_lost_after_Delete:
  "let s = Insert (Delete (New [CHR ''a'', CHR ''b'', CHR ''c'']) [CHR ''a'']) [CHR ''d'']
   in ranges ''bcd'' s \<and> set_List ''bcd'' s = ''bcd'' \<and> ranges ''dcb'' s \<and> set_List ''dcb'' s = ''bdc''"
  by code_simp

end
