(* ===== verification/Array_Set.thy ===== *)
theory Array_Set
  imports Sets
begin

text \<open>
  \<open>sets/array.go\<close>: the fixed-size set over an array, with the callback that is called when it is
  full. The callback may use the set (it closes over it), so it is a function of its own state, of
  the array and length it is given, and of the set. The atomic additions are the plain ones of a
  single goroutine.
\<close>

section \<open>compare\<close>

text \<open>An interface value: nil, a value of a basic kind, or another one with its kind and type.\<close>

datatype ('k, 't, 'v) iface = NilI | Basic 'k 't 'v | Comp 'k 't 'v

fun is_basic :: "('k, 't, 'v) iface \<Rightarrow> bool" where
  "is_basic (Basic k t v) = True"
| "is_basic _ = False"

fun kind_of :: "('k, 't, 'v) iface \<Rightarrow> 'k run" where
  "kind_of NilI = Panic"
| "kind_of (Basic k t v) = Ret k"
| "kind_of (Comp k t v) = Ret k"

text \<open>\<open>reflect.DeepEqual\<close> is false on values of different types; \<open>==\<close> on interface values too.\<close>

definition compare :: "('k, 't, 'v) iface \<Rightarrow> ('k, 't, 'v) iface \<Rightarrow> bool run" where
  "compare a b =
     (if is_basic a \<and> is_basic b then Ret (a = b)
      else bind_run (kind_of a) (\<lambda>ka. bind_run (kind_of b) (\<lambda>kb. Ret (if ka = kb then a = b else False))))"

lemma compare_is_equality:
  "compare a b = (if a = NilI \<or> b = NilI then Panic else Ret (a = b))"
  by (cases a; cases b) (auto simp: compare_def)

section \<open>ArraySet\<close>

text \<open>The element type is one on which \<open>compare\<close> is equality; \<open>zero\<close> is its zero value.\<close>

record 'a array_set =
  arr :: "'a list"
  cur :: int
  size :: int

datatype 'e set_error = ErrorSetFull | CallbackError 'e

type_synonym ('a, 'c, 'e) full_callback =
  "'c \<Rightarrow> 'a list \<Rightarrow> int \<Rightarrow> 'a array_set \<Rightarrow> 'e option \<times> 'c \<times> 'a array_set"

fun Append :: "('a, 'c, 'e) full_callback option \<Rightarrow> 'c \<Rightarrow> 'a array_set \<Rightarrow> 'a list \<Rightarrow>
    'e set_error option \<times> 'c \<times> 'a array_set" where
  "Append fullCallback c s [] = (None, c, s)"
| "Append fullCallback c s (value # values) =
     (if value \<in> set (arr s) then Append fullCallback c s values
      else let idx = cur s + 1 in
        if idx \<ge> size s then
          (case fullCallback of
             None \<Rightarrow> (Some ErrorSetFull, c, s)
           | Some f \<Rightarrow>
               (case f c (arr s) (cur s + 1) s of
                  (Some err, c, s) \<Rightarrow> (Some (CallbackError err), c, s)
                | (None, c, s) \<Rightarrow>
                    let idx = cur s + 1 in
                    if idx \<ge> size s then (None, c, s)
                    else Append fullCallback c (s\<lparr>cur := idx, arr := (arr s)[nat idx := value]\<rparr>) values))
        else Append fullCallback c (s\<lparr>cur := idx, arr := (arr s)[nat idx := value]\<rparr>) values)"

definition NewArraySet :: "'a \<Rightarrow> int \<Rightarrow> 'a list \<Rightarrow> ('e set_error option \<times> 'a array_set) run" where
  "NewArraySet zero n val =
     (if n < 0 then Panic
      else case Append (None :: ('a, unit, 'e) full_callback option) ()
             \<lparr>arr = replicate (nat n) zero, cur = - 1, size = n\<rparr> val of (err, _, s) \<Rightarrow> Ret (err, s))"

definition Reset :: "'a \<Rightarrow> 'a array_set \<Rightarrow> 'a array_set" where
  "Reset zero s = s\<lparr>arr := replicate (nat (size s)) zero, cur := - 1\<rparr>"

definition CallFullCallback :: "('a, 'c, 'e) full_callback option \<Rightarrow> 'c \<Rightarrow> 'a array_set \<Rightarrow>
    'e option \<times> 'c \<times> 'a array_set" where
  "CallFullCallback fullCallback c s =
     (case fullCallback of Some f \<Rightarrow> f c (arr s) (cur s + 1) s | None \<Rightarrow> (None, c, s))"

definition Length :: "'a array_set \<Rightarrow> int" where
  "Length s = cur s + 1"

definition array_List :: "'a array_set \<Rightarrow> 'a list" where
  "array_List s = take (nat (cur s + 1)) (arr s)"

fun index_from :: "'a \<Rightarrow> int \<Rightarrow> 'a list \<Rightarrow> int" where
  "index_from value idx [] = - 1"
| "index_from value idx (val # vals) = (if val = value then idx else index_from value (idx + 1) vals)"

definition Index :: "'a array_set \<Rightarrow> 'a \<Rightarrow> int" where
  "Index s value = index_from value 0 (arr s)"

definition Include :: "'a array_set \<Rightarrow> 'a \<Rightarrow> bool" where
  "Include s value = list_ex (\<lambda>val. val = value) (arr s)"

text \<open>The filled part of the array holds distinct values, the rest the zero value.\<close>

definition array_ok :: "'a \<Rightarrow> 'a array_set \<Rightarrow> bool" where
  "array_ok zero s \<longleftrightarrow> 0 \<le> size s \<and> -1 \<le> cur s \<and> cur s + 1 \<le> size s \<and>
     arr s = array_List s @ replicate (nat (size s - cur s - 1)) zero \<and>
     distinct (array_List s) \<and> zero \<notin> set (array_List s) \<and> int (length (array_List s)) = cur s + 1"

lemma array_ok_mem:
  "array_ok zero s \<Longrightarrow> x \<noteq> zero \<Longrightarrow> x \<in> set (arr s) \<longleftrightarrow> x \<in> set (array_List s)"
  by (metis (no_types, lifting) UnE UnI1 array_ok_def in_set_replicate set_append)

definition put :: "'a array_set \<Rightarrow> 'a \<Rightarrow> 'a array_set" where
  "put s x = s\<lparr>cur := cur s + 1, arr := (arr s)[nat (cur s + 1) := x]\<rparr>"

lemma put_ok:
  assumes "array_ok zero s" "x \<noteq> zero" "x \<notin> set (array_List s)" "cur s + 1 < size s"
  shows "array_ok zero (put s x) \<and> array_List (put s x) = array_List s @ [x]"
proof -
  define k where "k = length (array_List s)"
  define m where "m = nat (size s - cur s - 2)"
  have "nat (size s - cur s - 1) = Suc m"
    using assms(4) by (simp add: m_def)
  then have k: "cur s + 1 = int k" and a: "arr s = array_List s @ replicate (Suc m) zero"
    using assms(1) by (simp_all add: array_ok_def k_def)
  have upd: "(arr s)[k := x] = array_List s @ x # replicate m zero"
    by (subst a) (simp add: k_def list_update_append)
  have l: "array_List (put s x) = array_List s @ [x]"
  proof -
    have "nat (int k + 1) = Suc k" by simp
    then show ?thesis
      using k upd by (simp add: array_List_def [of "put s x"]) (simp add: put_def k_def)
  qed
  have ar: "arr (put s x) = array_List (put s x) @ replicate m zero"
    using k upd by (simp add: l) (simp add: put_def)
  show ?thesis
    using assms k l ar by (auto simp: array_ok_def m_def) (auto simp: put_def k_def m_def algebra_simps)
qed

definition array_add :: "'a array_set \<Rightarrow> 'a \<Rightarrow> 'a array_set" where
  "array_add s x = (if x \<in> set (arr s) \<or> cur s + 1 \<ge> size s then s else put s x)"

interpretation array_set: dedup_store array_add array_List "array_ok zero" "\<lambda>x. x \<noteq> zero"
  "\<lambda>s. Some (nat (size s))" for zero
proof unfold_locales
  fix s and x :: 'a
  assume ok: "array_ok zero s" and x: "x \<noteq> zero"
  note mem = array_ok_mem [OF ok x]
  have len: "int (length (array_List s)) = cur s + 1" "0 \<le> size s"
    using ok by (auto simp: array_ok_def)
  show "array_ok zero (array_add s x) \<and> Some (nat (size (array_add s x))) = Some (nat (size s))"
    using put_ok [OF ok x] ok mem by (auto simp: array_add_def put_def)
  show "array_List (array_add s x) =
      (if x \<in> set (array_List s) \<or> \<not> room (Some (nat (size s))) (length (array_List s)) then array_List s
       else array_List s @ [x])"
    using put_ok [OF ok x] mem len by (auto simp: array_add_def room_def)
qed
section \<open>Append\<close>

lemma array_ok_fresh: "0 \<le> n \<Longrightarrow> array_ok zero \<lparr>arr = replicate (nat n) zero, cur = - 1, size = n\<rparr>"
  by (simp add: array_ok_def array_List_def)

lemma array_ok_length: "array_ok zero s \<Longrightarrow> int (length (array_List s)) = cur s + 1"
  by (simp add: array_ok_def)

lemma array_add_full: "cur s + 1 \<ge> size s \<Longrightarrow> array_add s x = s"
  by (simp add: array_add_def)

lemma foldl_array_add_full:
  "cur s + 1 \<ge> size s \<Longrightarrow> foldl array_add s xs = s"
  by (induction xs) (auto simp: array_add_full)

lemma Append_no_callback:
  assumes "array_ok zero s" "zero \<notin> set xs"
  shows "Append None c s xs =
    (if nat (size s) < length (nub (array_List s @ xs)) then Some ErrorSetFull else None, c,
     foldl array_add s xs)"
  using assms
proof (induction xs arbitrary: s)
  case Nil
  then have "int (length (array_List s)) \<le> size s" "distinct (array_List s)"
    by (simp_all add: array_ok_def)
  then show ?case by simp
next
  case (Cons x xs)
  then have x: "x \<noteq> zero" and mem: "x \<in> set (arr s) \<longleftrightarrow> x \<in> set (array_List s)"
    using array_ok_mem [of zero s x] by auto
  have len: "int (length (array_List s)) = cur s + 1" "distinct (array_List s)" "cur s + 1 \<le> size s"
    using Cons.prems(1) by (simp_all add: array_ok_def)
  show ?case
  proof (cases "x \<in> set (array_List s)")
    case True
    then show ?thesis
      using Cons.IH [OF Cons.prems(1)] Cons.prems mem by (simp add: array_add_def nub_present)
  next
    case new: False
    show ?thesis
    proof (cases "cur s + 1 \<ge> size s")
      case True
      have "nat (size s) < length (nub (array_List s @ [x]))"
        using True len new by (simp add: nub_snoc)
      also have "\<dots> \<le> length (nub (array_List s @ x # xs))"
        using length_nub_mono [of "array_List s @ [x]" xs] by simp
      finally show ?thesis
        using True new mem by (simp add: foldl_array_add_full array_add_full)
    next
      case False
      note P = put_ok [OF Cons.prems(1) x new]
      have "zero \<notin> set xs" "array_ok zero (put s x)"
        using False P Cons.prems by auto
      note IH = Cons.IH [OF this(2,1)]
      then show ?thesis
        using False new mem P by (simp add: array_add_def put_def Let_def)
    qed
  qed
qed

text \<open>
  Without a callback \<open>NewArraySet\<close> keeps the first \<open>n\<close> distinct values in order, and reports
  \<open>ErrorSetFull\<close> exactly when there are more of them than places.
\<close>

theorem NewArraySet_keeps_distinct:
  assumes "0 \<le> n" "zero \<notin> set values"
  shows "\<exists>s. (NewArraySet zero n values :: ('e set_error option \<times> 'a array_set) run) =
      Ret (if nat n < length (nub values) then Some ErrorSetFull else None, s) \<and>
    array_List s = take (nat n) (nub values) \<and> Length s = min n (int (length (nub values)))"
proof -
  let ?s = "\<lparr>arr = replicate (nat n) zero, cur = - 1, size = n\<rparr>"
  have empty: "array_List ?s = []" by (simp add: array_List_def)
  note ok = array_ok_fresh [OF assms(1), of zero]
  have A: "Append (None :: ('a, unit, 'e) full_callback option) () ?s values =
      (if nat n < length (nub values) then Some ErrorSetFull else None, (), foldl array_add ?s values)"
    using Append_no_callback [OF ok assms(2), of "()"] empty by simp
  have "array_ok zero (foldl array_add ?s values)"
    "array_List (foldl array_add ?s values) = take (nat n) (nub values)"
    using array_set.adds_items [OF ok _ empty, of "values"] assms(2) by (auto simp: clip_def)
  with array_ok_length [OF this(1)] A show ?thesis
    using assms(1) by (auto simp: NewArraySet_def Length_def min_def split: if_splits)
qed

theorem NewArraySet_keeps_distinct_witness:
  "\<exists>s. (NewArraySet 0 2 [5, 5, 7, 9] :: (unit set_error option \<times> nat array_set) run) =
      Ret (Some ErrorSetFull, s) \<and> array_List s = [5, 7] \<and> Length s = 2"
  using NewArraySet_keeps_distinct [of 2 "0 :: nat" "[5, 5, 7, 9]", where ?'e = unit]
  by (simp add: nub_def)

section \<open>The full callback\<close>

lemma Reset_ok:
  assumes "array_ok zero s"
  shows "array_ok zero (Reset zero s)" "array_List (Reset zero s) = []" "size (Reset zero s) = size s"
    "cur (Reset zero s) = - 1"
  using assms by (simp_all add: array_ok_def Reset_def array_List_def)

text \<open>A callback that takes the values out in batches: it keeps them and resets the set.\<close>

definition flush :: "'a \<Rightarrow> ('a, 'a list list, 'e) full_callback" where
  "flush zero c a l s = (None, c @ [take (nat l) a], Reset zero s)"

lemma Append_flush:
  assumes "array_ok zero s" "0 < size s" "zero \<notin> set xs"
  shows "\<exists>bs s'. Append (Some (flush zero :: ('a, 'a list list, 'e) full_callback)) c s xs = (None, c @ bs, s') \<and> array_ok zero s' \<and>
    (\<forall>b \<in> set bs. distinct b \<and> int (length b) = size s) \<and>
    set (concat bs) \<union> set (array_List s') = set (array_List s) \<union> set xs"
  using assms
proof (induction xs arbitrary: s c)
  case Nil
  then show ?case by (intro exI [of _ "[]"] exI [of _ s]) simp
next
  case (Cons x xs)
  then have x: "x \<noteq> zero" "zero \<notin> set xs" and mem: "x \<in> set (arr s) \<longleftrightarrow> x \<in> set (array_List s)"
    using array_ok_mem [of zero s x] by auto
  note ok = Cons.prems(1)
  show ?case
  proof (cases "x \<in> set (array_List s)")
    case True
    with Cons.IH [OF ok Cons.prems(2) x(2), of c] mem show ?thesis
      by (simp add: insert_absorb)
  next
    case new: False
    show ?thesis
    proof (cases "cur s + 1 \<ge> size s")
      case False
      note P = put_ok [OF ok x(1) new]
      have "array_ok zero (put s x)" "0 < size (put s x)" "size (put s x) = size s"
        using P False Cons.prems(2) by (auto simp: put_def)
      with Cons.IH [OF this(1,2) x(2), of c] P False new mem show ?thesis
        by (simp add: Let_def put_def)
    next
      case True
      let ?r = "Reset zero s" and ?b = "take (nat (cur s + 1)) (arr s)"
      note R = Reset_ok [OF ok]
      have full: "?b = array_List s" "int (length ?b) = size s" "distinct ?b"
        using ok True by (auto simp: array_ok_def array_List_def)
      have "cur ?r + 1 < size ?r" "x \<notin> set (array_List ?r)"
        using R Cons.prems(2) by simp_all
      note P = put_ok [OF R(1) x(1) this(2,1)]
      have "array_ok zero (put ?r x)" "0 < size (put ?r x)" "size (put ?r x) = size s"
        using P Cons.prems(2) R by (auto simp: put_def)
      from Cons.IH [OF this(1,2) x(2), of "c @ [?b]"] this(3) obtain bs s' where
        A: "Append (Some (flush zero :: ('a, 'a list list, 'e) full_callback)) (c @ [?b]) (put ?r x) xs = (None, (c @ [?b]) @ bs, s')"
          "array_ok zero s'" "\<forall>b \<in> set bs. distinct b \<and> int (length b) = size s"
          "set (concat bs) \<union> set (array_List s') = set (array_List (put ?r x)) \<union> set xs"
        by auto
      have "Append (Some (flush zero :: ('a, 'a list list, 'e) full_callback)) c s (x # xs) =
          Append (Some (flush zero :: ('a, 'a list list, 'e) full_callback)) (c @ [?b]) (put ?r x) xs"
        using True new mem R Cons.prems(2) by (simp add: Let_def flush_def put_def)
      with A full P R show ?thesis
        by (intro exI [of _ "?b # bs"] exI [of _ s']) auto
    qed
  qed
qed

text \<open>
  With a callback that takes the batch and resets the set, \<open>Append\<close> never fails and loses
  nothing: every batch has exactly \<open>n\<close> distinct values, and the batches with what is left in the set
  are exactly the appended values.
\<close>

theorem Append_flush_loses_nothing:
  assumes "0 < n" "zero \<notin> set values"
  shows "\<exists>batches s. Append (Some (flush zero :: ('a, 'a list list, 'e) full_callback)) []
      \<lparr>arr = replicate (nat n) zero, cur = - 1, size = n\<rparr> values = (None, batches, s) \<and>
    (\<forall>b \<in> set batches. distinct b \<and> int (length b) = n) \<and> distinct (array_List s) \<and>
    set (concat batches) \<union> set (array_List s) = set values"
proof -
  let ?s = "\<lparr>arr = replicate (nat n) zero, cur = - 1, size = n\<rparr>"
  have ok: "array_ok zero ?s" using assms(1) by (simp add: array_ok_fresh)
  have "array_List ?s = []" by (simp add: array_List_def)
  with Append_flush [OF ok _ assms(2), of "[]", where ?'e = 'e] assms(1) show ?thesis
    by (auto simp: array_ok_def)
qed

theorem Append_flush_loses_nothing_witness:
  "\<exists>batches s. Append (Some (flush 0 :: (nat, nat list list, unit) full_callback)) []
      \<lparr>arr = replicate (nat 2) 0, cur = - 1, size = 2\<rparr> [1, 2, 3] = (None, batches, s) \<and>
    (\<forall>b \<in> set batches. distinct b \<and> int (length b) = 2) \<and> distinct (array_List s) \<and>
    set (concat batches) \<union> set (array_List s) = {1, 2, 3}"
  using Append_flush_loses_nothing [of 2 "0 :: nat" "[1, 2, 3]", where ?'e = unit] by simp

text \<open>
  The slots not yet used hold the zero value, so in a new set of at least one place the zero
  value counts as present: \<open>Include\<close> and \<open>Index\<close> find it though \<open>Length\<close> is 0, and \<open>Append\<close> drops
  it without an error, as it drops all values, still without an error, when the callback of a full
  set does not make room.
\<close>

theorem ArraySet_drops_silently:
  "Include \<lparr>arr = replicate (Suc n) zero, cur = - 1, size = int (Suc n)\<rparr> zero \<and>
   Index \<lparr>arr = replicate (Suc n) zero, cur = - 1, size = int (Suc n)\<rparr> zero = 0 \<and>
   Length \<lparr>arr = replicate (Suc n) zero, cur = - 1, size = int (Suc n)\<rparr> = 0 \<and>
   Append call c \<lparr>arr = replicate (Suc n) zero, cur = - 1, size = int (Suc n)\<rparr> (replicate m zero) =
     (None, c, \<lparr>arr = replicate (Suc n) zero, cur = - 1, size = int (Suc n)\<rparr>) \<and>
   Append (Some (\<lambda>c a l s. (None, c, s))) c \<lparr>arr = [1 :: nat, 2], cur = 1, size = 2\<rparr> [3, 4] =
     (None :: 'e set_error option, c, \<lparr>arr = [1, 2], cur = 1, size = 2\<rparr>)"
proof -
  have "Append call c \<lparr>arr = replicate (Suc n) zero, cur = - 1, size = int (Suc n)\<rparr> (replicate m zero) =
      (None, c, \<lparr>arr = replicate (Suc n) zero, cur = - 1, size = int (Suc n)\<rparr>)"
    by (induction m) simp_all
  then show ?thesis
    by (simp add: Include_def Index_def Length_def list_ex_iff Let_def)
qed

end
