(* ===== verification/Capacity.thy ===== *)
theory Capacity
  imports Prelude
begin

text \<open>
  \<open>capacity/capacity.go\<close> and \<open>capacity/format.go\<close>: sizes in bytes (an \<open>int64\<close>, an integer here with
  the wrap-around written out), printed into a 32-byte buffer from its end and parsed back. The one
  floating-point expression, on fractions, is computed on rationals with the rounding of a
  53-bit significand.
\<close>

section \<open>Printing\<close>

definition Kilobyte :: int where "Kilobyte = 1024"
definition Megabyte :: int where "Megabyte = Kilobyte * 1024"
definition Gigabyte :: int where "Gigabyte = Megabyte * 1024"
definition Terabyte :: int where "Terabyte = Gigabyte * 1024"

lemmas unit_defs = Kilobyte_def Megabyte_def Gigabyte_def Terabyte_def

definition poke :: "string \<Rightarrow> int \<Rightarrow> char \<Rightarrow> string run" where
  "poke buf i c = (if 0 \<le> i \<and> i < int (length buf) then Ret (buf[nat i := c]) else Panic)"

function fmt_digits :: "string \<Rightarrow> int \<Rightarrow> nat \<Rightarrow> (string \<times> int) run" where
  "fmt_digits buf w v =
     (if v > 0 then bind_run (poke buf (w - 1) (digit_char (v mod 10))) (\<lambda>buf. fmt_digits buf (w - 1) (v div 10))
      else Ret (buf, w))"
  by auto
termination by (relation "measure (\<lambda>(_, _, v). v)") auto

declare fmt_digits.simps [simp del]

text \<open>\<open>fmtInt(buf[:w], v)\<close>: the slice ends at \<open>w\<close>.\<close>

definition fmtInt :: "string \<Rightarrow> int \<Rightarrow> nat \<Rightarrow> (string \<times> int) run" where
  "fmtInt buf w v =
     (if v = 0 then map_run (\<lambda>buf. (buf, w - 1)) (poke buf (w - 1) (CHR ''0'')) else fmt_digits buf w v)"

definition magicUnit :: "string list" where
  "magicUnit = [''B'', ''KB'', ''MB'', ''GB'', ''TB'']"

fun poke_all :: "string \<Rightarrow> int \<Rightarrow> string \<Rightarrow> string run" where
  "poke_all buf i [] = Ret buf"
| "poke_all buf i (r # rs) = bind_run (poke buf i r) (\<lambda>buf. poke_all buf (i + 1) rs)"

fun unit_loop :: "string list \<Rightarrow> string \<Rightarrow> int \<Rightarrow> nat \<Rightarrow> (string \<times> int) run" where
  "unit_loop [] buf w u = Ret (buf, w)"
| "unit_loop (unit # units) buf w u =
     (if u > 0 then
        let w1 = w - int (length unit) in
        bind_run (poke_all buf w1 unit) (\<lambda>buf.
        bind_run (if u mod 1024 > 0 then fmtInt buf w1 (u mod 1024)
                  else Ret (buf, w1 + int (length unit))) (\<lambda>(buf, w).
        unit_loop units buf w (u div 1024)))
      else Ret (buf, w))"

text \<open>\<open>None\<close> is the nil pointer.\<close>

definition cap_String :: "int option \<Rightarrow> string run" where
  "cap_String c = (case c of None \<Rightarrow> Ret []
   | Some c \<Rightarrow>
     let buf = replicate 32 (char_of (0 :: nat)); w = 32;
         neg = c < 0; u = nat ((if neg then - c else c) mod 2 ^ 64)
     in bind_run (unit_loop magicUnit buf w u) (\<lambda>(buf, w).
        bind_run (if neg then map_run (\<lambda>buf. (buf, w - 1)) (poke buf (w - 1) (CHR ''-'')) else Ret (buf, w))
          (\<lambda>(buf, w). Ret (drop (nat w) buf))))"

text \<open>The text as a list of digits and units, most significant first.\<close>

fun cap_text :: "string list \<Rightarrow> nat \<Rightarrow> string" where
  "cap_text [] u = []"
| "cap_text (unit # units) u =
     (if u > 0 then cap_text units (u div 1024) @ (if u mod 1024 > 0 then dec_nat (u mod 1024) @ unit else [])
      else [])"

definition tail_is :: "string \<Rightarrow> int \<Rightarrow> string \<Rightarrow> bool" where
  "tail_is buf w t \<longleftrightarrow> 0 \<le> w \<and> w \<le> int (length buf) \<and> drop (nat w) buf = t"

lemma poke_tail:
  assumes "tail_is buf w t" "0 < w"
  shows "\<exists>buf'. poke buf (w - 1) c = Ret buf' \<and> tail_is buf' (w - 1) (c # t) \<and> length buf' = length buf"
proof -
  define k where "k = nat (w - 1)"
  have k: "w - 1 = int k" "k < length buf" "nat w = Suc k"
    using assms by (auto simp: k_def tail_is_def)
  then have "drop k (buf[k := c]) = c # drop (Suc k) buf"
    by (simp add: drop_update_swap [symmetric] Cons_nth_drop_Suc [symmetric] flip: drop_update_swap)
  with k assms show ?thesis by (auto simp: poke_def tail_is_def)
qed

lemma fmt_digits_tail:
  assumes "tail_is buf w t" "int (length (dec_nat v)) \<le> w" "0 < v"
  shows "\<exists>buf'. fmt_digits buf w v = Ret (buf', w - int (length (dec_nat v))) \<and>
    tail_is buf' (w - int (length (dec_nat v))) (dec_nat v @ t) \<and> length buf' = length buf"
  using assms
proof (induction buf w v arbitrary: t rule: fmt_digits.induct)
  case (1 buf w v)
  have "0 < length (dec_nat v)" by simp
  with "1.prems"(2) have "0 < w" by linarith
  from poke_tail [OF "1.prems"(1) this, of "digit_char (v mod 10)"] obtain buf' where
    b: "poke buf (w - 1) (digit_char (v mod 10)) = Ret buf'" "tail_is buf' (w - 1) (digit_char (v mod 10) # t)"
      "length buf' = length buf" by blast
  show ?case
  proof (cases "v < 10")
    case True
    then have "dec_nat v = [digit_char v]" by (subst dec_nat.simps) simp
    with True b "1.prems"(3) show ?thesis
      by (simp add: fmt_digits.simps [of buf w v] fmt_digits.simps [of buf' "w - 1" 0])
  next
    case False
    then have d: "dec_nat v = dec_nat (v div 10) @ [digit_char (v mod 10)]" by (subst dec_nat.simps) simp
    have "0 < v div 10" using False by (simp add: div_greater_zero_iff)
    with "1.IH" [OF "1.prems"(3) b(2)] False "1.prems"(2) obtain buf'' where
      "fmt_digits buf' (w - 1) (v div 10) = Ret (buf'', w - 1 - int (length (dec_nat (v div 10))))"
      "tail_is buf'' (w - 1 - int (length (dec_nat (v div 10)))) (dec_nat (v div 10) @ digit_char (v mod 10) # t)"
      "length buf'' = length buf'"
      by (auto simp: d)
    with b "1.prems"(3) show ?thesis
      by (simp add: d fmt_digits.simps [of buf w v] algebra_simps)
  qed
qed

lemma poke_all_eq:
  "k + length u \<le> length buf \<Longrightarrow>
    poke_all buf (int k) u = Ret (take k buf @ u @ drop (k + length u) buf)"
proof (induction u arbitrary: buf k)
  case (Cons c u)
  have "poke_all (buf[k := c]) (int (Suc k)) u =
      Ret (take (Suc k) (buf[k := c]) @ u @ drop (Suc k + length u) (buf[k := c]))"
    by (rule Cons.IH) (use Cons.prems in simp)
  moreover have "take (Suc k) (buf[k := c]) = take k buf @ [c]"
    using Cons.prems by (simp add: take_Suc_conv_app_nth)
  ultimately show ?case
    using Cons.prems by (simp add: poke_def add.commute)
qed simp

lemma poke_all_tail:
  assumes "tail_is buf (w + int (length u)) t" "0 \<le> w"
  shows "\<exists>buf'. poke_all buf w u = Ret buf' \<and> tail_is buf' w (u @ t) \<and>
    tail_is buf' (w + int (length u)) t \<and> length buf' = length buf"
proof -
  obtain k where k: "w = int k" using assms(2) nonneg_int_cases by blast
  have "k + length u \<le> length buf" using assms(1) k by (simp add: tail_is_def)
  with poke_all_eq [OF this] assms show ?thesis
    by (auto simp: k tail_is_def nat_add_distrib)
qed

lemma unit_loop_tail:
  assumes "tail_is buf w t" "int (sum_list (map (\<lambda>unit. length unit + 4) units)) \<le> w"
  shows "\<exists>buf' w'. unit_loop units buf w u = Ret (buf', w') \<and> tail_is buf' w' (cap_text units u @ t) \<and>
    length buf' = length buf \<and> w - int (sum_list (map (\<lambda>unit. length unit + 4) units)) \<le> w'"
  using assms
proof (induction units arbitrary: buf w u t)
  case (Cons unit units)
  show ?case
  proof (cases "u = 0")
    case True
    with Cons.prems show ?thesis by simp
  next
    case False
    define w1 where "w1 = w - int (length unit)"
    have w1: "4 + int (sum_list (map (\<lambda>unit. length unit + 4) units)) \<le> w1" "w = w1 + int (length unit)"
      using Cons.prems(2) by (simp_all add: w1_def)
    from poke_all_tail [of buf w1 unit t] Cons.prems(1) w1 obtain b where
      b: "poke_all buf w1 unit = Ret b" "tail_is b w1 (unit @ t)" "tail_is b w t" "length b = length buf"
      by auto
    show ?thesis
    proof (cases "u mod 1024 = 0")
      case True
      from Cons.IH [OF b(3), of "u div 1024"] w1 obtain b' w' where
        "unit_loop units b w (u div 1024) = Ret (b', w')" "tail_is b' w' (cap_text units (u div 1024) @ t)"
        "length b' = length b" "w - int (sum_list (map (\<lambda>unit. length unit + 4) units)) \<le> w'" by auto
      then show ?thesis
        using False True b w1 by (simp add: Let_def)
    next
      case digits: False
      have "length (dec_nat (u mod 1024)) \<le> 4"
        using length_dec_nat [of "u mod 1024" 3] by (simp add: order.strict_trans)
      then have len: "int (length (dec_nat (u mod 1024))) \<le> 4" by simp
      define w2 where "w2 = w1 - int (length (dec_nat (u mod 1024)))"
      from fmt_digits_tail [OF b(2), of "u mod 1024"] len w1 digits obtain c where
        c: "fmtInt b w1 (u mod 1024) = Ret (c, w2)" "tail_is c w2 (dec_nat (u mod 1024) @ unit @ t)"
          "length c = length b"
        by (auto simp: fmtInt_def w2_def)
      have "int (sum_list (map (\<lambda>unit. length unit + 4) units)) \<le> w2" using w1 len by (simp add: w2_def)
      from Cons.IH [OF c(2) this, of "u div 1024"] obtain b' w' where d:
        "unit_loop units c w2 (u div 1024) = Ret (b', w')"
        "tail_is b' w' (cap_text units (u div 1024) @ dec_nat (u mod 1024) @ unit @ t)"
        "length b' = length c" "w2 - int (sum_list (map (\<lambda>unit. length unit + 4) units)) \<le> w'" by auto
      have "unit_loop (unit # units) buf w u = Ret (b', w')"
        using False digits b(1) c(1) d(1) by (simp add: Let_def flip: w1_def)
      moreover have "w - int (sum_list (map (\<lambda>unit. length unit + 4) (unit # units))) \<le> w'"
        using d(4) len by (simp add: w1_def w2_def)
      ultimately show ?thesis
        using False digits d(2,3) b(4) c(3) by simp
    qed
  qed
qed simp

lemma cap_String_text:
  assumes "- (2 ^ 63) \<le> c" "c < 2 ^ 63"
  shows "cap_String (Some c) = Ret ((if c < 0 then ''-'' else []) @ cap_text magicUnit (nat \<bar>c\<bar>))"
proof -
  let ?buf = "replicate 32 (char_of (0 :: nat))"
  have u: "nat ((if c < 0 then - c else c) mod 2 ^ 64) = nat \<bar>c\<bar>"
    using assms by (simp add: abs_if)
  have "tail_is ?buf 32 []" "int (sum_list (map (\<lambda>unit. length unit + 4) magicUnit)) \<le> 32"
    by (simp_all add: tail_is_def magicUnit_def)
  from unit_loop_tail [OF this, of "nat \<bar>c\<bar>"] obtain b w where
    b: "unit_loop magicUnit ?buf 32 (nat \<bar>c\<bar>) = Ret (b, w)" "tail_is b w (cap_text magicUnit (nat \<bar>c\<bar>))"
      "3 \<le> w"
    by (auto simp: magicUnit_def)
  from poke_tail [OF b(2), of "CHR ''-''"] b(3) obtain b' where
    "poke b (w - 1) (CHR ''-'') = Ret b'" "tail_is b' (w - 1) (CHR ''-'' # cap_text magicUnit (nat \<bar>c\<bar>))"
    by auto
  with b u show ?thesis
    by (simp add: cap_String_def Let_def tail_is_def del: replicate.simps)
qed

section \<open>Floating point\<close>

text \<open>
  A \<open>float64\<close> that is not negative: \<open>m\<close> times two to the \<open>e\<close>, with a significand of at most 53 bits.
  Results are rounded to the nearest, ties to even; the exponents that occur here are far from the
  bounds of the format.
\<close>

type_synonym float64 = "int \<times> int"

function bit_length :: "int \<Rightarrow> int" where
  "bit_length n = (if n \<le> 0 then 0 else 1 + bit_length (n div 2))"
  by auto
termination by (relation "measure nat") auto

declare bit_length.simps [simp del]

text \<open>The float nearest to \<open>num\<close> divided by \<open>den\<close>, times two to the \<open>e\<close>.\<close>

definition fl_round :: "int \<Rightarrow> int \<Rightarrow> int \<Rightarrow> float64" where
  "fl_round num den e =
     (if num \<le> 0 then (0, 0)
      else let k = bit_length num - bit_length den - 53;
               n = num * 2 ^ nat (- k); d = den * 2 ^ nat k;
               k' = (if n div d \<ge> 2 ^ 53 then k + 1 else k);
               d' = (if n div d \<ge> 2 ^ 53 then d * 2 else d);
               q = n div d'; r = n mod d'
           in (if 2 * r > d' \<or> 2 * r = d' \<and> odd q then q + 1 else q, e + k'))"

definition fl_of_int :: "int \<Rightarrow> float64" where
  "fl_of_int n = fl_round n 1 0"

definition fl_mult :: "float64 \<Rightarrow> float64 \<Rightarrow> float64" where
  "fl_mult x y = (case (x, y) of ((m, e), (m', e')) \<Rightarrow> fl_round (m * m') 1 (e + e'))"

definition fl_div :: "float64 \<Rightarrow> float64 \<Rightarrow> float64" where
  "fl_div x y = (case (x, y) of ((m, e), (m', e')) \<Rightarrow> fl_round m m' (e - e'))"

definition fl_to_int :: "float64 \<Rightarrow> int" where
  "fl_to_int x = (case x of (m, e) \<Rightarrow> if e \<ge> 0 then m * 2 ^ nat e else m div 2 ^ nat (- e))"

section \<open>Parsing\<close>

definition unitMap :: "string \<Rightarrow> int option" where
  "unitMap = map_of [(''b'', 1), (''kb'', Kilobyte), (''mb'', Megabyte), (''gb'', Gigabyte), (''tb'', Terabyte),
     (''k'', Kilobyte), (''m'', Megabyte), (''g'', Gigabyte), (''t'', Terabyte)]"

text \<open>
  \<open>strings.ToLower\<close> as far as the keys of \<open>unitMap\<close> can tell: ASCII letters, and the Kelvin sign
  (U+212A, three bytes), the only other letter whose lower case is one of theirs.
\<close>

fun unit_lower :: "string \<Rightarrow> string" where
  "unit_lower (c1 # c2 # c3 # s) =
     (if c1 = CHR 0xE2 \<and> c2 = CHR 0x84 \<and> c3 = CHR 0xAA then CHR ''k'' # unit_lower s
      else lower_char c1 # unit_lower (c2 # c3 # s))"
| "unit_lower s = to_lower s"

definition maxInt64 :: int where
  "maxInt64 = 2 ^ 63 - 1"

fun leadingFraction_loop :: "bool \<Rightarrow> int \<Rightarrow> float64 \<Rightarrow> string \<Rightarrow> int \<times> float64 \<times> string" where
  "leadingFraction_loop overflow x scale [] = (x, scale, [])"
| "leadingFraction_loop overflow x scale (c # s) =
     (if \<not> is_digit c then (x, scale, c # s)
      else if overflow then leadingFraction_loop overflow x scale s
      else if x > maxInt64 div 10 then leadingFraction_loop True x scale s
      else let y = wrap64 (x * 10 + int (of_char c) - 48) in
        if y < 0 then leadingFraction_loop True x scale s
        else leadingFraction_loop overflow y (fl_mult scale (fl_of_int 10)) s)"

definition leadingFraction :: "string \<Rightarrow> int \<times> float64 \<times> string" where
  "leadingFraction s = leadingFraction_loop False 0 (fl_of_int 1) s"

fun leadingInt_loop :: "int \<Rightarrow> string \<Rightarrow> (int \<times> string) option" where
  "leadingInt_loop x [] = Some (x, [])"
| "leadingInt_loop x (c # s) =
     (if \<not> is_digit c then Some (x, c # s)
      else if x > maxInt64 div 10 then None
      else let x = wrap64 (x * 10 + int (of_char c) - 48) in
        if x < 0 then None else leadingInt_loop x s)"

definition leadingInt :: "string \<Rightarrow> (int \<times> string) option" where
  "leadingInt s = leadingInt_loop 0 s"

datatype cap_error =
    InvalidCapacity string
  | BadInt string
  | MissingUnit string
  | UnknownUnit string string
  | OverflowCapacity string
  | NotANumber num_error

definition number_char :: "char \<Rightarrow> bool" where
  "number_char c = (c = CHR ''.'' \<or> is_digit c)"

text \<open>One round of the loop: the number (its integer part, its fraction and scale), then the unit.\<close>

definition parse_number :: "string \<Rightarrow> string \<Rightarrow> cap_error + (int \<times> int \<times> float64 \<times> string)" where
  "parse_number orig s =
     (if \<not> (case s of c # _ \<Rightarrow> number_char c | [] \<Rightarrow> False) then Inl (InvalidCapacity orig)
      else case leadingInt s of
        None \<Rightarrow> Inl (BadInt orig)
      | Some (v, s1) \<Rightarrow>
          let pre = (length s \<noteq> length s1);
              (f, scale, s2, post) =
                (case s1 of
                   c # s1' \<Rightarrow>
                     if c = CHR ''.'' then
                       (case leadingFraction s1' of (f, scale, s2) \<Rightarrow> (f, scale, s2, length s1' \<noteq> length s2))
                     else (0, fl_of_int 1, s1, False)
                 | [] \<Rightarrow> (0, fl_of_int 1, s1, False))
          in if \<not> pre \<and> \<not> post then Inl (InvalidCapacity orig) else Inr (v, f, scale, s2))"

definition parse_unit :: "string \<Rightarrow> int \<Rightarrow> int \<Rightarrow> float64 \<Rightarrow> string \<Rightarrow> cap_error + (int \<times> string)" where
  "parse_unit orig v f scale s =
     (let u = takeWhile (\<lambda>c. \<not> number_char c) s; s3 = dropWhile (\<lambda>c. \<not> number_char c) s
      in if u = [] then Inl (MissingUnit orig)
         else case unitMap (unit_lower u) of
           None \<Rightarrow> Inl (UnknownUnit u orig)
         | Some unit \<Rightarrow>
             if v > maxInt64 div unit then Inl (OverflowCapacity orig)
             else let v1 = wrap64 (v * unit) in
               if f > 0 then
                 let v2 = wrap64 (v1 + fl_to_int (fl_mult (fl_of_int f) (fl_div (fl_of_int unit) scale)))
                 in if v2 < 0 then Inl (InvalidCapacity orig) else Inr (v2, s3)
               else Inr (v1, s3))"

definition parse_segment :: "string \<Rightarrow> string \<Rightarrow> cap_error + (int \<times> string)" where
  "parse_segment orig s = (case parse_number orig s of
     Inl err \<Rightarrow> Inl err
   | Inr (v, f, scale, s2) \<Rightarrow> parse_unit orig v f scale s2)"

lemma leadingInt_loop_length: "leadingInt_loop x s = Some (v, r) \<Longrightarrow> length r \<le> length s"
  by (induction x s arbitrary: v r rule: leadingInt_loop.induct) (fastforce simp: Let_def split: if_splits)+

lemma leadingFraction_loop_length: "leadingFraction_loop ov x sc s = (f, sc', r) \<Longrightarrow> length r \<le> length s"
  by (induction ov x sc s arbitrary: f sc' r rule: leadingFraction_loop.induct)
    (fastforce simp: Let_def split: if_splits)+

lemma parse_number_length: "parse_number orig s = Inr (v, f, scale, s2) \<Longrightarrow> length s2 \<le> length s"
  by (fastforce simp: parse_number_def Let_def leadingInt_def leadingFraction_def
      split: if_splits option.splits prod.splits list.splits
      dest!: leadingInt_loop_length leadingFraction_loop_length)

lemma parse_unit_shorter: "parse_unit orig v f scale s = Inr (x, r) \<Longrightarrow> length r < length s"
proof -
  assume a: "parse_unit orig v f scale s = Inr (x, r)"
  let ?P = "\<lambda>c. \<not> number_char c"
  have "takeWhile ?P s \<noteq> []" "r = dropWhile ?P s"
    using a by (auto simp: parse_unit_def Let_def split: if_splits option.splits)
  moreover have "length s = length (takeWhile ?P s) + length (dropWhile ?P s)"
    by (metis length_append takeWhile_dropWhile_id)
  ultimately show "length r < length s" by simp
qed

lemma parse_segment_shorter: "parse_segment orig s = Inr (v, r) \<Longrightarrow> length r < length s"
  by (auto simp: parse_segment_def split: sum.splits dest!: parse_number_length parse_unit_shorter)

function parse_loop :: "string \<Rightarrow> int \<Rightarrow> string \<Rightarrow> cap_error + int" where
  "parse_loop orig d s =
     (if s = [] then Inr d
      else case parse_segment orig s of
        Inl err \<Rightarrow> Inl err
      | Inr (v, s) \<Rightarrow>
          let d = wrap64 (d + v) in if d < 0 then Inl (InvalidCapacity orig) else parse_loop orig d s)"
  by auto
termination by (relation "measure (\<lambda>(_, _, s). length s)") (auto dest: parse_segment_shorter)

declare parse_loop.simps [simp del]

definition ParseCapacities :: "string \<Rightarrow> cap_error + int" where
  "ParseCapacities orig =
     (let neg = (case orig of c # _ \<Rightarrow> c = CHR ''-'' | [] \<Rightarrow> False);
          s = (case orig of c # s \<Rightarrow> if c = CHR ''-'' \<or> c = CHR ''+'' then s else orig | [] \<Rightarrow> orig)
      in if s = ''0'' then Inr 0
         else if s = [] then Inl (InvalidCapacity orig)
         else case parse_loop orig 0 s of
           Inl err \<Rightarrow> Inl err
         | Inr d \<Rightarrow> Inr (if neg then wrap64 (- d) else d))"

text \<open>The setters assign what the parser returns, 0 with an error.\<close>

definition assign :: "cap_error + int \<Rightarrow> cap_error option \<times> int" where
  "assign r = (case r of Inl err \<Rightarrow> (Some err, 0) | Inr c \<Rightarrow> (None, c))"

definition cap_Set :: "string \<Rightarrow> cap_error option \<times> int" where
  "cap_Set s = assign (ParseCapacities s)"

definition cap_UnmarshalJSON :: "int \<Rightarrow> string \<Rightarrow> cap_error option \<times> int" where
  "cap_UnmarshalJSON c b =
     (if b = ''null'' then (None, c)
      else if length b > 2 \<and> hd b = CHR 0x22 \<and> last b = CHR 0x22
      then assign (ParseCapacities (butlast (tl b)))
      else case parse_int 64 b of (err, val) \<Rightarrow> (map_option NotANumber err, val))"

definition cap_MarshalJSON :: "int \<Rightarrow> string run" where
  "cap_MarshalJSON c = map_run (\<lambda>s. [CHR 0x22] @ s @ [CHR 0x22]) (cap_String (Some c))"

definition cap_UnmarshalYAML :: "int \<Rightarrow> (unit \<Rightarrow> 'e + string) \<Rightarrow> ('e + cap_error) option \<times> int" where
  "cap_UnmarshalYAML c unmarshal = (case unmarshal () of
     Inl err \<Rightarrow> (Some (Inl err), c)
   | Inr s \<Rightarrow> (case assign (ParseCapacities s) of (err, c) \<Rightarrow> (map_option Inr err, c)))"

definition cap_MarshalYAML :: "int \<Rightarrow> string run" where
  "cap_MarshalYAML c = cap_String (Some c)"

section \<open>Reading back what was printed\<close>

lemma leadingInt_loop_digits:
  assumes "\<forall>c \<in> set ds. is_digit c" "0 \<le> x" "dec_val x ds \<le> maxInt64"
    "r = [] \<or> \<not> is_digit (hd r)"
  shows "leadingInt_loop x (ds @ r) = Some (dec_val x ds, r)"
  using assms
proof (induction ds arbitrary: x)
  case Nil
  then show ?case by (cases r) auto
next
  case (Cons c ds)
  let ?y = "x * 10 + digit_val c"
  have d: "is_digit c" "0 \<le> digit_val c" using Cons.prems(1) digit_val_bounds by auto
  have y: "0 \<le> ?y" "x \<le> ?y" using d(2) Cons.prems(2) by auto
  have "?y \<le> dec_val ?y ds" by (rule dec_val_ge) (use Cons.prems y in auto)
  then have le: "?y \<le> maxInt64" using Cons.prems(3) by simp
  then have "x \<le> maxInt64 div 10" using d(2) by (simp add: maxInt64_def)
  moreover have "wrap64 (x * 10 + int (of_char c) - 48) = ?y"
    using le y by (simp add: digit_val_def maxInt64_def wrap64_id)
  ultimately show ?case
    using Cons.IH [OF _ y(1)] Cons.prems d y by (simp add: Let_def)
qed

text \<open>A table of units, each 1024 times the one before, that the parser knows.\<close>

fun unit_table :: "int \<Rightarrow> string list \<Rightarrow> bool" where
  "unit_table b [] = True"
| "unit_table b (unit # units) =
     (unitMap (unit_lower unit) = Some b \<and> unit \<noteq> [] \<and> list_all (\<lambda>c. \<not> number_char c) unit \<and>
      unit_table (b * 1024) units)"

lemma unit_table_magic: "unit_table 1 magicUnit"
  by code_simp

lemma is_digit_number_char: "is_digit c \<Longrightarrow> number_char c \<and> c \<noteq> CHR ''.''"
  by (auto simp: number_char_def is_digit_def)

lemma parse_segment_printed:
  assumes "unitMap (unit_lower unit) = Some b" "unit \<noteq> []" "list_all (\<lambda>c. \<not> number_char c) unit"
    "rest = [] \<or> is_digit (hd rest)" "0 < b" "int k * b \<le> maxInt64"
  shows "parse_segment orig (dec_nat k @ unit @ rest) = Inr (int k * b, rest)"
proof -
  obtain c u where u: "unit = c # u" using assms(2) by (cases unit) auto
  have c: "\<not> is_digit c" "c \<noteq> CHR ''.''" using assms(3) by (auto simp: u number_char_def)
  have k: "int k \<le> maxInt64"
    using assms(5,6) mult_left_mono [of 1 b "int k"] by linarith
  have lead: "leadingInt (dec_nat k @ unit @ rest) = Some (int k, unit @ rest)"
    using leadingInt_loop_digits [OF dec_nat_digits, of 0 k "unit @ rest"] k c by (simp add: leadingInt_def u)
  have head: "case dec_nat k @ unit @ rest of c # _ \<Rightarrow> number_char c | [] \<Rightarrow> False"
    using dec_nat_digits [of k] is_digit_number_char by (cases "dec_nat k") auto
  have num: "parse_number orig (dec_nat k @ unit @ rest) = Inr (int k, 0, fl_of_int 1, unit @ rest)"
    unfolding parse_number_def using head lead c by (simp add: Let_def u)
  have tk: "takeWhile (\<lambda>c. \<not> number_char c) (unit @ rest) = unit"
    "dropWhile (\<lambda>c. \<not> number_char c) (unit @ rest) = rest"
    using assms(3,4) is_digit_number_char by (cases rest; auto simp: list_all_iff takeWhile_append dropWhile_append)+
  have "int k \<le> maxInt64 div b" using assms(5,6) by (simp add: zdiv_mono1 [of "int k * b" maxInt64 b, simplified])
  moreover have "wrap64 (int k * b) = int k * b"
    using assms(5,6) by (intro wrap64_id) (auto simp: maxInt64_def intro: order_trans [of _ 0])
  ultimately show ?thesis
    using assms(1,2) by (simp add: parse_segment_def num parse_unit_def tk Let_def not_less)
qed

lemma cap_text_head: "rest = [] \<or> is_digit (hd rest) \<Longrightarrow>
    cap_text units u @ rest = [] \<or> is_digit (hd (cap_text units u @ rest))"
proof (induction units arbitrary: u rest)
  case (Cons unit units)
  have "is_digit (hd (dec_nat n @ s))" for n s
    using dec_nat_digits [of n] by (cases "dec_nat n") auto
  with Cons.IH [of rest "u div 1024"] Cons.IH [of "dec_nat (u mod 1024) @ unit @ rest" "u div 1024"] Cons.prems
  show ?case by auto
qed simp

lemma parse_loop_cap_text:
  assumes "unit_table b units" "0 < b" "u < 1024 ^ length units" "0 \<le> d" "d + int u * b \<le> maxInt64"
    "rest = [] \<or> is_digit (hd rest)"
  shows "parse_loop orig d (cap_text units u @ rest) = parse_loop orig (d + int u * b) rest"
  using assms
proof (induction units arbitrary: b u d rest)
  case (Cons unit units)
  define q where "q = u div 1024"
  define k where "k = u mod 1024"
  have uk: "int u = int q * 1024 + int k" and q: "q < 1024 ^ length units"
    using Cons.prems(3) int_div_mod [of u 1024]
    by (simp_all add: q_def k_def less_mult_imp_div_less mult.commute)
  have eq: "int u * b = int q * (b * 1024) + int k * b" by (simp add: uk algebra_simps)
  have nn: "0 \<le> int q * (b * 1024)" "0 \<le> int k * b" using Cons.prems(2) by auto
  have tab: "unit_table (b * 1024) units" "0 < b * 1024" using Cons.prems(1,2) by auto
  have le: "d + int q * (b * 1024) \<le> maxInt64" using Cons.prems(5) nn eq by linarith
  have IH: "parse_loop orig d (cap_text units q @ r) = parse_loop orig (d + int q * (b * 1024)) r"
    if "r = [] \<or> is_digit (hd r)" for r
    by (rule Cons.IH [OF tab q Cons.prems(4) le that])
  consider "u = 0" | "u \<noteq> 0" "k = 0" | "k \<noteq> 0" by blast
  then show ?case
  proof cases
    case 1
    then show ?thesis by simp
  next
    case 2
    with IH [OF Cons.prems(6)] show ?thesis by (simp add: eq flip: q_def k_def)
  next
    case 3
    then have u: "0 < u" by (auto simp: k_def)
    let ?r = "dec_nat k @ unit @ rest"
    have r: "?r = [] \<or> is_digit (hd ?r)" using dec_nat_digits [of k] by (cases "dec_nat k") auto
    have "int k * b \<le> maxInt64" using Cons.prems(4,5) eq nn by linarith
    then have seg: "parse_segment orig ?r = Inr (int k * b, rest)"
      using Cons.prems by (intro parse_segment_printed) auto
    have s: "d + int q * (b * 1024) + int k * b = d + int u * b" by (simp add: eq)
    have "0 \<le> d + int u * b" "d + int u * b < 2 ^ 63"
      using Cons.prems(4,5) nn unfolding eq maxInt64_def by linarith+
    then have "wrap64 (d + int q * (b * 1024) + int k * b) = d + int u * b"
      unfolding s by (intro wrap64_id) linarith+
    moreover have "\<not> d + int u * b < 0" using Cons.prems(4) eq nn by linarith
    ultimately have "parse_loop orig (d + int q * (b * 1024)) ?r = parse_loop orig (d + int u * b) rest"
      using seg by (subst parse_loop.simps) (simp add: Let_def)
    with IH [OF r] u 3 show ?thesis by (simp flip: q_def k_def)
  qed
qed simp

lemma cap_text_not_short: "[] \<notin> set units \<Longrightarrow> cap_text units u = [] \<or> 2 \<le> length (cap_text units u)"
proof (induction units arbitrary: u)
  case (Cons unit units)
  have "0 < length (dec_nat (u mod 1024))" "0 < length unit" using Cons.prems by auto
  then have "2 \<le> length (dec_nat (u mod 1024)) + length unit" by linarith
  with Cons.IH [of "u div 1024"] Cons.prems show ?case by auto
qed simp

lemma ParseCapacities_text:
  assumes "0 < u" "u < 2 ^ 50"
  shows "ParseCapacities (cap_text magicUnit u) = Inr (int u)"
    and "ParseCapacities (CHR ''-'' # cap_text magicUnit u) = Inr (- int u)"
proof -
  have len: "(u :: nat) < 1024 ^ length magicUnit" using assms(2) by (simp add: magicUnit_def)
  have loop: "parse_loop orig 0 (cap_text magicUnit u) = Inr (int u)" for orig
    using parse_loop_cap_text [OF unit_table_magic _ len, of 0 "[]" orig] assms(2)
    by (simp add: maxInt64_def parse_loop.simps [of _ _ "[]"])
  have ne: "cap_text magicUnit u \<noteq> []"
    using loop [of "[]"] assms(1) by (auto simp: parse_loop.simps [of _ _ "[]"])
  then obtain c s where cs: "cap_text magicUnit u = c # s" by (cases "cap_text magicUnit u") auto
  have "is_digit c" using cap_text_head [of "[]" magicUnit u] cs by simp
  then have c: "c \<noteq> CHR ''-''" "c \<noteq> CHR ''+''" by (auto simp: is_digit_def)
  have "s \<noteq> []" using cap_text_not_short [of magicUnit u] cs by (auto simp: magicUnit_def)
  then show "ParseCapacities (cap_text magicUnit u) = Inr (int u)"
    using loop [of "c # s"] c by (simp add: ParseCapacities_def cs)
  have "wrap64 (- int u) = - int u" using assms(2) by (intro wrap64_id) auto
  then show "ParseCapacities (CHR ''-'' # cap_text magicUnit u) = Inr (- int u)"
    using loop [of "CHR ''-'' # c # s"] \<open>s \<noteq> []\<close> by (simp add: ParseCapacities_def cs)
qed

lemma printed_parsed:
  assumes "c \<noteq> 0" "\<bar>c\<bar> < 2 ^ 50"
  shows "\<exists>s. cap_String (Some c) = Ret s \<and> ParseCapacities s = Inr c \<and> s \<noteq> []"
proof -
  let ?s = "(if c < 0 then ''-'' else []) @ cap_text magicUnit (nat \<bar>c\<bar>)"
  have str: "cap_String (Some c) = Ret ?s" using assms by (intro cap_String_text) auto
  have u: "0 < nat \<bar>c\<bar>" "nat \<bar>c\<bar> < 2 ^ 50" using assms by (auto simp: nat_less_iff)
  have parse: "ParseCapacities ?s = Inr c" using ParseCapacities_text [OF u] by auto
  then have "?s \<noteq> []" by (auto simp: ParseCapacities_def)
  with str parse show ?thesis by blast
qed

text \<open>
  C7: Every size that is not 0 and less than 1024 terabytes in absolute value is printed without
  running out of the 32-byte buffer, and is read back unchanged: by \<open>Set\<close> from its text, and through
  JSON and YAML.
\<close>

theorem Capacities_roundtrip:
  assumes "c \<noteq> 0" "\<bar>c\<bar> < 2 ^ 50"
  shows "\<exists>s. cap_String (Some c) = Ret s \<and> cap_Set s = (None, c) \<and>
    cap_MarshalJSON c = Ret ([CHR 0x22] @ s @ [CHR 0x22]) \<and>
    cap_UnmarshalJSON c0 ([CHR 0x22] @ s @ [CHR 0x22]) = (None, c) \<and>
    cap_MarshalYAML c = Ret s \<and> cap_UnmarshalYAML c0 (\<lambda>_. Inr s) = (None, c)"
proof -
  obtain s where "cap_String (Some c) = Ret s" "ParseCapacities s = Inr c" "s \<noteq> []"
    using printed_parsed [OF assms] by blast
  then show ?thesis
    by (intro exI [of _ s])
      (simp add: cap_Set_def assign_def cap_MarshalJSON_def cap_UnmarshalJSON_def cap_MarshalYAML_def
        cap_UnmarshalYAML_def butlast_append)
qed

theorem Capacities_roundtrip_witness:
  "\<exists>s. cap_String (Some (- 1077202129)) = Ret s \<and> cap_Set s = (None, - 1077202129)"
  using Capacities_roundtrip [of "- 1077202129" 0] by auto

text \<open>
  Outside that range the text loses the value: 0 and 1024 terabytes print as nothing, the least
  \<open>int64\<close> as a sign alone, one byte more than 1024 terabytes as one byte, and what \<open>MarshalJSON\<close>
  writes for 0 is refused by \<open>UnmarshalJSON\<close>.
\<close>

theorem Capacities_not_printed:
  "cap_String (Some 0) = Ret [] \<and> cap_String (Some (2 ^ 50)) = Ret [] \<and>
   cap_String (Some (2 ^ 50 + 1)) = Ret ''1B'' \<and> cap_String (Some (- (2 ^ 63))) = Ret ''-'' \<and>
   ParseCapacities [] = Inl (InvalidCapacity []) \<and> cap_MarshalJSON 0 = Ret [CHR 0x22, CHR 0x22] \<and>
   cap_UnmarshalJSON c [CHR 0x22, CHR 0x22] = (Some (NotANumber ErrSyntax), 0)"
proof -
  have one: "digit_char 1 = CHR ''1''" by code_simp
  have str: "cap_String (Some 0) = Ret []" "cap_String (Some (2 ^ 50)) = Ret []"
    "cap_String (Some (2 ^ 50 + 1)) = Ret ''1B''" "cap_String (Some (- (2 ^ 63))) = Ret ''-''"
    by (subst cap_String_text; simp add: magicUnit_def dec_nat.simps [of "Suc 0"] one [simplified])+
  then show ?thesis
    by (simp add: ParseCapacities_def cap_MarshalJSON_def cap_UnmarshalJSON_def parse_int_def is_digit_def)
qed

section \<open>The hook of mapstructure\<close>

text \<open>For a source of kind string: the parsed size if the target is a size, the text itself otherwise.\<close>

definition StringToCapacityHookFunc :: "bool \<Rightarrow> string \<Rightarrow> cap_error + (int + string)" where
  "StringToCapacityHookFunc is_capacity text =
     (if is_capacity then (case ParseCapacities text of Inl err \<Rightarrow> Inl err | Inr c \<Rightarrow> Inr (Inl c)) else Inr (Inr text))"

text \<open>
  The parser of the capacity texts of the test suite: compound sizes, fractions (rounded through
  floating point), a fraction longer than an \<open>int64\<close>, and the errors.
\<close>

theorem ParseCapacities_examples:
  "ParseCapacities ''1.5MB'' = Inr 1572864 \<and> ParseCapacities ''0.6GB'' = Inr 644245094 \<and>
   ParseCapacities ''-1gb1M2.3MB5b'' = Inr (- 1077202129) \<and>
   ParseCapacities ''1.9999999999999999999999999T'' = Inr 2199023255552 \<and>
   ParseCapacities ''10000000T10gb'' = Inl (OverflowCapacity ''10000000T10gb'') \<and>
   ParseCapacities ''1T1.5'' = Inl (MissingUnit ''1T1.5'')"
  by (intro conjI; code_simp)

end
