(* ===== verification/Errors.thy ===== *)
theory Errors
  imports Prelude
begin

text \<open>
  \<open>errors/errors.go\<close>: errors with a code and an HTTP status. An error value is its chain of
  wrappers. Of the errors of other packages only what the code asks for is there: \<open>Foreign\<close> has no
  cause, \<open>Wrap\<close> has one, and \<open>Msg\<close> is the value of \<open>errors.WithMessage\<close> of \<open>github.com/pkg/errors\<close>,
  whose \<open>Unwrap\<close> is the cause. Their texts, and whether they implement \<open>Error\<close> of this package, are
  parameters, as is the sentinel \<open>logger.ErrRecordNotFound\<close>. \<open>Nil\<close> is the nil interface value, and
  \<open>errorWrapper\<close> values carry their address.
\<close>

section \<open>Error values\<close>

datatype 'x error =
    Nil
  | Foreign 'x
  | Wrap 'x "'x error"
  | Msg string "'x error"
  | Wrapper (waddr: nat) (wcode: string) (wstatus: int) (werr: "'x error")
  | NotFound string
  | Multi (merrs: "'x error list") (mcode: string) (mstatus: int) (mprefix: string)

text \<open>\<open>errors.Unwrap\<close>, and the chain that \<open>errors.Is\<close> and \<open>errors.As\<close> walk.\<close>

fun Unwrap :: "'x error \<Rightarrow> 'x error" where
  "Unwrap (Wrap x e) = e"
| "Unwrap (Msg m e) = e"
| "Unwrap (Wrapper a c s e) = e"
| "Unwrap _ = Nil"

fun chain :: "'x error \<Rightarrow> 'x error list" where
  "chain Nil = []"
| "chain (Wrap x e) = Wrap x e # chain e"
| "chain (Msg m e) = Msg m e # chain e"
| "chain (Wrapper a c s e) = Wrapper a c s e # chain e"
| "chain e = [e]"

fun is_Wrapper :: "'x error \<Rightarrow> bool" where
  "is_Wrapper (Wrapper a c s e) = True"
| "is_Wrapper _ = False"

fun is_NotFound :: "'x error \<Rightarrow> bool" where
  "is_NotFound (NotFound n) = True"
| "is_NotFound _ = False"

definition error_Is :: "'x error \<Rightarrow> 'x error \<Rightarrow> bool" where
  "error_Is e target = list_ex (\<lambda>x. x = target) (chain e)"

definition error_As :: "('x error \<Rightarrow> bool) \<Rightarrow> 'x error \<Rightarrow> 'x error option" where
  "error_As P e = List.find P (chain e)"

text \<open>\<open>errors.WithMessage\<close> of the package: nil stays nil.\<close>

definition pkg_WithMessage :: "'x error \<Rightarrow> string \<Rightarrow> 'x error" where
  "pkg_WithMessage e msg = (if e = Nil then Nil else Msg msg e)"

section \<open>Construction\<close>

definition first_code :: "string list \<Rightarrow> int \<Rightarrow> string" where
  "first_code code status = (case code of [] \<Rightarrow> itoa status | c # _ \<Rightarrow> c)"

text \<open>\<open>a\<close> is the address of the new value, \<open>new\<close> the package's \<open>errors.New\<close>.\<close>

definition With :: "nat \<Rightarrow> int \<Rightarrow> 'x error \<Rightarrow> string \<Rightarrow> string list \<Rightarrow> 'x error" where
  "With a st e msg code =
     Wrapper a (first_code code st) st (if msg \<noteq> [] then pkg_WithMessage e msg else e)"

definition NewError :: "(string \<Rightarrow> 'x) \<Rightarrow> nat \<Rightarrow> int \<Rightarrow> string \<Rightarrow> string list \<Rightarrow> 'x error" where
  "NewError new a st msg code = Wrapper a (first_code code st) st (Foreign (new msg))"

definition New_error :: "(string \<Rightarrow> 'x) \<Rightarrow> nat \<Rightarrow> string \<Rightarrow> 'x error" where
  "New_error new a msg = NewError new a 500 msg []"

definition NotFoundError :: "(string \<Rightarrow> 'x) \<Rightarrow> 'x error" where
  "NotFoundError new = NewError new 0 404 ''record not found'' []"

definition NewNotFoundError :: "string \<Rightarrow> 'x error" where
  "NewNotFoundError name = NotFound name"

definition NewErrors :: "int \<Rightarrow> string \<Rightarrow> string list \<Rightarrow> 'x error" where
  "NewErrors st pre code = Multi [] (first_code code st) st pre"

fun Errors_Append :: "'x error \<Rightarrow> 'x error \<Rightarrow> 'x error" where
  "Errors_Append (Multi es c s p) e = (if e \<noteq> Nil then Multi (es @ [e]) c s p else Multi es c s p)"
| "Errors_Append m e = m"

fun HasError :: "'x error \<Rightarrow> bool" where
  "HasError (Multi es c s p) = (length (filter (\<lambda>e. e \<noteq> Nil) es) > 0)"
| "HasError _ = False"

section \<open>Code and status\<close>

text \<open>What \<open>errors.As(err, &e)\<close> finds for the interface \<open>Error\<close>; \<open>coded\<close> tells for foreign errors.\<close>

fun coded_of :: "('x \<Rightarrow> (string \<times> int) option) \<Rightarrow> 'x error \<Rightarrow> (string \<times> int) option" where
  "coded_of coded (Wrapper a c s e) = Some (c, s)"
| "coded_of coded (Multi es c s p) = Some (c, s)"
| "coded_of coded (Foreign x) = coded x"
| "coded_of coded (Wrap x e) = coded x"
| "coded_of coded _ = None"

definition as_coded :: "('x \<Rightarrow> (string \<times> int) option) \<Rightarrow> 'x error \<Rightarrow> (string \<times> int) option" where
  "as_coded coded e =
     (case error_As (\<lambda>x. coded_of coded x \<noteq> None) e of None \<Rightarrow> None | Some x \<Rightarrow> coded_of coded x)"

definition Code :: "'x error \<Rightarrow> string run" where
  "Code e = (case e of Wrapper a c s i \<Rightarrow> Ret c | Multi es c s p \<Rightarrow> Ret c | _ \<Rightarrow> Panic)"

definition StatusCode :: "'x error \<Rightarrow> int run" where
  "StatusCode e = (case e of Wrapper a c s i \<Rightarrow> Ret s | Multi es c s p \<Rightarrow> Ret s | _ \<Rightarrow> Panic)"

text \<open>Every constructor keeps the status and the code it is given, the decimal status by default.\<close>

locale coded_constructor =
  fixes mk :: "int \<Rightarrow> string list \<Rightarrow> 'x error"
  assumes mk_code: "Code (mk st code) = Ret (first_code code st)"
    and mk_status: "StatusCode (mk st code) = Ret st"
begin

lemma default_code: "Code (mk st []) = Ret (itoa st)"
  by (simp add: mk_code first_code_def)

lemma given_code: "Code (mk st (c # cs)) = Ret c"
  by (simp add: mk_code first_code_def)

end

interpretation With: coded_constructor "\<lambda>st code. With a st e msg code" for a e msg
  by unfold_locales (simp_all add: With_def Code_def StatusCode_def)

interpretation NewError: coded_constructor "\<lambda>st code. NewError new a st msg code" for new a msg
  by unfold_locales (simp_all add: NewError_def Code_def StatusCode_def)

interpretation NewErrors: coded_constructor "\<lambda>st code. NewErrors st pre code" for pre
  by unfold_locales (simp_all add: NewErrors_def Code_def StatusCode_def)

section \<open>Messages\<close>

text \<open>\<open>a\<close> is the address of the new wrapper; \<open>notFound\<close> is the sentinel of \<open>gorm\<close>'s logger.\<close>

definition WithMessage ::
  "('x \<Rightarrow> (string \<times> int) option) \<Rightarrow> 'x \<Rightarrow> nat \<Rightarrow> 'x error \<Rightarrow> string \<Rightarrow> 'x error" where
  "WithMessage coded notFound a e msg =
     (case error_As is_Wrapper e of
        Some ew \<Rightarrow> Wrapper a (wcode ew) (wstatus ew) (pkg_WithMessage (werr ew) msg)
      | None \<Rightarrow>
          (case as_coded coded e of
             Some (c, s) \<Rightarrow> Wrapper a c s (pkg_WithMessage e msg)
           | None \<Rightarrow>
               if error_Is e (Foreign notFound) then Wrapper a ''404'' 404 (pkg_WithMessage e msg)
               else pkg_WithMessage e msg))"

lemma find_wrapper_smaller:
  "error_As is_Wrapper e = Some ew \<Longrightarrow> size (werr ew) < size e \<and> is_Wrapper ew"
  by (induction e) (auto simp: error_As_def)

function IsNotFount :: "(string \<Rightarrow> 'x) \<Rightarrow> 'x \<Rightarrow> 'x error \<Rightarrow> bool" where
  "IsNotFount new notFound e =
     (if error_Is e (NotFoundError new) \<or> error_Is e (Foreign notFound) then True
      else if error_As is_NotFound e \<noteq> None then True
      else case error_As is_Wrapper e of
        Some ew \<Rightarrow> if wstatus ew = 404 then True else IsNotFount new notFound (werr ew)
      | None \<Rightarrow> False)"
  by auto
termination
  by (relation "measure (\<lambda>(_, _, e). size e)") (auto dest: find_wrapper_smaller)

declare IsNotFount.simps [simp del]

text \<open>
  The texts: \<open>ft\<close> of foreign errors, \<open>mt\<close> of a message and its cause. The text of a nil error is a
  nil dereference.
\<close>

fun error_text :: "('x \<Rightarrow> string) \<Rightarrow> (string \<Rightarrow> string \<Rightarrow> string) \<Rightarrow> 'x error \<Rightarrow> string run"
  and error_texts :: "('x \<Rightarrow> string) \<Rightarrow> (string \<Rightarrow> string \<Rightarrow> string) \<Rightarrow> 'x error list \<Rightarrow> string list run" where
  "error_text ft mt Nil = Panic"
| "error_text ft mt (Foreign x) = Ret (ft x)"
| "error_text ft mt (Wrap x e) = Ret (ft x)"
| "error_text ft mt (Msg m e) = map_run (mt m) (error_text ft mt e)"
| "error_text ft mt (Wrapper a c s e) = error_text ft mt e"
| "error_text ft mt (NotFound name) = Ret (''record not found: '' @ name)"
| "error_text ft mt (Multi es c s p) =
     (case es of
        [] \<Rightarrow> Ret []
      | [e] \<Rightarrow> error_text ft mt e
      | _ \<Rightarrow> map_run (\<lambda>ts. p @ join '','' ts) (error_texts ft mt es))"
| "error_texts ft mt [] = Ret []"
| "error_texts ft mt (e # es) =
     bind_run (error_text ft mt e) (\<lambda>t. map_run (\<lambda>ts. t # ts) (error_texts ft mt es))"

text \<open>\<open>Format\<close>: what is written for a verb; \<open>formatter\<close> is the \<open>fmt.Formatter\<close> of the cause, if any.\<close>

definition Format :: "('x \<Rightarrow> string) \<Rightarrow> (string \<Rightarrow> string \<Rightarrow> string) \<Rightarrow> ('x error \<Rightarrow> string option) \<Rightarrow>
    (string \<Rightarrow> string) \<Rightarrow> 'x error \<Rightarrow> bool \<Rightarrow> char \<Rightarrow> string run" where
  "Format ft mt formatter quote e plus_flag verb =
     (if verb = CHR ''v'' \<and> plus_flag then
        (case formatter (Unwrap e) of Some out \<Rightarrow> Ret out | None \<Rightarrow> Ret [])
      else if verb = CHR ''v'' \<or> verb = CHR ''s'' then error_text ft mt e
      else if verb = CHR ''q'' then map_run quote (error_text ft mt e)
      else Ret [])"

section \<open>Not found\<close>

text \<open>What makes an error a not-found error: something in its chain does.\<close>

fun not_found_link :: "'x \<Rightarrow> 'x error \<Rightarrow> bool" where
  "not_found_link notFound (Foreign x) = (x = notFound)"
| "not_found_link notFound (NotFound n) = True"
| "not_found_link notFound (Wrapper a c s e) = (s = 404)"
| "not_found_link notFound _ = False"

lemma chain_split_wrapper:
  "error_As is_Wrapper e = Some ew \<Longrightarrow>
    \<exists>pre. chain e = pre @ ew # chain (werr ew) \<and> list_all (\<lambda>x. \<not> is_Wrapper x \<and> \<not> not_found_link nf x) pre"
proof (induction e)
  case (Wrap x e)
  then obtain pre where "chain e = pre @ ew # chain (werr ew)"
    "list_all (\<lambda>x. \<not> is_Wrapper x \<and> \<not> not_found_link nf x) pre" by (auto simp: error_As_def)
  then show ?case by (intro exI [of _ "Wrap x e # pre"]) simp
next
  case (Msg m e)
  then obtain pre where "chain e = pre @ ew # chain (werr ew)"
    "list_all (\<lambda>x. \<not> is_Wrapper x \<and> \<not> not_found_link nf x) pre" by (auto simp: error_As_def)
  then show ?case by (intro exI [of _ "Msg m e # pre"]) simp
qed (auto simp: error_As_def)

lemma IsNotFount_iff:
  "IsNotFount new nf e \<longleftrightarrow> list_ex (not_found_link nf) (chain e)"
proof (induction "size e" arbitrary: e rule: less_induct)
  case less
  have link: "error_Is e (NotFoundError new) \<or> error_Is e (Foreign nf) \<or> error_As is_NotFound e \<noteq> None \<Longrightarrow>
      list_ex (not_found_link nf) (chain e)"
    by (auto simp: error_Is_def error_As_def list_ex_iff find_None_iff NotFoundError_def NewError_def
        elim!: is_NotFound.elims) (force intro: rev_bexI)+
  show ?case
  proof (cases "error_As is_Wrapper e")
    case None
    then have nw: "\<forall>x \<in> set (chain e). \<not> is_Wrapper x" by (auto simp: error_As_def find_None_iff)
    have "IsNotFount new nf e" if "list_ex (not_found_link nf) (chain e)"
    proof -
      from that obtain x where x: "x \<in> set (chain e)" "not_found_link nf x" by (auto simp: list_ex_iff)
      with nw have "x = Foreign nf \<or> is_NotFound x" by (cases x) auto
      with x(1) show ?thesis
        by (subst IsNotFount.simps) (auto simp: error_Is_def error_As_def list_ex_iff find_None_iff)
    qed
    then show ?thesis using link None by (subst IsNotFount.simps) (auto simp: IsNotFount.simps [of new nf e])
  next
    case (Some ew)
    obtain pre where pre: "chain e = pre @ ew # chain (werr ew)"
      "list_all (\<lambda>x. \<not> is_Wrapper x \<and> \<not> not_found_link nf x) pre"
      using chain_split_wrapper [OF Some] by blast
    have sm: "size (werr ew) < size e" "is_Wrapper ew" using find_wrapper_smaller [OF Some] by auto
    have "list_ex (not_found_link nf) (chain e) \<longleftrightarrow>
        wstatus ew = 404 \<or> list_ex (not_found_link nf) (chain (werr ew))"
      using pre sm(2) by (cases ew) (auto simp: list_ex_iff list_all_iff)
    with less.hyps [OF sm(1)] link Some show ?thesis
      by (subst IsNotFount.simps) auto
  qed
qed



text \<open>
  \<open>WithMessage\<close> keeps the innermost text only: a message that was put around a wrapper by other
  code is dropped when another one is added, and \<open>With\<close> on a nil error is a wrapper whose \<open>Error\<close>
  panics, whatever message it is given.
\<close>

theorem WithMessage_drops_outer_message:
  "error_text ft mt (WithMessage coded nf a (Msg outer (Wrapper b c s (Foreign x))) msg) = Ret (mt msg (ft x)) \<and>
   error_text ft mt (Msg outer (Wrapper b c s (Foreign x))) = Ret (mt outer (ft x)) \<and>
   error_text ft mt (With a st Nil msg code) = Panic \<and>
   IsNotFount new nf (WithMessage coded nf a (NewErrors 404 p []) msg) \<and>
   \<not> IsNotFount new nf (NewErrors 404 p [])"
  by (simp add: WithMessage_def error_As_def pkg_WithMessage_def With_def NewErrors_def as_coded_def IsNotFount_iff)

section \<open>Error lists\<close>

lemma foldl_Errors_Append:
  "foldl Errors_Append (Multi es c s p) xs = Multi (es @ filter (\<lambda>e. e \<noteq> Nil) xs) c s p"
  by (induction xs arbitrary: es) auto

lemma error_texts_Ret:
  "\<forall>e \<in> set es. error_text ft mt e = Ret (f e) \<Longrightarrow> error_texts ft mt es = Ret (map f es)"
  by (induction es) auto

lemma error_text_Multi:
  assumes "\<forall>e \<in> set es. error_text ft mt e = Ret (f e)"
  shows "error_text ft mt (Multi es c s p) =
    Ret (if es = [] then [] else if length es = 1 then f (hd es) else p @ join '','' (map f es))"
proof (cases es)
  case (Cons e es')
  then show ?thesis using assms error_texts_Ret [OF assms] by (cases es') auto
qed simp

text \<open>
  An \<open>Errors\<close> collects what is appended, in order and without the nil errors: it has an error
  exactly when one was appended, and its text is empty, the text of the one error, or the prefix and
  all the texts separated by commas.
\<close>

theorem Errors_collects:
  assumes "\<forall>e \<in> set xs. e \<noteq> Nil \<longrightarrow> error_text ft mt e = Ret (f e)"
  shows "let es = filter (\<lambda>e. e \<noteq> Nil) xs; m = foldl Errors_Append (NewErrors st pre code) xs in
    m = Multi es (first_code code st) st pre \<and> (HasError m \<longleftrightarrow> es \<noteq> []) \<and>
    error_text ft mt m =
      Ret (if es = [] then [] else if length es = 1 then f (hd es) else pre @ join '','' (map f es))"
proof -
  let ?es = "filter (\<lambda>e. e \<noteq> Nil) xs"
  have m: "foldl Errors_Append (NewErrors st pre code) xs = Multi ?es (first_code code st) st pre"
    by (simp add: NewErrors_def foldl_Errors_Append)
  have texts: "\<forall>e \<in> set ?es. error_text ft mt e = Ret (f e)" using assms by simp
  from error_text_Multi [OF texts] show ?thesis by (simp add: m Let_def del: error_text.simps)
qed

theorem Errors_collects_witness:
  "error_text id (\<lambda>m t. m @ t) (foldl Errors_Append (NewErrors 500 ''p:'' []) [Foreign ''a'', Nil, NotFound ''b'']) =
    Ret (''p:a,record not found: b'')"
  using Errors_collects [of "[Foreign ''a'', Nil, NotFound ''b'']" id "\<lambda>m t. m @ t"
      "\<lambda>e. case e of Foreign x \<Rightarrow> x | _ \<Rightarrow> ''record not found: b''" 500 "''p:''" "[]"]
  by (simp add: Let_def)

end
