(* ===== verification/Encoding.thy ===== *)
theory Encoding
  imports Prelude
begin

text \<open>
  The standard-library encodings the cryptographic components use: base64 (the standard alphabet
  without padding characters), two-digit hexadecimal, and big-endian 32-bit integers.
\<close>

section \<open>Base64\<close>

definition b64_table :: string where
  "b64_table = ''ABCDEFGHIJKLMNOPQRSTUVWXYZabcdefghijklmnopqrstuvwxyz0123456789+/''"

definition b64_char :: "nat \<Rightarrow> char" where
  "b64_char n = b64_table ! n"

definition b64_val :: "char \<Rightarrow> nat option" where
  "b64_val c = map_of (zip b64_table [0..<64]) c"

lemma b64_val_char [simp]: "n < 64 \<Longrightarrow> b64_val (b64_char n) = Some n"
proof -
  have "list_all (\<lambda>n. b64_val (b64_char n) = Some n) [0..<64]" by code_simp
  then show "n < 64 \<Longrightarrow> ?thesis" by (simp add: list_all_iff)
qed

definition b64_plain :: "char \<Rightarrow> bool" where
  "b64_plain c = (c \<in> set b64_table)"

lemma b64_char_plain [simp]: "n < 64 \<Longrightarrow> b64_plain (b64_char n)"
proof -
  have "length b64_table = 64" by code_simp
  then show "n < 64 \<Longrightarrow> ?thesis" by (simp add: b64_plain_def b64_char_def)
qed

lemma b64_plain_not:
  "b64_plain c \<Longrightarrow> c \<noteq> CHR ''$'' \<and> c \<noteq> CHR 0x0A \<and> c \<noteq> CHR 0x0D"
  by (auto simp: b64_plain_def b64_table_def)

fun b64_encode :: "bytes \<Rightarrow> string" where
  "b64_encode [] = []"
| "b64_encode [a] = (let n = unat a * 16 in map b64_char [n div 64, n mod 64])"
| "b64_encode [a, b] =
     (let n = (unat a * 256 + unat b) * 4 in map b64_char [n div 64 div 64, n div 64 mod 64, n mod 64])"
| "b64_encode (a # b # c # bs) =
     (let n = (unat a * 256 + unat b) * 256 + unat c
      in map b64_char [n div 64 div 64 div 64, n div 64 div 64 mod 64, n div 64 mod 64, n mod 64] @ b64_encode bs)"

text \<open>The decoder skips line ends and ignores the surplus bits of the last character.\<close>

fun b64_groups :: "nat list \<Rightarrow> bytes option" where
  "b64_groups [] = Some []"
| "b64_groups [x] = None"
| "b64_groups [x, y] = Some [word_of_nat ((x * 64 + y) div 16)]"
| "b64_groups [x, y, z] =
     (let n = ((x * 64 + y) * 64 + z) div 4 in Some [word_of_nat (n div 256), word_of_nat (n mod 256)])"
| "b64_groups (x # y # z # w # vs) =
     (let n = ((x * 64 + y) * 64 + z) * 64 + w
      in map_option (\<lambda>bs. [word_of_nat (n div 256 div 256), word_of_nat (n div 256 mod 256), word_of_nat (n mod 256)] @ bs)
           (b64_groups vs))"

fun opt_all :: "'a option list \<Rightarrow> 'a list option" where
  "opt_all [] = Some []"
| "opt_all (x # xs) = (case x of None \<Rightarrow> None | Some y \<Rightarrow> map_option (\<lambda>ys. y # ys) (opt_all xs))"

definition b64_decode :: "string \<Rightarrow> bytes option" where
  "b64_decode s =
     (case opt_all (map b64_val (filter (\<lambda>c. c \<noteq> CHR 0x0A \<and> c \<noteq> CHR 0x0D) s)) of
        None \<Rightarrow> None | Some vs \<Rightarrow> b64_groups vs)"

lemma unat_byte: "unat (b :: byte) < 256"
  by (rule unat_byte_less)

lemma word_of_unat [simp]: "word_of_nat (unat (b :: byte)) = b"
  by simp

text \<open>The sextets of an encoding.\<close>

fun sextets :: "bytes \<Rightarrow> nat list" where
  "sextets [] = []"
| "sextets [a] = (let n = unat a * 16 in [n div 64, n mod 64])"
| "sextets [a, b] = (let n = (unat a * 256 + unat b) * 4 in [n div 64 div 64, n div 64 mod 64, n mod 64])"
| "sextets (a # b # c # bs) =
     (let n = (unat a * 256 + unat b) * 256 + unat c
      in [n div 64 div 64 div 64, n div 64 div 64 mod 64, n div 64 mod 64, n mod 64] @ sextets bs)"

lemma b64_encode_sextets: "b64_encode bs = map b64_char (sextets bs)"
  by (induction bs rule: b64_encode.induct) (simp_all add: Let_def)

lemma three_bytes:
  "a < 256 \<Longrightarrow> b < 256 \<Longrightarrow> c < 256 \<Longrightarrow> (a * 256 + b) * 256 + c < (64 * 262144 :: nat)"
  by simp

lemma sextets_less: "\<forall>n \<in> set (sextets bs). n < 64"
proof (induction bs rule: sextets.induct)
  case (2 a)
  show ?case using unat_byte [of a] by (auto simp: Let_def)
next
  case (3 a b)
  show ?case using unat_byte [of a] unat_byte [of b] by (auto simp: Let_def simp flip: div_mult2_eq)
next
  case (4 a b c bs)
  have "(unat a * 256 + unat b) * 256 + unat c < 64 * 262144"
    by (rule three_bytes) (rule unat_byte)+
  then show ?case using 4 by (auto simp: Let_def simp flip: div_mult2_eq)
qed simp

lemma rejoin: "(n div k * k + n mod k :: nat) = n"
  by (rule div_mult_mod_eq)

lemma last_byte:
  "b < 256 \<Longrightarrow> ((a :: nat) * 256 + b) div 256 = a" "b < 256 \<Longrightarrow> (a * 256 + b) mod 256 = b"
  by auto

lemma b64_groups_sextets: "b64_groups (sextets bs) = Some bs"
proof (induction bs rule: sextets.induct)
  case (2 a)
  have "b64_groups [n div 64, n mod 64] = Some [word_of_nat (n div 16)]" for n
    by (simp only: b64_groups.simps rejoin)
  from this [of "unat a * 16"] show ?case by (simp only: sextets.simps Let_def) simp
next
  case (3 a b)
  have "b64_groups [n div 64 div 64, n div 64 mod 64, n mod 64] =
      Some [word_of_nat (n div 4 div 256), word_of_nat (n div 4 mod 256)]" for n
    by (simp only: b64_groups.simps rejoin Let_def)
  from this [of "(unat a * 256 + unat b) * 4"] show ?case
    by (simp only: sextets.simps Let_def) (simp add: last_byte unat_byte)
next
  case (4 a b c bs)
  show ?case
    by (simp only: sextets.simps Let_def append.simps b64_groups.simps rejoin 4 [OF refl] last_byte unat_byte)
      simp
qed simp

lemma opt_all_Some: "\<forall>x \<in> set xs. f x = Some (g x) \<Longrightarrow> opt_all (map f xs) = Some (map g xs)"
  by (induction xs) auto

lemma b64_decode_encode [simp]: "b64_decode (b64_encode bs) = Some bs"
proof -
  have plain: "\<forall>c \<in> set (b64_encode bs). b64_plain c"
    using sextets_less [of bs] by (auto simp: b64_encode_sextets)
  then have "filter (\<lambda>c. c \<noteq> CHR 0x0A \<and> c \<noteq> CHR 0x0D) (b64_encode bs) = b64_encode bs"
    using b64_plain_not by (intro filter_True) blast
  moreover have "opt_all (map b64_val (b64_encode bs)) = Some (sextets bs)"
    using sextets_less [of bs] opt_all_Some [of "sextets bs" "b64_val \<circ> b64_char" "\<lambda>n. n"]
    by (simp add: b64_encode_sextets)
  ultimately show ?thesis by (simp add: b64_decode_def b64_groups_sextets)
qed

lemma b64_encode_no_dollar: "CHR ''$'' \<notin> set (b64_encode bs)"
proof
  assume "CHR ''$'' \<in> set (b64_encode bs)"
  then have "b64_plain (CHR ''$'')" using sextets_less [of bs] by (auto simp: b64_encode_sextets)
  then show False using b64_plain_not by blast
qed

lemma length_b64_encode: "length (b64_encode bs) \<ge> length bs"
  by (induction bs rule: b64_encode.induct) (simp_all add: Let_def)

section \<open>Hexadecimal\<close>

definition hex_table :: string where
  "hex_table = ''0123456789abcdef''"

definition hex_byte :: "byte \<Rightarrow> string" where
  "hex_byte b = [hex_table ! (unat b div 16), hex_table ! (unat b mod 16)]"

definition hex_encode :: "bytes \<Rightarrow> string" where
  "hex_encode bs = concat (map hex_byte bs)"

definition hex_val :: "char \<Rightarrow> nat option" where
  "hex_val c = map_of (zip hex_table [0..<16] @ zip ''ABCDEF'' [10..<16]) c"

fun hex_decode :: "string \<Rightarrow> bytes option" where
  "hex_decode [] = Some []"
| "hex_decode [c] = None"
| "hex_decode (c # d # s) =
     (case (hex_val c, hex_val d) of
        (Some x, Some y) \<Rightarrow> map_option (\<lambda>bs. word_of_nat (x * 16 + y) # bs) (hex_decode s)
      | _ \<Rightarrow> None)"

definition upper_char :: "char \<Rightarrow> char" where
  "upper_char c = (if 97 \<le> (of_char c :: nat) \<and> (of_char c :: nat) \<le> 122
     then char_of ((of_char c :: nat) - 32) else c)"

definition to_upper :: "string \<Rightarrow> string" where
  "to_upper s = map upper_char s"

section \<open>Big-endian integers\<close>

definition put_u32 :: "nat \<Rightarrow> bytes" where
  "put_u32 n = [word_of_nat (n div 256 div 256 div 256 mod 256), word_of_nat (n div 256 div 256 mod 256),
     word_of_nat (n div 256 mod 256), word_of_nat (n mod 256)]"

definition get_u32 :: "bytes \<Rightarrow> nat" where
  "get_u32 bs = ((unat (bs ! 0) * 256 + unat (bs ! 1)) * 256 + unat (bs ! 2)) * 256 + unat (bs ! 3)"

lemma get_put_u32:
  assumes "n < 2 ^ 32"
  shows "get_u32 (put_u32 n) = n"
proof -
  have top: "n div 256 div 256 div 256 mod 256 = n div 256 div 256 div 256"
    using assms by (simp flip: div_mult2_eq)
  have u: "unat (word_of_nat (k mod 256) :: byte) = k mod 256" for k
    by (simp add: unat_of_nat)
  have "get_u32 (put_u32 n) =
      ((n div 256 div 256 div 256 mod 256 * 256 + n div 256 div 256 mod 256) * 256 + n div 256 mod 256) * 256 + n mod 256"
    by (simp only: get_u32_def put_u32_def nth_Cons_0 nth_Cons_numeral nth_Cons_Suc One_nat_def u
        numeral_One numeral_2_eq_2 numeral_3_eq_3)
  also have "\<dots> = n" by (simp only: top rejoin)
  finally show ?thesis .
qed

end
