(* ===== verification/Cipher.thy ===== *)
theory Cipher
  imports Encoding
begin

text \<open>
  \<open>safe/encrypt.go\<close>, \<open>safe/hash.go\<close> and \<open>crypto/aes.go\<close>: padded block encryption in cipher block
  chaining mode, and the text format \<open>{CRYPT}$algorithm$arguments$ciphertext\<close>. The block ciphers
  (DES, triple DES, AES, TEA), the random source and SHA-256 are parameters: \<open>prim\<close> gives, for an
  algorithm and a key, the encryption and decryption of one block. The chaining mode, the paddings
  and the encodings are defined.
\<close>

unbundle bit_operations_syntax

section \<open>Block ciphers and chaining\<close>

record block =
  block_size :: nat
  enc_block :: "bytes \<Rightarrow> bytes"
  dec_block :: "bytes \<Rightarrow> bytes"

definition xor_bytes :: "bytes \<Rightarrow> bytes \<Rightarrow> bytes" where
  "xor_bytes xs ys = map2 (\<lambda>x y. x XOR y) xs ys"

lemma xor_bytes_cancel: "length xs = length ys \<Longrightarrow> xor_bytes (xor_bytes xs ys) ys = xs"
  by (induction xs ys rule: list_induct2) (auto simp: xor_bytes_def xor.assoc)

lemma length_xor_bytes [simp]: "length (xor_bytes xs ys) = min (length xs) (length ys)"
  by (simp add: xor_bytes_def)

function cbc_encrypt :: "block \<Rightarrow> bytes \<Rightarrow> bytes \<Rightarrow> bytes" where
  "cbc_encrypt b prev src =
     (if src = [] \<or> block_size b = 0 then []
      else let c = enc_block b (xor_bytes (take (block_size b) src) prev)
           in c @ cbc_encrypt b c (drop (block_size b) src))"
  by auto
termination by (relation "measure (\<lambda>(_, _, src). length src)") auto

function cbc_decrypt :: "block \<Rightarrow> bytes \<Rightarrow> bytes \<Rightarrow> bytes" where
  "cbc_decrypt b prev src =
     (if src = [] \<or> block_size b = 0 then []
      else let c = take (block_size b) src
           in xor_bytes (dec_block b c) prev @ cbc_decrypt b c (drop (block_size b) src))"
  by auto
termination by (relation "measure (\<lambda>(_, _, src). length src)") auto

declare cbc_encrypt.simps [simp del] cbc_decrypt.simps [simp del]

text \<open>\<open>NewCBCEncrypter\<close> and \<open>CryptBlocks\<close> panic on a wrong vector and on an incomplete block.\<close>

definition crypt_blocks :: "(block \<Rightarrow> bytes \<Rightarrow> bytes \<Rightarrow> bytes) \<Rightarrow> block \<Rightarrow> bytes \<Rightarrow> bytes \<Rightarrow> bytes run" where
  "crypt_blocks f b iv src =
     (if length iv \<noteq> block_size b \<or> length src mod block_size b \<noteq> 0 then Panic else Ret (f b iv src))"

definition good_block :: "block \<Rightarrow> bool" where
  "good_block b \<longleftrightarrow> 0 < block_size b \<and> (\<forall>x. length x = block_size b \<longrightarrow>
     length (enc_block b x) = block_size b \<and> length (dec_block b x) = block_size b \<and>
     dec_block b (enc_block b x) = x)"

lemma cbc_steps:
  assumes "0 < block_size b" "length src = Suc k * block_size b"
  shows "length (take (block_size b) src) = block_size b" "length (drop (block_size b) src) = k * block_size b"
    "cbc_encrypt b prev src =
       enc_block b (xor_bytes (take (block_size b) src) prev) @
       cbc_encrypt b (enc_block b (xor_bytes (take (block_size b) src) prev)) (drop (block_size b) src)"
    "cbc_decrypt b prev src =
       xor_bytes (dec_block b (take (block_size b) src)) prev @
       cbc_decrypt b (take (block_size b) src) (drop (block_size b) src)"
proof -
  show "length (take (block_size b) src) = block_size b" "length (drop (block_size b) src) = k * block_size b"
    using assms by simp_all
  have "src \<noteq> []" using assms by auto
  then show "cbc_encrypt b prev src =
       enc_block b (xor_bytes (take (block_size b) src) prev) @
       cbc_encrypt b (enc_block b (xor_bytes (take (block_size b) src) prev)) (drop (block_size b) src)"
    "cbc_decrypt b prev src =
       xor_bytes (dec_block b (take (block_size b) src)) prev @
       cbc_decrypt b (take (block_size b) src) (drop (block_size b) src)"
    using assms(1) by (simp_all add: cbc_encrypt.simps [of b prev src] cbc_decrypt.simps [of b prev src] Let_def)
qed

lemma cbc_Nil [simp]: "cbc_encrypt b prev [] = []" "cbc_decrypt b prev [] = []"
  by (simp_all add: cbc_encrypt.simps [of b prev "[]"] cbc_decrypt.simps [of b prev "[]"])

lemma good_blockD:
  assumes "good_block b" "length x = block_size b"
  shows "length (enc_block b x) = block_size b" "length (dec_block b x) = block_size b"
    "dec_block b (enc_block b x) = x" "0 < block_size b"
  using assms by (simp_all add: good_block_def)

lemma cbc_roundtrip:
  assumes "good_block b" "length iv = block_size b" "length src = k * block_size b"
  shows "cbc_decrypt b iv (cbc_encrypt b iv src) = src \<and> length (cbc_encrypt b iv src) = length src"
  using assms(2,3)
proof (induction k arbitrary: iv src)
  case (Suc k)
  define n where "n = block_size b"
  have n: "0 < n" using assms(1) by (simp add: n_def good_block_def)
  note S = cbc_steps [OF n [unfolded n_def] Suc.prems(2), folded n_def]
  define x where "x = xor_bytes (take n src) iv"
  have x: "length x = n" using S(1) Suc.prems(1) by (simp only: x_def length_xor_bytes n_def min.idem)
  define c where "c = enc_block b x"
  have c: "length c = n" "dec_block b c = x"
    using good_blockD [OF assms(1), of x] x by (simp_all add: c_def n_def)
  define r where "r = cbc_encrypt b c (drop n src)"
  have IH: "cbc_decrypt b c r = drop n src" "length r = length (drop n src)"
    using Suc.IH [of c "drop n src"] S(2) c(1) by (simp_all add: r_def n_def)
  have e: "cbc_encrypt b iv src = c @ r" using S(3) by (simp add: c_def r_def x_def)
  have "length (c @ r) = Suc k * n" using c(1) IH(2) S(2) by simp
  then have "cbc_decrypt b iv (c @ r) = xor_bytes x iv @ cbc_decrypt b c r"
    using cbc_steps(4) [OF n [unfolded n_def], of "c @ r" k iv] c by (simp add: n_def)
  moreover have "xor_bytes x iv = take n src"
    unfolding x_def by (rule xor_bytes_cancel) (use S(1) Suc.prems(1) in \<open>simp only: n_def\<close>)
  ultimately show ?case
    using IH c(1) S(1,2) Suc.prems(2) by (simp add: e n_def)
qed simp

lemma cbc_decrypt_length:
  assumes "good_block b" "length iv = block_size b" "length src = k * block_size b"
  shows "length (cbc_decrypt b iv src) = length src"
  using assms(2,3)
proof (induction k arbitrary: iv src)
  case (Suc k)
  have n: "0 < block_size b" using assms(1) by (simp add: good_block_def)
  note S = cbc_steps [OF n Suc.prems(2)]
  note IH = Suc.IH [OF S(1,2)]
  have "length (xor_bytes (dec_block b (take (block_size b) src)) iv) = block_size b"
    using good_blockD(2) [OF assms(1) S(1)] Suc.prems(1) by (simp only: length_xor_bytes min.idem)
  then show ?case
    by (simp only: S(4) length_append IH S(2) Suc.prems(2) mult_Suc)
qed simp

section \<open>Padding\<close>

text \<open>
  A padding scheme: \<open>pad\<close> fills the data up to whole blocks and gives what \<open>strip\<close> needs to take
  the padding off again. Encryption and decryption of padded data cancel for every such scheme.
\<close>

locale padding_scheme =
  fixes pad :: "nat \<Rightarrow> bytes \<Rightarrow> bytes \<times> 'i" and strip :: "'i \<Rightarrow> bytes \<Rightarrow> bytes run"
  assumes pad_strip: "0 < n \<Longrightarrow> n < 256 \<Longrightarrow> pad n d = (p, i) \<Longrightarrow>
      strip i p = Ret d \<and> (\<exists>k. length p = k * n)"
begin

lemma padded_cbc_roundtrip:
  assumes "good_block b" "block_size b < 256" "length iv = block_size b" "pad (block_size b) d = (p, i)"
  shows "\<exists>c. crypt_blocks cbc_encrypt b iv p = Ret c \<and>
    bind_run (crypt_blocks cbc_decrypt b iv c) (strip i) = Ret d"
proof -
  have n: "0 < block_size b" using assms(1) by (simp add: good_block_def)
  from pad_strip [OF this assms(2,4)] obtain k where k: "strip i p = Ret d" "length p = k * block_size b"
    by blast
  from cbc_roundtrip [OF assms(1,3) k(2)] k assms(3) show ?thesis
    by (simp add: crypt_blocks_def)
qed

end

text \<open>\<open>safe\<close>: the padding length is kept apart; slicing with a negative bound panics.\<close>

definition pkcs5Padding :: "bytes \<Rightarrow> nat \<Rightarrow> bytes \<times> nat" where
  "pkcs5Padding data blockSize =
     (let padding = blockSize - length data mod blockSize;
          slice2 = replicate padding (word_of_nat padding)
      in (data @ slice2, padding))"

definition UnPadding5 :: "nat \<Rightarrow> bytes \<Rightarrow> bytes run" where
  "UnPadding5 paddingLength data =
     (if paddingLength \<le> length data then Ret (take (length data - paddingLength) data) else Panic)"

text \<open>\<open>crypto\<close>: the padding length is the last byte.\<close>

definition pkcs7Padding :: "bytes \<Rightarrow> nat \<Rightarrow> bytes" where
  "pkcs7Padding ciphertext blockSize =
     (let padding = blockSize - length ciphertext mod blockSize;
          padtext = replicate padding (word_of_nat padding)
      in ciphertext @ padtext)"

definition pkcs7UnPadding :: "bytes \<Rightarrow> bytes run" where
  "pkcs7UnPadding origData =
     (if origData = [] then Panic
      else let unpadding = unat (last origData)
           in if unpadding \<le> length origData then Ret (take (length origData - unpadding) origData) else Panic)"

lemma padded_length:
  assumes "0 < n"
  shows "\<exists>k. length (d :: 'a list) + (n - length d mod n) = k * (n :: nat)"
proof -
  define q r where "q = length d div n" and "r = length d mod n"
  have "length d = q * n + r" "r < n" using assms by (simp_all add: q_def r_def)
  then have "length d + (n - r) = (q + 1) * n" by (simp add: algebra_simps)
  then show ?thesis unfolding r_def by blast
qed

interpretation pkcs5: padding_scheme "\<lambda>n d. pkcs5Padding d n" UnPadding5
proof
  fix n :: nat and d p i
  assume "0 < n" "n < 256" "pkcs5Padding d n = (p, i)"
  then show "UnPadding5 i p = Ret d \<and> (\<exists>k. length p = k * n)"
    using padded_length [of n d] by (auto simp: pkcs5Padding_def UnPadding5_def Let_def)
qed

interpretation pkcs7: padding_scheme "\<lambda>n d. (pkcs7Padding d n, ())" "\<lambda>_. pkcs7UnPadding"
proof
  fix n :: nat and d p i
  assume n: "0 < n" "n < 256" and p: "(pkcs7Padding d n, ()) = (p, i)"
  define m where "m = n - length d mod n"
  have m: "0 < m" "m < 256" using n by (auto simp: m_def)
  then have "last p = word_of_nat m" "p \<noteq> []" "length p = length d + m"
    using p by (auto simp: pkcs7Padding_def Let_def m_def)
  moreover have "unat (word_of_nat m :: byte) = m" using m by (simp add: unat_of_nat)
  ultimately show "pkcs7UnPadding p = Ret d \<and> (\<exists>k. length p = k * n)"
    using padded_length [OF n(1), of d] p by (auto simp: pkcs7UnPadding_def pkcs7Padding_def Let_def m_def)
qed

section \<open>Algorithms\<close>

type_synonym prims = "byte \<Rightarrow> bytes \<Rightarrow> (bytes \<Rightarrow> bytes) \<times> (bytes \<Rightarrow> bytes)"

definition Algorithm3DES :: byte where "Algorithm3DES = 0"
definition AlgorithmDES :: byte where "AlgorithmDES = 1"
definition AlgorithmAES :: byte where "AlgorithmAES = 2"
definition AlgorithmTEA :: byte where "AlgorithmTEA = 3"

lemmas algorithm_defs = Algorithm3DES_def AlgorithmDES_def AlgorithmAES_def AlgorithmTEA_def

datatype crypt_error =
    KeySize nat
  | UnknownAlgorithm byte
  | UnknownPadding byte
  | RandomFailed
  | InvalidCiphertext
  | InvalidAlgorithm string
  | UnexpectedEnd
  | InvalidHex
  | InvalidBase64

definition mk_block :: "prims \<Rightarrow> byte \<Rightarrow> bytes \<Rightarrow> nat \<Rightarrow> block" where
  "mk_block prim algo key n =
     \<lparr>block_size = n, enc_block = fst (prim algo key), dec_block = snd (prim algo key)\<rparr>"

text \<open>The packages accept keys of their sizes only.\<close>

definition NewCipher :: "prims \<Rightarrow> byte \<Rightarrow> bytes \<Rightarrow> crypt_error + block" where
  "NewCipher prim algo key =
     (if algo = AlgorithmDES then
        (if length key = 8 then Inr (mk_block prim algo key 8) else Inl (KeySize (length key)))
      else if algo = Algorithm3DES then
        (if length key = 24 then Inr (mk_block prim algo key 8) else Inl (KeySize (length key)))
      else if algo = AlgorithmAES then
        (if length key \<in> {16, 24, 32} then Inr (mk_block prim algo key 16) else Inl (KeySize (length key)))
      else if algo = AlgorithmTEA then
        (if length key = 16 then Inr (mk_block prim algo key 8) else Inl (KeySize (length key)))
      else Inl (UnknownAlgorithm algo))"

definition algo_String :: "byte \<Rightarrow> string" where
  "algo_String algo = to_upper (trim_prefix (hex_encode [algo]) ''0'')"

definition BlockModeCBC :: byte where "BlockModeCBC = 0"
definition PKCS5Padding :: byte where "PKCS5Padding = 0"

text \<open>A block mode other than CBC is a nil interface, and using it a nil dereference.\<close>

definition NewEncrypter :: "byte \<Rightarrow> block \<Rightarrow> bytes \<Rightarrow> (bytes \<Rightarrow> bytes run) option run" where
  "NewEncrypter g b iv =
     (if g = BlockModeCBC then
        (if length iv \<noteq> block_size b then Panic else Ret (Some (crypt_blocks cbc_encrypt b iv)))
      else Ret None)"

definition NewDecrypter :: "byte \<Rightarrow> block \<Rightarrow> bytes \<Rightarrow> (bytes \<Rightarrow> bytes run) option run" where
  "NewDecrypter g b iv =
     (if g = BlockModeCBC then
        (if length iv \<noteq> block_size b then Panic else Ret (Some (crypt_blocks cbc_decrypt b iv)))
      else Ret None)"

definition CryptBlocks :: "(bytes \<Rightarrow> bytes run) option \<Rightarrow> bytes \<Rightarrow> bytes run" where
  "CryptBlocks m src = (case m of None \<Rightarrow> Panic | Some f \<Rightarrow> f src)"

definition Padding :: "byte \<Rightarrow> bytes \<Rightarrow> nat \<Rightarrow> crypt_error + (bytes \<times> nat)" where
  "Padding p data blockSize =
     (if p = PKCS5Padding then Inr (pkcs5Padding data blockSize) else Inl (UnknownPadding p))"

definition UnPadding :: "byte \<Rightarrow> bytes \<Rightarrow> nat \<Rightarrow> (crypt_error + bytes) run" where
  "UnPadding p data paddingLength =
     (if p = PKCS5Padding then map_run Inr (UnPadding5 paddingLength data) else Ret (Inl (UnknownPadding p)))"

section \<open>Options\<close>

record encrypt_options =
  algo :: byte
  mode :: byte
  padding :: byte
  fix_algo :: bool

definition NewEncryptOptions :: "(encrypt_options \<Rightarrow> encrypt_options) list \<Rightarrow> encrypt_options" where
  "NewEncryptOptions ofs = fold (\<lambda>opt o'. opt o')
     ofs \<lparr>algo = Algorithm3DES, mode = BlockModeCBC, padding = PKCS5Padding, fix_algo = False\<rparr>"

definition WithAlgorithm :: "byte \<Rightarrow> encrypt_options \<Rightarrow> encrypt_options" where
  "WithAlgorithm a opt = opt\<lparr>algo := a\<rparr>"

definition WithMode :: "byte \<Rightarrow> encrypt_options \<Rightarrow> encrypt_options" where
  "WithMode m opt = opt\<lparr>mode := m\<rparr>"

definition WithPadding :: "byte \<Rightarrow> encrypt_options \<Rightarrow> encrypt_options" where
  "WithPadding p opt = opt\<lparr>padding := p\<rparr>"

definition WithFixAlgo :: "encrypt_options \<Rightarrow> encrypt_options" where
  "WithFixAlgo opt = opt\<lparr>fix_algo := True\<rparr>"

definition WithoutFixAlgo :: "encrypt_options \<Rightarrow> encrypt_options" where
  "WithoutFixAlgo opt = opt\<lparr>fix_algo := False\<rparr>"

text \<open>\<open>NewHash(sha256.New, data)\<close> is \<open>sha\<close>.\<close>

definition NewHash :: "(bytes \<Rightarrow> bytes) \<Rightarrow> bytes \<Rightarrow> bytes" where
  "NewHash sha data = sha data"

definition HexString :: "bytes \<Rightarrow> int \<Rightarrow> string run" where
  "HexString h n = (let s = hex_encode h in
     if int (length s) > n then (if n < 0 then Panic else Ret (take (nat n) s)) else Ret s)"

definition fixAlgo :: "(bytes \<Rightarrow> bytes) \<Rightarrow> string \<Rightarrow> encrypt_options \<Rightarrow> string \<times> encrypt_options" where
  "fixAlgo sha key opt =
     (if length key = 8 then (key, if algo opt \<noteq> AlgorithmDES then opt\<lparr>algo := AlgorithmDES\<rparr> else opt)
      else if length key = 16 then
        (key, if algo opt \<noteq> AlgorithmAES \<and> algo opt \<noteq> AlgorithmTEA then opt\<lparr>algo := AlgorithmAES\<rparr> else opt)
      else if length key = 24 then
        (key, if algo opt \<noteq> AlgorithmAES \<and> algo opt \<noteq> Algorithm3DES then opt\<lparr>algo := Algorithm3DES\<rparr> else opt)
      else if length key = 32 then (key, if algo opt \<noteq> AlgorithmAES then opt\<lparr>algo := AlgorithmAES\<rparr> else opt)
      else (string_of (NewHash sha (bytes_of key)),
            if algo opt \<noteq> AlgorithmAES then opt\<lparr>algo := AlgorithmAES\<rparr> else opt))"

text \<open>The environment variable is checked when the package is loaded; a wrong size ends the program.\<close>

definition init_ok :: "string \<Rightarrow> bool" where
  "init_ok key = (length key \<in> {0, 8, 16, 24, 32})"

section \<open>Encrypt and Decrypt\<close>

definition ciphertextPrefix :: string where
  "ciphertextPrefix = ''{CRYPT}''"

text \<open>The first five argument bytes are masked with the vector, when it is long enough.\<close>

definition mask_args :: "bytes \<Rightarrow> bytes \<Rightarrow> bytes" where
  "mask_args iv args = (if length iv \<ge> 5 then xor_bytes (take 5 iv) (take 5 args) @ drop 5 args else args)"

text \<open>
  The result and the options afterwards (\<open>fixAlgo\<close> writes to them); \<open>rand n\<close> are \<open>n\<close> random bytes,
  or \<open>None\<close> when the source fails.
\<close>

definition Encrypt :: "prims \<Rightarrow> (bytes \<Rightarrow> bytes) \<Rightarrow> (nat \<Rightarrow> bytes option) \<Rightarrow> bytes \<Rightarrow> string \<Rightarrow>
    encrypt_options option \<Rightarrow> (crypt_error + string) run \<times> encrypt_options option" where
  "Encrypt prim sha rand originalBytes key0 o0 =
     (let o1 = (case o0 of None \<Rightarrow> NewEncryptOptions [WithFixAlgo] | Some opt \<Rightarrow> opt);
          (key, o2) = (if fix_algo o1 then fixAlgo sha key0 o1 else (key0, o1))
      in (case NewCipher prim (algo o2) (bytes_of key) of
            Inl err \<Rightarrow> Ret (Inl err)
          | Inr blk \<Rightarrow>
              (case Padding (padding o2) originalBytes (block_size blk) of
                 Inl err \<Rightarrow> Ret (Inl err)
               | Inr (paddingBytes, paddingLength) \<Rightarrow>
                   (case rand (block_size blk) of
                      None \<Rightarrow> Ret (Inl RandomFailed)
                    | Some iv \<Rightarrow>
                        let args = mask_args iv ((push_bit 4 (mode o2) OR padding o2) # put_u32 paddingLength) @ iv
                        in bind_run (NewEncrypter (mode o2) blk iv) (\<lambda>blockMode.
                           bind_run (CryptBlocks blockMode paddingBytes) (\<lambda>cipherBytes.
                           Ret (Inr (ciphertextPrefix @ ''$'' @ algo_String (algo o2) @ ''$'' @ b64_encode args @ ''$'' @
                             b64_encode cipherBytes)))))),
          map_option (\<lambda>_. o2) o0))"

text \<open>\<open>buf.ReadString('$')\<close>: the text before the delimiter and what is left, or an error.\<close>

definition read_field :: "string \<Rightarrow> crypt_error + (string \<times> string)" where
  "read_field s = (case str_cut (CHR ''$'') s of (a, b, found) \<Rightarrow> if found then Inr (a, b) else Inl UnexpectedEnd)"

definition decode_algo :: "string \<Rightarrow> (crypt_error + byte) run" where
  "decode_algo algoStr =
     (if length algoStr + 1 < 1 \<or> length algoStr + 1 > 3 then Ret (Inl (InvalidAlgorithm algoStr))
      else let s = (if length algoStr = 1 then ''0'' @ algoStr else algoStr)
           in case hex_decode s of
                None \<Rightarrow> Ret (Inl InvalidHex)
              | Some [] \<Rightarrow> Panic
              | Some (a # _) \<Rightarrow> Ret (Inr a))"

text \<open>From the decoded arguments on: mode and padding of the first byte, the length of the padding.\<close>

definition open_body :: "block \<Rightarrow> bytes \<Rightarrow> string \<Rightarrow> (crypt_error + bytes) run" where
  "open_body blk args0 s =
     (if length args0 < 5 then Panic
      else let iv = drop 5 args0;
               args = mask_args iv args0;
               md = drop_bit 4 (args ! 0); pad = args ! 0 AND 0x0F
           in case b64_decode s of
                None \<Rightarrow> Ret (Inl InvalidBase64)
              | Some cipherBytes \<Rightarrow>
                  bind_run (NewDecrypter md blk iv) (\<lambda>blockMode.
                  bind_run (CryptBlocks blockMode cipherBytes) (\<lambda>paddingBytes.
                  UnPadding pad paddingBytes (get_u32 (take 4 (drop 1 args))))))"

definition Decrypt :: "prims \<Rightarrow> (bytes \<Rightarrow> bytes) \<Rightarrow> string \<Rightarrow> string \<Rightarrow> (crypt_error + bytes) run" where
  "Decrypt prim sha cipherString key0 =
     (let key = (if length key0 \<in> {8, 16, 24, 32} then key0 else string_of (NewHash sha (bytes_of key0)))
      in if length cipherString \<le> length ciphertextPrefix + 5 then Ret (Inl InvalidCiphertext)
         else if \<not> has_prefix cipherString ciphertextPrefix \<or>
           cipherString ! length ciphertextPrefix \<noteq> CHR ''$'' then Ret (Inl InvalidCiphertext)
         else case read_field (drop (length ciphertextPrefix + 1) cipherString) of
           Inl err \<Rightarrow> Ret (Inl err)
         | Inr (algoStr, rest) \<Rightarrow>
             bind_run (decode_algo algoStr) (\<lambda>r. case r of
               Inl err \<Rightarrow> Ret (Inl err)
             | Inr alg \<Rightarrow>
                 (case NewCipher prim alg (bytes_of key) of
                    Inl err \<Rightarrow> Ret (Inl err)
                  | Inr blk \<Rightarrow>
                      (case read_field rest of
                         Inl err \<Rightarrow> Ret (Inl err)
                       | Inr (argStr, s) \<Rightarrow>
                           (case b64_decode argStr of
                              None \<Rightarrow> Ret (Inl InvalidBase64)
                            | Some args \<Rightarrow> open_body blk args s)))))"

section \<open>What is encrypted is decrypted\<close>

definition good_prims :: "prims \<Rightarrow> bool" where
  "good_prims prim \<longleftrightarrow> (\<forall>a key n. n \<in> {8, 16} \<longrightarrow> good_block (mk_block prim a key n))"

lemma NewCipher_Inr:
  assumes "NewCipher prim a key = Inr blk"
  shows "a \<in> {0, 1, 2, 3} \<and> length key \<in> {8, 16, 24, 32} \<and> (\<exists>n. n \<in> {8, 16} \<and> blk = mk_block prim a key n)"
  using assms by (auto simp: NewCipher_def algorithm_defs split: if_splits)

lemma NewCipher_good:
  "good_prims prim \<Longrightarrow> NewCipher prim a key = Inr blk \<Longrightarrow>
    good_block blk \<and> block_size blk < 256 \<and> 5 \<le> block_size blk"
  by (auto dest!: NewCipher_Inr simp: good_prims_def) (auto simp: mk_block_def)

lemma algo_String_decode:
  assumes "a \<in> {0, 1, 2, 3}"
  shows "\<exists>d. algo_String a = [d] \<and> d \<noteq> CHR ''$'' \<and> decode_algo [d] = Ret (Inr a)"
proof -
  have "algo_String 0 = ''0''" "algo_String 1 = ''1''" "algo_String 2 = ''2''" "algo_String 3 = ''3''"
    by code_simp+
  moreover have "decode_algo ''0'' = Ret (Inr 0)" "decode_algo ''1'' = Ret (Inr 1)"
    "decode_algo ''2'' = Ret (Inr 2)" "decode_algo ''3'' = Ret (Inr 3)"
    by code_simp+
  ultimately show ?thesis using assms by auto
qed

definition crypt_text :: "byte \<Rightarrow> bytes \<Rightarrow> bytes \<Rightarrow> string" where
  "crypt_text a args c =
     ciphertextPrefix @ ''$'' @ algo_String a @ ''$'' @ b64_encode args @ ''$'' @ b64_encode c"

definition effective_key :: "(bytes \<Rightarrow> bytes) \<Rightarrow> string \<Rightarrow> bytes" where
  "effective_key sha key = (if length key \<in> {8, 16, 24, 32} then bytes_of key else sha (bytes_of key))"

lemma Decrypt_crypt_text:
  assumes "a \<in> {0, 1, 2, 3}" "5 \<le> length args"
  shows "Decrypt prim sha (crypt_text a args c) key =
    (case NewCipher prim a (effective_key sha key) of
       Inl err \<Rightarrow> Ret (Inl err) | Inr blk \<Rightarrow> open_body blk args (b64_encode c))"
proof -
  obtain d where d: "algo_String a = [d]" "d \<noteq> CHR ''$''" "decode_algo [d] = Ret (Inr a)"
    using algo_String_decode [OF assms(1)] by blast
  define rest where "rest = b64_encode args @ CHR ''$'' # b64_encode c"
  have t: "crypt_text a args c = ciphertextPrefix @ CHR ''$'' # d # CHR ''$'' # rest"
    by (simp add: crypt_text_def d rest_def)
  have "length args \<le> length (b64_encode args)" by (rule length_b64_encode)
  then have len: "5 \<le> length rest" using assms(2) by (simp add: rest_def)
  have f1: "read_field (d # CHR ''$'' # rest) = Inr ([d], rest)"
    using d(2) str_cut_found [of "CHR ''$''" "[d]" rest] by (simp add: read_field_def)
  have f2: "read_field rest = Inr (b64_encode args, b64_encode c)"
    using str_cut_found [OF b64_encode_no_dollar] by (simp add: read_field_def rest_def)
  have key: "bytes_of (if length key \<in> {8, 16, 24, 32} then key else string_of (NewHash sha (bytes_of key))) =
      effective_key sha key"
    by (simp add: effective_key_def NewHash_def)
  show ?thesis
    unfolding Decrypt_def Let_def key t
    using len by (simp add: f1 f2 d(3) nth_append split: sum.split)
qed

lemma open_body_masked:
  assumes "5 \<le> length iv" "length iv = block_size blk" "n < 2 ^ 32"
  shows "open_body blk (mask_args iv (0 # put_u32 n) @ iv) (b64_encode c) =
    bind_run (crypt_blocks cbc_decrypt blk iv c) (\<lambda>p. map_run Inr (UnPadding5 n p))"
proof -
  let ?A = "0 # put_u32 n"
  have A: "length ?A = 5" by (simp add: put_u32_def)
  have m: "mask_args iv ?A = xor_bytes (take 5 iv) ?A" "length (mask_args iv ?A) = 5"
    using A assms(1) by (simp_all add: mask_args_def)
  have x: "xor_bytes (take 5 iv) (xor_bytes (take 5 iv) ?A) = ?A"
    using A assms(1) by (simp add: xor_bytes_def list_eq_iff_nth_eq flip: xor.assoc)
  have "mask_args iv (M @ iv) = ?A @ iv" if "length M = 5" "xor_bytes (take 5 iv) M = ?A" for M
    using assms(1) that by (simp add: mask_args_def)
  then have "mask_args iv (mask_args iv ?A @ iv) = ?A @ iv"
    using m x by simp
  then show ?thesis
    using m assms(2) get_put_u32 [OF assms(3)]
    by (simp add: open_body_def Let_def NewDecrypter_def BlockModeCBC_def CryptBlocks_def UnPadding_def
        PKCS5Padding_def put_u32_def [of n])
qed

text \<open>What a successful encryption has made.\<close>

lemma Encrypt_text:
  assumes "fst (Encrypt prim sha rand data key opt) = Ret (Inr s)" "\<forall>x. length (sha x) = 32"
  shows "\<exists>a blk iv c. NewCipher prim a (effective_key sha key) = Inr blk \<and> rand (block_size blk) = Some iv \<and>
    s = crypt_text a (mask_args iv (0 # put_u32 (snd (pkcs5Padding data (block_size blk)))) @ iv) c \<and>
    crypt_blocks cbc_encrypt blk iv (fst (pkcs5Padding data (block_size blk))) = Ret c"
proof -
  define o1 where "o1 = (case opt of None \<Rightarrow> NewEncryptOptions [WithFixAlgo] | Some opt \<Rightarrow> opt)"
  obtain k o2 where k: "(if fix_algo o1 then fixAlgo sha key o1 else (key, o1)) = (k, o2)"
    by (cases "if fix_algo o1 then fixAlgo sha key o1 else (key, o1)") auto
  have E: "fst (Encrypt prim sha rand data key opt) =
      (case NewCipher prim (algo o2) (bytes_of k) of
            Inl err \<Rightarrow> Ret (Inl err)
          | Inr blk \<Rightarrow>
              (case Padding (padding o2) data (block_size blk) of
                 Inl err \<Rightarrow> Ret (Inl err)
               | Inr (paddingBytes, paddingLength) \<Rightarrow>
                   (case rand (block_size blk) of
                      None \<Rightarrow> Ret (Inl RandomFailed)
                    | Some iv \<Rightarrow>
                        let args = mask_args iv ((push_bit 4 (mode o2) OR padding o2) # put_u32 paddingLength) @ iv
                        in bind_run (NewEncrypter (mode o2) blk iv) (\<lambda>blockMode.
                           bind_run (CryptBlocks blockMode paddingBytes) (\<lambda>cipherBytes.
                           Ret (Inr (crypt_text (algo o2) args cipherBytes)))))))"
    unfolding Encrypt_def Let_def o1_def [symmetric] k fst_conv prod.case crypt_text_def by (rule refl)
  from assms(1) obtain blk where blk: "NewCipher prim (algo o2) (bytes_of k) = Inr blk"
    unfolding E by (auto split: sum.splits)
  have pad: "padding o2 = PKCS5Padding"
    using assms(1) blk unfolding E by (auto simp: Padding_def split: if_splits)
  obtain iv where iv: "rand (block_size blk) = Some iv"
    using assms(1) blk pad unfolding E by (auto simp: Padding_def split: prod.splits option.splits)
  have md: "mode o2 = BlockModeCBC"
    using assms(1) blk pad iv unfolding E
    by (auto simp: Padding_def Let_def NewEncrypter_def CryptBlocks_def split: prod.splits if_splits)
  have "bytes_of k = effective_key sha key"
  proof (cases "fix_algo o1")
    case True
    with k show ?thesis by (auto simp: fixAlgo_def effective_key_def NewHash_def split: if_splits)
  next
    case False
    with k have "k = key" by simp
    then show ?thesis using NewCipher_Inr [OF blk] by (simp add: effective_key_def)
  qed
  moreover obtain p n where p: "pkcs5Padding data (block_size blk) = (p, n)" by (cases "pkcs5Padding data (block_size blk)") auto
  moreover obtain c where "crypt_blocks cbc_encrypt blk iv p = Ret c"
    "s = crypt_text (algo o2) (mask_args iv (0 # put_u32 n) @ iv) c"
    using assms(1) blk pad iv md p unfolding E
    by (auto simp: Padding_def Let_def NewEncrypter_def CryptBlocks_def bind_run_Ret_conv PKCS5Padding_def
        BlockModeCBC_def split: if_splits)
  ultimately show ?thesis
    using blk iv p by (intro exI [of _ "algo o2"] exI [of _ blk] exI [of _ iv] exI [of _ c]) simp
qed

lemma Decrypt_Encrypt_lemma:
  assumes "good_prims prim" "\<forall>x. length (sha x) = 32" "\<forall>n bs. rand n = Some bs \<longrightarrow> length bs = n"
    "fst (Encrypt prim sha rand data key opt) = Ret (Inr s)"
  shows "Decrypt prim sha s key = Ret (Inr data)"
proof -
  obtain a blk iv c where E: "NewCipher prim a (effective_key sha key) = Inr blk" "rand (block_size blk) = Some iv"
    "s = crypt_text a (mask_args iv (0 # put_u32 (snd (pkcs5Padding data (block_size blk)))) @ iv) c"
    "crypt_blocks cbc_encrypt blk iv (fst (pkcs5Padding data (block_size blk))) = Ret c"
    using Encrypt_text [OF assms(4,2)] by blast
  obtain p n where p: "pkcs5Padding data (block_size blk) = (p, n)" by (cases "pkcs5Padding data (block_size blk)") auto
  have g: "good_block blk" "block_size blk < 256" "5 \<le> block_size blk" using NewCipher_good [OF assms(1) E(1)] by auto
  have iv: "length iv = block_size blk" using assms(3) E(2) by blast
  have n: "n < 2 ^ 32" using p g(2) by (auto simp: pkcs5Padding_def Let_def)
  have a: "a \<in> {0, 1, 2, 3}" using NewCipher_Inr [OF E(1)] by blast
  have "bind_run (crypt_blocks cbc_decrypt blk iv c) (UnPadding5 n) = Ret data"
    using pkcs5.padded_cbc_roundtrip [OF g(1,2) iv p] E(4) p by simp
  then have "bind_run (crypt_blocks cbc_decrypt blk iv c) (\<lambda>p. map_run Inr (UnPadding5 n p)) =
      Ret (Inr data :: crypt_error + bytes)"
    by (auto simp: bind_run_Ret_conv)
  then show ?thesis
    using Decrypt_crypt_text [OF a, of "mask_args iv (0 # put_u32 n) @ iv"] open_body_masked [OF _ iv n] E(1,3) g(3) iv p
    by simp
qed

lemma good_prims_example: "good_prims (\<lambda>_ _. (\<lambda>b. b, \<lambda>b. b))"
  by (auto simp: good_prims_def good_block_def mk_block_def)

lemma Encrypt_no_options:
  assumes "\<forall>x. length (sha x) = 32" "\<forall>n. \<exists>bs. rand n = Some bs \<and> length bs = n"
  shows "\<exists>s. Encrypt prim sha rand data key None = (Ret (Inr s), None)"
proof -
  obtain k opt where k: "fixAlgo sha key (NewEncryptOptions [WithFixAlgo]) = (k, opt)"
    by (cases "fixAlgo sha key (NewEncryptOptions [WithFixAlgo])") auto
  then have o2: "mode opt = BlockModeCBC" "padding opt = PKCS5Padding"
    by (auto simp: fixAlgo_def NewEncryptOptions_def WithFixAlgo_def split: if_splits)
  obtain blk where blk: "NewCipher prim (algo opt) (bytes_of k) = Inr blk" "0 < block_size blk"
    using k assms(1) by (auto simp: fixAlgo_def NewEncryptOptions_def WithFixAlgo_def NewCipher_def
        algorithm_defs NewHash_def mk_block_def split: if_splits)
  obtain iv where iv: "rand (block_size blk) = Some iv" "length iv = block_size blk" using assms(2) by blast
  obtain p n where p: "pkcs5Padding data (block_size blk) = (p, n)" by (cases "pkcs5Padding data (block_size blk)") auto
  have "length p mod block_size blk = 0"
    using p padded_length [OF blk(2), of data] by (auto simp: pkcs5Padding_def Let_def)
  then show ?thesis
    using k blk iv p o2
    by (simp add: Encrypt_def Let_def NewEncryptOptions_def WithFixAlgo_def Padding_def NewEncrypter_def
        CryptBlocks_def crypt_blocks_def)
qed

text \<open>
  C5: Whatever \<open>Encrypt\<close> returns, under any options, \<open>Decrypt\<close> with the same key turns back into the
  data, given block ciphers that invert themselves, a random source that fills the vector and a hash
  of 32 bytes.
\<close>

theorem Decrypt_Encrypt:
  assumes "good_prims prim" "\<forall>x. length (sha x) = 32" "\<forall>n bs. rand n = Some bs \<longrightarrow> length bs = n"
    "fst (Encrypt prim sha rand data key opt) = Ret (Inr s)"
  shows "Decrypt prim sha s key = Ret (Inr data)"
  using assms by (rule Decrypt_Encrypt_lemma)

theorem Decrypt_Encrypt_witness:
  "\<exists>s. Encrypt (\<lambda>_ _. (\<lambda>b. b, \<lambda>b. b)) (\<lambda>_. replicate 32 0) (\<lambda>n. Some (replicate n 7)) [1, 2, 3] ''secret'' None =
      (Ret (Inr s), None) \<and>
    Decrypt (\<lambda>_ _. (\<lambda>b. b, \<lambda>b. b)) (\<lambda>_. replicate 32 0) s ''secret'' = Ret (Inr [1, 2, 3])"
proof -
  let ?sha = "\<lambda>_ :: bytes. replicate 32 (0 :: byte)" and ?rand = "\<lambda>n. Some (replicate n (7 :: byte))"
  let ?prim = "(\<lambda>_ _. (\<lambda>b. b, \<lambda>b. b)) :: prims"
  obtain s where "Encrypt ?prim ?sha ?rand [1, 2, 3] ''secret'' None = (Ret (Inr s), None)"
    using Encrypt_no_options [of ?sha ?rand ?prim "[1, 2, 3]" "''secret''"] by auto
  with Decrypt_Encrypt [OF good_prims_example, of ?sha ?rand "[1, 2, 3]" "''secret''" None s] show ?thesis
    by auto
qed

text \<open>
  Without options \<open>Encrypt\<close> succeeds for every key, of any length, and every data, whenever the
  random source works: \<open>fixAlgo\<close> picks an algorithm the key, or its hash, fits.
\<close>

theorem Encrypt_default_succeeds:
  assumes "\<forall>x. length (sha x) = 32" "\<forall>n. \<exists>bs. rand n = Some bs \<and> length bs = n"
  shows "\<exists>s. Encrypt prim sha rand data key None = (Ret (Inr s), None)"
  using assms by (rule Encrypt_no_options)

theorem Encrypt_default_succeeds_witness:
  "\<exists>s. Encrypt (\<lambda>_ _. (\<lambda>b. b, \<lambda>b. b)) (\<lambda>_. replicate 32 0) (\<lambda>n. Some (replicate n 7)) [1] ''k'' None = (Ret (Inr s), None)"
  using Encrypt_default_succeeds [of "\<lambda>_. replicate 32 0" "\<lambda>n. Some (replicate n 7)" "\<lambda>_ _. (\<lambda>b. b, \<lambda>b. b)" "[1]" "''k''"] by simp

text \<open>
  Decryption does not notice a wrong key: with any other key the algorithm accepts, \<open>Decrypt\<close>
  returns bytes of the same number, and no error.
\<close>

theorem Decrypt_wrong_key_not_noticed:
  assumes "good_prims prim" "\<forall>x. length (sha x) = 32" "\<forall>n bs. rand n = Some bs \<longrightarrow> length bs = n"
    "fst (Encrypt prim sha rand data key opt) = Ret (Inr s)"
    "length (effective_key sha key2) = length (effective_key sha key)"
  shows "\<exists>d. Decrypt prim sha s key2 = Ret (Inr d) \<and> length d = length data"
proof -
  obtain a blk iv c where E: "NewCipher prim a (effective_key sha key) = Inr blk" "rand (block_size blk) = Some iv"
    "s = crypt_text a (mask_args iv (0 # put_u32 (snd (pkcs5Padding data (block_size blk)))) @ iv) c"
    "crypt_blocks cbc_encrypt blk iv (fst (pkcs5Padding data (block_size blk))) = Ret c"
    using Encrypt_text [OF assms(4,2)] by blast
  obtain p n where p: "pkcs5Padding data (block_size blk) = (p, n)" by (cases "pkcs5Padding data (block_size blk)") auto
  have g: "good_block blk" "block_size blk < 256" "5 \<le> block_size blk" using NewCipher_good [OF assms(1) E(1)] by auto
  have iv: "length iv = block_size blk" using assms(3) E(2) by blast
  have n: "n < 2 ^ 32" using p g(2) by (auto simp: pkcs5Padding_def Let_def)
  have a: "a \<in> {0, 1, 2, 3}" using NewCipher_Inr [OF E(1)] by blast
  obtain blk2 where blk2: "NewCipher prim a (effective_key sha key2) = Inr blk2" "block_size blk2 = block_size blk"
    using E(1) assms(5) by (auto simp: NewCipher_def mk_block_def split: if_splits)
  have g2: "good_block blk2" using NewCipher_good [OF assms(1) blk2(1)] by auto
  obtain k where k: "length p = k * block_size blk" "length p = length data + n"
    using p padded_length [of "block_size blk" data] g by (auto simp: pkcs5Padding_def Let_def)
  have "c = cbc_encrypt blk iv p" using E(4) p by (simp add: crypt_blocks_def split: if_splits)
  then have c: "length c = length p" using cbc_roundtrip [OF g(1) iv k(1)] by simp
  have dl: "k * block_size blk - n = length data" "n \<le> k * block_size blk" using k by simp_all
  from c have "length (cbc_decrypt blk2 iv c) = length p"
    using cbc_decrypt_length [OF g2, of iv c k] iv blk2(2) k(1) by simp
  then have "bind_run (crypt_blocks cbc_decrypt blk2 iv c) (\<lambda>p. map_run Inr (UnPadding5 n p)) =
      Ret (Inr (take (length data) (cbc_decrypt blk2 iv c)) :: crypt_error + bytes)"
    using iv blk2(2) c k(1) dl by (simp add: crypt_blocks_def UnPadding5_def)
  moreover have "Decrypt prim sha s key2 =
      bind_run (crypt_blocks cbc_decrypt blk2 iv c) (\<lambda>p. map_run Inr (UnPadding5 n p))"
    using Decrypt_crypt_text [OF a, of "mask_args iv (0 # put_u32 n) @ iv"] open_body_masked [OF _ _ n, of iv blk2]
      E(3) blk2 g(3) iv p by simp
  ultimately show ?thesis
    using \<open>length (cbc_decrypt blk2 iv c) = length p\<close> k(2) by simp
qed

theorem Decrypt_wrong_key_not_noticed_witness:
  "\<exists>s d. Encrypt (\<lambda>_ _. (\<lambda>b. b, \<lambda>b. b)) (\<lambda>_. replicate 32 0) (\<lambda>n. Some (replicate n 7)) [1, 2, 3] ''secret'' None =
      (Ret (Inr s), None) \<and>
    Decrypt (\<lambda>_ _. (\<lambda>b. b, \<lambda>b. b)) (\<lambda>_. replicate 32 0) s ''other'' = Ret (Inr d) \<and> length d = 3"
proof -
  let ?sha = "\<lambda>_ :: bytes. replicate 32 (0 :: byte)" and ?rand = "\<lambda>n. Some (replicate n (7 :: byte))"
  let ?prim = "(\<lambda>_ _. (\<lambda>b. b, \<lambda>b. b)) :: prims"
  obtain s where "Encrypt ?prim ?sha ?rand [1, 2, 3] ''secret'' None = (Ret (Inr s), None)"
    using Encrypt_no_options [of ?sha ?rand ?prim "[1, 2, 3]" "''secret''"] by auto
  with Decrypt_wrong_key_not_noticed [OF good_prims_example, of ?sha ?rand "[1, 2, 3]" "''secret''" None s "''other''"]
  show ?thesis by (auto simp: effective_key_def)
qed

text \<open>
  Texts that only look like a ciphertext make \<open>Decrypt\<close> panic: an empty algorithm field is
  accepted and indexed, and the five argument bytes are sliced off without a check of their number.
\<close>

theorem Decrypt_panics_on_malformed:
  "Decrypt prim sha ''{CRYPT}$$AAAAA'' key = Panic \<and>
   Decrypt prim sha ''{CRYPT}$2$AAAA$AAAA'' ''0123456789abcdef'' = Panic"
proof -
  have "hex_decode ''02'' = Some [2]" "b64_decode ''AAAA'' = Some [0, 0, 0]" by code_simp+
  then show ?thesis
    by (auto simp: Decrypt_def ciphertextPrefix_def read_field_def decode_algo_def NewCipher_def algorithm_defs
        open_body_def)
qed

section \<open>The AES helper of the crypto package\<close>

record aes_cipher =
  aes_err :: "crypt_error option"
  aes_block :: block
  aes_key :: bytes

definition NewAESCipher :: "prims \<Rightarrow> bytes \<Rightarrow> aes_cipher" where
  "NewAESCipher prim key = (case NewCipher prim AlgorithmAES key of
     Inl e \<Rightarrow> \<lparr>aes_err = Some e, aes_block = mk_block prim AlgorithmAES key 0, aes_key = key\<rparr>
   | Inr b \<Rightarrow> \<lparr>aes_err = None, aes_block = b, aes_key = key\<rparr>)"

definition CBCEncrypt :: "aes_cipher \<Rightarrow> bytes \<Rightarrow> (crypt_error + bytes) run" where
  "CBCEncrypt c origData = (case aes_err c of
     Some e \<Rightarrow> Ret (Inl e)
   | None \<Rightarrow>
       let blockSize = block_size (aes_block c); origData = pkcs7Padding origData blockSize
       in if blockSize > length (aes_key c) then Panic
          else map_run Inr (crypt_blocks cbc_encrypt (aes_block c) (take blockSize (aes_key c)) origData))"

definition CBCDecrypt :: "aes_cipher \<Rightarrow> bytes \<Rightarrow> (crypt_error + bytes) run" where
  "CBCDecrypt c crytedByte = (case aes_err c of
     Some e \<Rightarrow> Ret (Inl e)
   | None \<Rightarrow>
       let blockSize = block_size (aes_block c)
       in if blockSize > length (aes_key c) then Panic
          else bind_run (crypt_blocks cbc_decrypt (aes_block c) (take blockSize (aes_key c)) crytedByte) (\<lambda>orig.
               map_run Inr (pkcs7UnPadding orig)))"

text \<open>
  With a key of an AES size \<open>CBCEncrypt\<close> of any data succeeds and \<open>CBCDecrypt\<close> gives the data
  back; with another size both return the error of the key and neither panics.
\<close>

theorem AESCipher_roundtrip:
  assumes "good_prims prim"
  shows "if length key \<in> {16, 24, 32}
    then \<exists>c. CBCEncrypt (NewAESCipher prim key) d = Ret (Inr c) \<and> CBCDecrypt (NewAESCipher prim key) c = Ret (Inr d)
    else CBCEncrypt (NewAESCipher prim key) d = Ret (Inl (KeySize (length key))) \<and>
      CBCDecrypt (NewAESCipher prim key) d = Ret (Inl (KeySize (length key)))"
proof (cases "length key \<in> {16, 24, 32}")
  case True
  let ?b = "mk_block prim AlgorithmAES key 16"
  have c: "NewAESCipher prim key = \<lparr>aes_err = None, aes_block = ?b, aes_key = key\<rparr>"
    using True by (auto simp: NewAESCipher_def NewCipher_def algorithm_defs)
  have g: "good_block ?b" using assms by (simp add: good_prims_def)
  have s: "block_size ?b = 16" by (simp add: mk_block_def)
  have k: "16 \<le> length key" using True by auto
  from pkcs7.padded_cbc_roundtrip [OF g, of "take 16 key" d] k s obtain c where
    "crypt_blocks cbc_encrypt ?b (take 16 key) (pkcs7Padding d 16) = Ret c"
    "bind_run (crypt_blocks cbc_decrypt ?b (take 16 key) c) pkcs7UnPadding = Ret d" by auto
  with True k s show ?thesis
    by (auto simp: c CBCEncrypt_def CBCDecrypt_def Let_def bind_run_Ret_conv)
next
  case False
  then show ?thesis
    by (auto simp: NewAESCipher_def NewCipher_def algorithm_defs CBCEncrypt_def CBCDecrypt_def)
qed

theorem AESCipher_roundtrip_witness:
  "\<exists>c. CBCEncrypt (NewAESCipher (\<lambda>_ _. (\<lambda>b. b, \<lambda>b. b)) (replicate 16 1)) [5] = Ret (Inr c) \<and>
    CBCDecrypt (NewAESCipher (\<lambda>_ _. (\<lambda>b. b, \<lambda>b. b)) (replicate 16 1)) c = Ret (Inr [5])"
  using AESCipher_roundtrip [OF good_prims_example, of "replicate 16 1" "[5]"] by simp

end
