(* ===== verification/Safe_String.thy ===== *)
theory Safe_String
  imports Cipher
begin

text \<open>
  \<open>safe/string.go\<close>: a configuration string that is kept encrypted when there is a secret, its own or
  the one of the environment. The decoders of JSON, YAML and mapstructure hand over the decoded text
  or their error.
\<close>

record crypto =
  prim :: prims
  sha :: "bytes \<Rightarrow> bytes"
  rand :: "nat \<Rightarrow> bytes option"
  env_secret :: string

record safe_string =
  val_of :: string
  secret_of :: string

definition enc :: "crypto \<Rightarrow> string \<Rightarrow> string \<Rightarrow> (crypt_error + string) run" where
  "enc cx plain key = fst (Encrypt (prim cx) (sha cx) (rand cx) (bytes_of plain) key None)"

definition encrypted :: "string \<Rightarrow> bool" where
  "encrypted s = has_prefix s ciphertextPrefix"

definition str_Reset :: "safe_string \<Rightarrow> safe_string" where
  "str_Reset e = \<lparr>val_of = [], secret_of = []\<rparr>"

definition getSecret :: "crypto \<Rightarrow> safe_string \<Rightarrow> string" where
  "getSecret cx e = (if secret_of e \<noteq> [] then secret_of e else env_secret cx)"

definition str_String :: "crypto \<Rightarrow> safe_string \<Rightarrow> (string \<times> safe_string) run" where
  "str_String cx e =
     (if val_of e = [] then Ret ([], e)
      else if \<not> encrypted (val_of e) \<and> getSecret cx e \<noteq> [] then
        bind_run (enc cx (val_of e) (secret_of e)) (\<lambda>r. case r of
          Inr v \<Rightarrow> Ret (v, e\<lparr>val_of := v\<rparr>)
        | Inl err \<Rightarrow> Ret (val_of e, e))
      else Ret (val_of e, e))"

definition str_MarshalJSON :: "(string \<Rightarrow> 'j) \<Rightarrow> crypto \<Rightarrow> safe_string \<Rightarrow> 'j run" where
  "str_MarshalJSON to_json cx e = map_run (\<lambda>(s, e'). to_json s) (str_String cx e)"

text \<open>The common part of the decoders: the new value is encrypted with the secret in force.\<close>

definition seal_value :: "crypto \<Rightarrow> safe_string \<Rightarrow> (crypt_error option \<times> safe_string) run" where
  "seal_value cx e =
     (if \<not> encrypted (val_of e) \<and> getSecret cx e \<noteq> [] then
        bind_run (enc cx (val_of e) (getSecret cx e)) (\<lambda>r. case r of
          Inl err \<Rightarrow> Ret (Some err, e\<lparr>val_of := []\<rparr>)
        | Inr v \<Rightarrow> Ret (None, e\<lparr>val_of := v, secret_of := getSecret cx e\<rparr>))
      else Ret (None, e))"

definition str_UnmarshalJSON ::
  "crypto \<Rightarrow> safe_string \<Rightarrow> 'j + string \<Rightarrow> (('j + crypt_error) option \<times> safe_string) run" where
  "str_UnmarshalJSON cx e decoded = (case decoded of
     Inl err \<Rightarrow> Ret (Some (Inl err), e)
   | Inr v \<Rightarrow> map_run (\<lambda>(err, e). (map_option Inr err, e)) (seal_value cx (e\<lparr>val_of := v\<rparr>)))"

definition str_UnmarshalYAML ::
  "crypto \<Rightarrow> safe_string \<Rightarrow> 'j + string \<Rightarrow> (('j + crypt_error) option \<times> safe_string) run" where
  "str_UnmarshalYAML cx e decoded = (case decoded of
     Inl err \<Rightarrow> Ret (Some (Inl err), e)
   | Inr v \<Rightarrow> map_run (\<lambda>(err, e). (map_option Inr err, e)) (seal_value cx (e\<lparr>val_of := v\<rparr>)))"

definition UnsafeString :: "crypto \<Rightarrow> safe_string \<Rightarrow> (crypt_error + string) run" where
  "UnsafeString cx e =
     (if val_of e = [] then Ret (Inr [])
      else if encrypted (val_of e) \<and> getSecret cx e \<noteq> [] then
        map_run (map_sum id string_of) (Decrypt (prim cx) (sha cx) (val_of e) (getSecret cx e))
      else Ret (Inr (val_of e)))"

definition str_Size :: "safe_string \<Rightarrow> int" where
  "str_Size e = int (length (val_of e))"

definition SetValue :: "crypto \<Rightarrow> safe_string \<Rightarrow> string \<Rightarrow> (crypt_error option \<times> safe_string) run" where
  "SetValue cx e v =
     (if \<not> encrypted v \<and> getSecret cx e \<noteq> [] \<and> v \<noteq> [] then
        let e1 = e\<lparr>secret_of := getSecret cx e\<rparr> in
        bind_run (enc cx v (secret_of e1)) (\<lambda>r. case r of
          Inl err \<Rightarrow> Ret (Some err, e1\<lparr>val_of := []\<rparr>)
        | Inr c \<Rightarrow> Ret (None, e1\<lparr>val_of := c\<rparr>))
      else Ret (None, e\<lparr>val_of := v\<rparr>))"

definition UpdateSecret :: "crypto \<Rightarrow> safe_string \<Rightarrow> string \<Rightarrow> safe_string run" where
  "UpdateSecret cx e secret =
     bind_run (UnsafeString cx e) (\<lambda>r. case r of
       Inl err \<Rightarrow> Ret e
     | Inr plain \<Rightarrow>
         bind_run
           (if length secret \<noteq> 0 then
              map_run (\<lambda>r. case r of Inr safeString \<Rightarrow> e\<lparr>val_of := safeString\<rparr> | Inl _ \<Rightarrow> e) (enc cx plain secret)
            else Ret e)
           (\<lambda>e. Ret (e\<lparr>secret_of := secret\<rparr>)))"

definition SetSecret :: "safe_string \<Rightarrow> string \<Rightarrow> safe_string" where
  "SetSecret e secret = e\<lparr>secret_of := secret\<rparr>"

datatype 'v scan_value = ScanBytes bytes | ScanString string | ScanOther 'v

definition Scan :: "safe_string \<Rightarrow> 'v scan_value \<Rightarrow> 'v option \<times> safe_string" where
  "Scan e v = (case v of
     ScanBytes vt \<Rightarrow> (None, e\<lparr>val_of := string_of vt\<rparr>)
   | ScanString vt \<Rightarrow> (None, e\<lparr>val_of := vt\<rparr>)
   | ScanOther x \<Rightarrow> (Some x, e))"

definition str_Value :: "safe_string \<Rightarrow> string" where
  "str_Value e = val_of e"

definition str_Equal :: "crypto \<Rightarrow> safe_string \<Rightarrow> safe_string \<Rightarrow> bool run" where
  "str_Equal cx e n =
     bind_run (UnsafeString cx e) (\<lambda>r. case r of
       Inl _ \<Rightarrow> Ret False
     | Inr plain \<Rightarrow>
         bind_run (UnsafeString cx n) (\<lambda>r. case r of
           Inl _ \<Rightarrow> Ret False
         | Inr plain2 \<Rightarrow> Ret (plain = plain2)))"

definition NewEncryptedString :: "crypto \<Rightarrow> string \<Rightarrow> string \<Rightarrow> safe_string run" where
  "NewEncryptedString cx plain secret =
     (if \<not> encrypted plain \<and> length secret > 0 then
        map_run (\<lambda>r. case r of
            Inr safeString \<Rightarrow> \<lparr>val_of = safeString, secret_of = secret\<rparr>
          | Inl _ \<Rightarrow> \<lparr>val_of = plain, secret_of = secret\<rparr>) (enc cx plain secret)
      else Ret \<lparr>val_of = plain, secret_of = secret\<rparr>)"

text \<open>
  The decode hook: \<open>from_string\<close> and \<open>to_String\<close> are the tests of the two reflected types; data that
  is not for the hook is passed on.
\<close>

definition SafeStringHookFunc :: "crypto \<Rightarrow> bool \<Rightarrow> bool \<Rightarrow> string \<Rightarrow>
    (string + (crypt_error option \<times> safe_string)) run" where
  "SafeStringHookFunc cx from_string to_String data =
     (if \<not> from_string then Ret (Inl data)
      else if to_String then
        let dt0 = \<lparr>val_of = data, secret_of = []\<rparr>; dt = dt0\<lparr>secret_of := getSecret cx dt0\<rparr> in
        map_run (\<lambda>(err, e). Inr (err, if err = None then e else \<lparr>val_of = [], secret_of = []\<rparr>)) (seal_value cx dt)
      else Ret (Inl data))"

section \<open>Every way in keeps the plain text\<close>

definition good_crypto :: "crypto \<Rightarrow> bool" where
  "good_crypto cx \<longleftrightarrow> good_prims (prim cx) \<and> (\<forall>x. length (sha cx x) = 32) \<and>
     (\<forall>n bs. rand cx n = Some bs \<longrightarrow> length bs = n)"

lemma enc_dec:
  "good_crypto cx \<Longrightarrow> enc cx p key = Ret (Inr v) \<Longrightarrow>
    Decrypt (prim cx) (sha cx) v key = Ret (Inr (bytes_of p))"
  unfolding good_crypto_def enc_def by (rule Decrypt_Encrypt_lemma) auto

lemma enc_encrypted:
  assumes "good_crypto cx" "enc cx p key = Ret (Inr v)"
  shows "encrypted v \<and> v \<noteq> []"
  using Encrypt_text [OF assms(2) [unfolded enc_def]] assms(1)
  by (auto simp: good_crypto_def crypt_text_def encrypted_def ciphertextPrefix_def)

text \<open>
  A way to make a \<open>String\<close> from a text: what it makes reads back as the text. Two of them on the same
  secret and environment are equal exactly when the texts are.
\<close>

locale sealing =
  fixes mk :: "crypto \<Rightarrow> string \<Rightarrow> (crypt_error option \<times> safe_string) run"
  assumes mk_plain: "good_crypto cx \<Longrightarrow> \<not> encrypted p \<Longrightarrow> mk cx p = Ret (None, e) \<Longrightarrow> UnsafeString cx e = Ret (Inr p)"
begin

lemma mk_Equal:
  assumes "good_crypto cx" "\<not> encrypted p" "mk cx p = Ret (None, e)" "UnsafeString cx e2 = Ret (Inr q)"
  shows "str_Equal cx e e2 = Ret (p = q)"
  using mk_plain [OF assms(1-3)] assms(4) by (simp add: str_Equal_def)

end

lemma UnsafeString_sealed:
  assumes "good_crypto cx" "enc cx p (getSecret cx e) = Ret (Inr v)" "val_of e = v" "getSecret cx e \<noteq> []"
  shows "UnsafeString cx e = Ret (Inr p)"
  using enc_dec [OF assms(1,2)] enc_encrypted [OF assms(1,2)] assms(3,4) by (simp add: UnsafeString_def)

lemma UnsafeString_plain: "\<not> encrypted (val_of e) \<Longrightarrow> UnsafeString cx e = Ret (Inr (val_of e))"
  by (simp add: UnsafeString_def)

lemma getSecret_simps [simp]:
  "getSecret cx (e\<lparr>val_of := v\<rparr>) = getSecret cx e"
  "getSecret cx (e\<lparr>secret_of := s\<rparr>) = (if s \<noteq> [] then s else env_secret cx)"
  "getSecret cx \<lparr>val_of = v, secret_of = s\<rparr> = (if s \<noteq> [] then s else env_secret cx)"
  by (simp_all add: getSecret_def)

lemma seal_value_plain:
  assumes "good_crypto cx" "\<not> encrypted (val_of e)" "seal_value cx e = Ret (None, e')"
  shows "UnsafeString cx e' = Ret (Inr (val_of e))"
proof (cases "getSecret cx e = []")
  case True
  with assms show ?thesis by (auto simp: seal_value_def UnsafeString_plain)
next
  case False
  with assms obtain v where v: "enc cx (val_of e) (getSecret cx e) = Ret (Inr v)"
    "e' = e\<lparr>val_of := v, secret_of := getSecret cx e\<rparr>"
    by (auto simp: seal_value_def bind_run_Ret_conv split: sum.splits) (metis sum.exhaust)
  with False show ?thesis
    by (intro UnsafeString_sealed [OF assms(1), of "val_of e" e' v]) simp_all
qed

interpretation new_string: sealing "\<lambda>cx p. map_run (\<lambda>e. (None, e)) (NewEncryptedString cx p secret)" for secret
proof
  fix cx p e
  assume g: "good_crypto cx" and p: "\<not> encrypted p" and
    mk: "map_run (\<lambda>e. (None, e)) (NewEncryptedString cx p secret) = Ret (None :: crypt_error option, e)"
  then have n: "NewEncryptedString cx p secret = Ret e" by (cases "NewEncryptedString cx p secret") auto
  show "UnsafeString cx e = Ret (Inr p)"
  proof (cases "secret = []")
    case True
    with n p show ?thesis by (auto simp: NewEncryptedString_def UnsafeString_plain)
  next
    case False
    with n p obtain r where r: "enc cx p secret = Ret r" by (cases "enc cx p secret") (auto simp: NewEncryptedString_def)
    show ?thesis
    proof (cases r)
      case (Inl x)
      with n p r False show ?thesis by (auto simp: NewEncryptedString_def UnsafeString_plain)
    next
      case (Inr v)
      with n p r False have "e = \<lparr>val_of = v, secret_of = secret\<rparr>" by (auto simp: NewEncryptedString_def)
      with False r Inr show ?thesis by (intro UnsafeString_sealed [OF g, of p e v]) simp_all
    qed
  qed
qed

interpretation set_value: sealing "\<lambda>cx p. SetValue cx e0 p" for e0
proof
  fix cx p e
  assume g: "good_crypto cx" and p: "\<not> encrypted p" and mk: "SetValue cx e0 p = Ret (None, e)"
  show "UnsafeString cx e = Ret (Inr p)"
  proof (cases "getSecret cx e0 \<noteq> [] \<and> p \<noteq> []")
    case True
    with mk p obtain v where v: "enc cx p (getSecret cx e0) = Ret (Inr v)"
      "e = e0\<lparr>secret_of := getSecret cx e0, val_of := v\<rparr>"
      by (auto simp: SetValue_def Let_def bind_run_Ret_conv split: sum.splits) (metis sum.exhaust)
    with True show ?thesis by (intro UnsafeString_sealed [OF g, of p e v]) simp_all
  next
    case False
    with mk p show ?thesis by (auto simp: SetValue_def UnsafeString_plain)
  qed
qed

interpretation from_json: sealing "\<lambda>cx p. map_run (\<lambda>(err, e). (map_option projr err, e)) (str_UnmarshalJSON cx e0 (Inr p :: unit + string))" for e0
proof
  fix cx p e
  assume g: "good_crypto cx" and p: "\<not> encrypted p" and
    mk: "map_run (\<lambda>(err, e). (map_option projr err, e)) (str_UnmarshalJSON cx e0 (Inr p :: unit + string)) = Ret (None, e)"
  then have "seal_value cx (e0\<lparr>val_of := p\<rparr>) = Ret (None, e)"
    by (cases "seal_value cx (e0\<lparr>val_of := p\<rparr>)") (auto simp: str_UnmarshalJSON_def)
  from seal_value_plain [OF g _ this] p show "UnsafeString cx e = Ret (Inr p)" by simp
qed

text \<open>
  C6: A text that does not start with the ciphertext mark reads back unchanged through \<open>UnsafeString\<close>
  from a \<open>NewEncryptedString\<close>, after a \<open>SetValue\<close> and after \<open>UnmarshalJSON\<close>, with any secret, its own
  or of the environment, or none; \<open>Equal\<close> compares the plain texts of two of them.
\<close>

theorem String_keeps_plain:
  assumes "good_crypto cx" "\<not> encrypted p"
  shows "(NewEncryptedString cx p secret = Ret e \<longrightarrow> UnsafeString cx e = Ret (Inr p)) \<and>
    (SetValue cx e0 p = Ret (None, e) \<longrightarrow> UnsafeString cx e = Ret (Inr p)) \<and>
    (str_UnmarshalJSON cx e0 (Inr p :: unit + string) = Ret (None, e) \<longrightarrow> UnsafeString cx e = Ret (Inr p)) \<and>
    (\<not> encrypted q \<longrightarrow> SetValue cx e0 p = Ret (None, e) \<longrightarrow> NewEncryptedString cx q secret = Ret e2 \<longrightarrow>
      str_Equal cx e e2 = Ret (p = q))"
proof (intro conjI impI)
  show "UnsafeString cx e = Ret (Inr p)" if "NewEncryptedString cx p secret = Ret e"
    by (rule new_string.mk_plain [OF assms, of secret]) (simp add: that)
  show "UnsafeString cx e = Ret (Inr p)" if "SetValue cx e0 p = Ret (None, e)"
    using that by (rule set_value.mk_plain [OF assms])
  show "UnsafeString cx e = Ret (Inr p)" if "str_UnmarshalJSON cx e0 (Inr p :: unit + string) = Ret (None, e)"
    by (rule from_json.mk_plain [OF assms, of e0]) (simp add: that)
  show "str_Equal cx e e2 = Ret (p = q)"
    if "\<not> encrypted q" "SetValue cx e0 p = Ret (None, e)" "NewEncryptedString cx q secret = Ret e2"
  proof (rule set_value.mk_Equal [OF assms that(2)])
    show "UnsafeString cx e2 = Ret (Inr q)"
      by (rule new_string.mk_plain [OF assms(1) that(1), of secret]) (simp add: that)
  qed
qed

definition example_crypto :: "string \<Rightarrow> crypto" where
  "example_crypto secret = \<lparr>prim = (\<lambda>_ _. (\<lambda>b. b, \<lambda>b. b)), sha = (\<lambda>_. replicate 32 0),
     rand = (\<lambda>n. Some (replicate n 7)), env_secret = secret\<rparr>"

lemma example_crypto_good: "good_crypto (example_crypto s)"
  using good_prims_example by (simp add: good_crypto_def example_crypto_def)

lemma example_enc: "\<exists>v. enc (example_crypto s) p key = Ret (Inr v)"
  using Encrypt_no_options [of "sha (example_crypto s)" "rand (example_crypto s)" "prim (example_crypto s)" "bytes_of p" key]
  by (auto simp: enc_def example_crypto_def)

theorem String_keeps_plain_witness:
  "\<exists>e. NewEncryptedString (example_crypto []) ''pw'' ''key'' = Ret e \<and>
    UnsafeString (example_crypto []) e = Ret (Inr ''pw'')"
proof -
  have p: "\<not> encrypted ''pw''" by (simp add: encrypted_def ciphertextPrefix_def)
  obtain v where "enc (example_crypto []) ''pw'' ''key'' = Ret (Inr v)" using example_enc by blast
  then have "NewEncryptedString (example_crypto []) ''pw'' ''key'' = Ret \<lparr>val_of = v, secret_of = ''key''\<rparr>"
    using p by (simp add: NewEncryptedString_def)
  with String_keeps_plain [OF example_crypto_good p] show ?thesis by blast
qed

text \<open>
  \<open>String\<close> does not use the secret it has looked up: with the secret of the environment the value
  it shows, and stores, is encrypted under the empty key, so that everybody can decrypt it.
\<close>

theorem String_encrypts_with_empty_key:
  assumes "good_crypto cx" "secret_of e = []" "env_secret cx \<noteq> []" "val_of e \<noteq> []" "\<not> encrypted (val_of e)"
    "enc cx (val_of e) [] = Ret (Inr v)"
  shows "str_String cx e = Ret (v, e\<lparr>val_of := v\<rparr>) \<and>
    Decrypt (prim cx) (sha cx) v [] = Ret (Inr (bytes_of (val_of e)))"
  using assms enc_dec [OF assms(1,6)] by (simp add: str_String_def getSecret_def)

theorem String_encrypts_with_empty_key_witness:
  "\<exists>v. str_String (example_crypto ''0123456789abcdef'') \<lparr>val_of = ''pw'', secret_of = []\<rparr> =
      Ret (v, \<lparr>val_of = v, secret_of = []\<rparr>) \<and>
    Decrypt (prim (example_crypto ''0123456789abcdef'')) (sha (example_crypto ''0123456789abcdef'')) v [] =
      Ret (Inr (bytes_of ''pw''))"
proof -
  let ?cx = "example_crypto ''0123456789abcdef''" and ?e = "\<lparr>val_of = ''pw'', secret_of = []\<rparr> :: safe_string"
  obtain v where v: "enc ?cx ''pw'' [] = Ret (Inr v)" using example_enc by blast
  show ?thesis
    using String_encrypts_with_empty_key [OF example_crypto_good, of ?e "''0123456789abcdef''" v] v
    by (simp add: encrypted_def ciphertextPrefix_def) (simp add: example_crypto_def)
qed

text \<open>
  \<open>UpdateSecret\<close> with a new secret keeps the plain text; with the empty secret it keeps the old
  ciphertext and forgets the key, and when the environment has no secret either, \<open>UnsafeString\<close>
  then takes the ciphertext for the plain text.
\<close>

theorem UpdateSecret_keeps_plain:
  assumes "good_crypto cx" "UnsafeString cx e = Ret (Inr p)" "enc cx p s = Ret (Inr v)"
  shows "(s \<noteq> [] \<longrightarrow> (\<exists>e'. UpdateSecret cx e s = Ret e' \<and> secret_of e' = s \<and> UnsafeString cx e' = Ret (Inr p))) \<and>
    (\<exists>e'. UpdateSecret cx e [] = Ret e' \<and> val_of e' = val_of e \<and>
      (env_secret cx = [] \<longrightarrow> UnsafeString cx e' = Ret (Inr (val_of e))))"
proof -
  have "UnsafeString cx (e\<lparr>val_of := v, secret_of := s\<rparr>) = Ret (Inr p)" if "s \<noteq> []"
    using that assms(3) by (intro UnsafeString_sealed [OF assms(1), of p _ v]) simp_all
  then show ?thesis
    using assms(2,3) by (auto simp: UpdateSecret_def UnsafeString_def)
qed

theorem UpdateSecret_keeps_plain_witness:
  "\<exists>e'. UpdateSecret (example_crypto []) \<lparr>val_of = ''pw'', secret_of = []\<rparr> ''key'' = Ret e' \<and>
    UnsafeString (example_crypto []) e' = Ret (Inr ''pw'')"
proof -
  let ?e = "\<lparr>val_of = ''pw'', secret_of = []\<rparr> :: safe_string"
  have "UnsafeString (example_crypto []) ?e = Ret (Inr ''pw'')"
    by (simp add: UnsafeString_def encrypted_def ciphertextPrefix_def)
  moreover obtain v where "enc (example_crypto []) ''pw'' ''key'' = Ret (Inr v)" using example_enc by blast
  ultimately show ?thesis
    using UpdateSecret_keeps_plain [OF example_crypto_good, of "[]" ?e "''pw''" "''key''" v] by auto
qed

end
