(* ===== verification/Signals.thy ===== *)
theory Signals
  imports Prelude "HOL-Library.Multiset"
begin

text \<open>
  \<open>signals/signal.go\<close>: the shutdown handler. Its operations act on a handler with a wait-group counter
  per level, the functions to run before the stop at each of the 32 levels, and a mutex. \<open>safeStop\<close> is
  a step relation: it spawns the functions of a level, which end in any order, waits for the wait
  group of the level, and goes on with the level below; requests of other goroutines come and go in
  between, and the timer may end the process at any moment.
\<close>

section \<open>The handler\<close>

definition LevelRoot :: nat where "LevelRoot = 0"
definition LevelTrace :: nat where "LevelTrace = 5"
definition LevelDB :: nat where "LevelDB = 10"
definition LevelRequest :: nat where "LevelRequest = 20"
definition LevelMax :: nat where "LevelMax = 31"

record 'f handler =
  stopCh_closed :: bool
  wg :: "nat \<Rightarrow> int"
  preStopFuncs :: "'f list list"
  mux_held :: bool

definition new_handler :: "'f handler" where
  "new_handler = \<lparr>stopCh_closed = False, wg = (\<lambda>_. 0), preStopFuncs = replicate (LevelMax + 1) [], mux_held = False\<rparr>"

text \<open>The program's handler is made once; \<open>SignalHandler\<close> before that panics.\<close>

definition SetupSignalHandler :: "'f handler option \<Rightarrow> 'f handler option" where
  "SetupSignalHandler stopHandler = (case stopHandler of None \<Rightarrow> Some new_handler | Some h \<Rightarrow> Some h)"

definition SignalHandler :: "'f handler option \<Rightarrow> 'f handler run" where
  "SignalHandler stopHandler = (case stopHandler of None \<Rightarrow> Panic | Some h \<Rightarrow> Ret h)"

text \<open>A wait group that was never used counts 0; one that goes below 0 panics.\<close>

definition AddFor :: "'f handler \<Rightarrow> nat \<Rightarrow> int \<Rightarrow> 'f handler run" where
  "AddFor s level delta =
     (if wg s level + delta < 0 then Panic else Ret (s\<lparr>wg := (wg s)(level := wg s level + delta)\<rparr>))"

definition DoneFor :: "'f handler \<Rightarrow> nat \<Rightarrow> 'f handler run" where
  "DoneFor s level = AddFor s level (- 1)"

text \<open>\<open>Wait\<close> returns when the counter is 0.\<close>

definition WaitFor_returns :: "'f handler \<Rightarrow> nat \<Rightarrow> bool" where
  "WaitFor_returns s level = (wg s level = 0)"

definition AddRequest :: "'f handler \<Rightarrow> int \<Rightarrow> 'f handler run" where
  "AddRequest s delta = AddFor s LevelRequest delta"

definition DoneRequest :: "'f handler \<Rightarrow> 'f handler run" where
  "DoneRequest s = DoneFor s LevelRequest"

definition Add :: "'f handler \<Rightarrow> int \<Rightarrow> 'f handler run" where
  "Add s delta = AddFor s LevelRoot delta"

definition Done :: "'f handler \<Rightarrow> 'f handler run" where
  "Done s = DoneFor s LevelRoot"

text \<open>\<open>PreStop\<close>, once it has the mutex.\<close>

definition PreStop :: "'f handler \<Rightarrow> nat \<Rightarrow> 'f \<Rightarrow> 'f handler run" where
  "PreStop s level f =
     (if level > LevelMax then Panic
      else if level < length (preStopFuncs s) then
        Ret (s\<lparr>preStopFuncs := (preStopFuncs s)[level := preStopFuncs s ! level @ [f]]\<rparr>)
      else Panic)"

definition handler_ok :: "'f handler \<Rightarrow> bool" where
  "handler_ok s \<longleftrightarrow> length (preStopFuncs s) = LevelMax + 1 \<and> (\<forall>l. 0 \<le> wg s l)"

lemma handler_ok_new: "handler_ok new_handler"
  by (simp add: handler_ok_def new_handler_def)

lemma AddFor_ok: "handler_ok s \<Longrightarrow> AddFor s l d = Ret s' \<Longrightarrow> handler_ok s' \<and> preStopFuncs s' = preStopFuncs s"
  by (auto simp: AddFor_def handler_ok_def split: if_splits)

text \<open>
  On a well-formed handler \<open>PreStop\<close> panics exactly for a level above 31; otherwise the function is
  the last one of its level, the other levels and the counters are as before, and the handler stays
  well-formed.
\<close>

theorem PreStop_registers:
  assumes "handler_ok s"
  shows "if level > LevelMax then PreStop s level f = Panic
    else \<exists>s'. PreStop s level f = Ret s' \<and> handler_ok s' \<and> preStopFuncs s' ! level = preStopFuncs s ! level @ [f] \<and>
      (\<forall>l. l = level \<or> preStopFuncs s' ! l = preStopFuncs s ! l) \<and> wg s' = wg s"
  using assms by (auto simp: PreStop_def handler_ok_def) (metis nth_list_update_neq)

theorem PreStop_registers_witness:
  "\<exists>s'. PreStop (new_handler :: nat handler) 10 7 = Ret s' \<and> preStopFuncs s' ! 10 = [7]"
  using PreStop_registers [OF handler_ok_new, of 10 "7 :: nat"] by (auto simp: LevelMax_def new_handler_def)

section \<open>The stop\<close>

text \<open>
  Where \<open>safeStop\<close> is: not started; at a level, with the functions that have not returned yet; waiting
  for the wait group of a level; at its end; the process has ended by the timer; or it has panicked.
\<close>

datatype 'f phase = Idle | Running nat "'f list" | Waiting nat | Stopped | TimedOut | Broken

record 'f system =
  hdl :: "'f handler"
  phase :: "'f phase"
  finished :: "(nat \<times> 'f) list"

inductive stop_step :: "'f system \<Rightarrow> 'f system \<Rightarrow> bool" where
  start: "phase s = Idle \<Longrightarrow> \<not> mux_held (hdl s) \<Longrightarrow> \<not> stopCh_closed (hdl s) \<Longrightarrow>
    stop_step s (s\<lparr>hdl := (hdl s)\<lparr>stopCh_closed := True, mux_held := True\<rparr>,
      phase := Running (length (preStopFuncs (hdl s)) - 1)
        (preStopFuncs (hdl s) ! (length (preStopFuncs (hdl s)) - 1))\<rparr>)"
| close_twice: "phase s = Idle \<Longrightarrow> \<not> mux_held (hdl s) \<Longrightarrow> stopCh_closed (hdl s) \<Longrightarrow>
    stop_step s (s\<lparr>phase := Broken\<rparr>)"
| finish: "phase s = Running lvl fs \<Longrightarrow> f \<in> set fs \<Longrightarrow>
    stop_step s (s\<lparr>phase := Running lvl (remove1 f fs), finished := finished s @ [(lvl, f)]\<rparr>)"
| all_finished: "phase s = Running lvl [] \<Longrightarrow> stop_step s (s\<lparr>phase := Waiting lvl\<rparr>)"
| next_level: "phase s = Waiting (Suc lvl) \<Longrightarrow> WaitFor_returns (hdl s) (Suc lvl) \<Longrightarrow>
    stop_step s (s\<lparr>phase := Running lvl (preStopFuncs (hdl s) ! lvl)\<rparr>)"
| exit: "phase s = Waiting 0 \<Longrightarrow> WaitFor_returns (hdl s) 0 \<Longrightarrow> stop_step s (s\<lparr>phase := Stopped\<rparr>)"
| timeout: "phase s \<noteq> Idle \<Longrightarrow> phase s \<noteq> Stopped \<Longrightarrow> stop_step s (s\<lparr>phase := TimedOut\<rparr>)"
| request: "AddFor (hdl s) lvl delta = Ret h \<Longrightarrow> stop_step s (s\<lparr>hdl := h\<rparr>)"
| pre_stop: "\<not> mux_held (hdl s) \<Longrightarrow> PreStop (hdl s) lvl f = Ret h \<Longrightarrow> stop_step s (s\<lparr>hdl := h\<rparr>)"

inductive reachable :: "'f handler \<Rightarrow> 'f system \<Rightarrow> bool" for h0 where
  init: "reachable h0 \<lparr>hdl = h0, phase = Idle, finished = []\<rparr>"
| step: "reachable h0 s \<Longrightarrow> stop_step s s' \<Longrightarrow> reachable h0 s'"

text \<open>The functions of the levels from \<open>l\<close> on, each with its level.\<close>

definition jobs_from :: "'f list list \<Rightarrow> nat \<Rightarrow> (nat \<times> 'f) multiset" where
  "jobs_from P l = (\<Sum>k \<in> {l..<length P}. image_mset (Pair k) (mset (P ! k)))"

lemma jobs_from_Suc: "l < length P \<Longrightarrow> jobs_from P l = image_mset (Pair l) (mset (P ! l)) + jobs_from P (Suc l)"
  by (simp add: jobs_from_def sum.atLeast_Suc_lessThan)

lemma jobs_from_end [simp]: "jobs_from P (length P) = {#}"
  by (simp add: jobs_from_def)

text \<open>The levels of what has run never go up again.\<close>

definition descending :: "(nat \<times> 'f) list \<Rightarrow> bool" where
  "descending evs \<longleftrightarrow> sorted_wrt (\<lambda>x y. fst y \<le> fst x) evs"

definition stop_inv :: "'f system \<Rightarrow> bool" where
  "stop_inv s \<longleftrightarrow> handler_ok (hdl s) \<and> descending (finished s) \<and>
     (let P = preStopFuncs (hdl s); evs = finished s in
      case phase s of
        Idle \<Rightarrow> evs = [] \<and> \<not> mux_held (hdl s) \<and> \<not> stopCh_closed (hdl s)
      | Running l fs \<Rightarrow> l < length P \<and> mset evs + image_mset (Pair l) (mset fs) = jobs_from P l \<and>
          (\<forall>e \<in> set evs. l \<le> fst e) \<and> mux_held (hdl s)
      | Waiting l \<Rightarrow> l < length P \<and> mset evs = jobs_from P l \<and> (\<forall>e \<in> set evs. l \<le> fst e) \<and> mux_held (hdl s)
      | Stopped \<Rightarrow> mset evs = jobs_from P 0 \<and> mux_held (hdl s)
      | TimedOut \<Rightarrow> True
      | Broken \<Rightarrow> False)"

lemma PreStop_ok: "handler_ok s \<Longrightarrow> PreStop s l f = Ret s' \<Longrightarrow>
    handler_ok s' \<and> mux_held s' = mux_held s \<and> stopCh_closed s' = stopCh_closed s"
  by (auto simp: PreStop_def handler_ok_def split: if_splits)

lemma AddFor_frame: "AddFor s l d = Ret s' \<Longrightarrow>
    preStopFuncs s' = preStopFuncs s \<and> mux_held s' = mux_held s \<and> stopCh_closed s' = stopCh_closed s"
  by (auto simp: AddFor_def split: if_splits)

lemma jobs_split:
  "f \<in> set fs \<Longrightarrow> mset evs + image_mset (Pair l) (mset fs) =
     mset (evs @ [(l, f)]) + image_mset (Pair l) (mset (remove1 f fs))"
  by (simp add: image_mset_Diff)

lemma descending_snoc: "descending evs \<Longrightarrow> \<forall>e \<in> set evs. l \<le> fst e \<Longrightarrow> descending (evs @ [(l, f)])"
  by (auto simp: descending_def sorted_wrt_append)

lemmas inv_defs = stop_inv_def Let_def handler_ok_def WaitFor_returns_def

lemma stop_inv_init: "handler_ok h \<Longrightarrow> \<not> mux_held h \<Longrightarrow> \<not> stopCh_closed h \<Longrightarrow>
    stop_inv \<lparr>hdl = h, phase = Idle, finished = []\<rparr>"
  by (simp add: stop_inv_def descending_def Let_def)

lemma stop_inv_handler:
  assumes "stop_inv s" "handler_ok h" "mux_held h = mux_held (hdl s)" "stopCh_closed h = stopCh_closed (hdl s)"
    "preStopFuncs h = preStopFuncs (hdl s) \<or> \<not> mux_held (hdl s)"
  shows "stop_inv (s\<lparr>hdl := h\<rparr>)"
  using assms by (cases "phase s") (auto simp: stop_inv_def Let_def)

lemma stop_inv_step: "stop_step s s' \<Longrightarrow> stop_inv s \<Longrightarrow> stop_inv s'"
proof (induction rule: stop_step.induct)
  case (start s)
  have "length (preStopFuncs (hdl s)) = Suc LevelMax" using start by (simp add: stop_inv_def handler_ok_def)
  with start show ?case
    by (simp add: stop_inv_def Let_def handler_ok_def descending_def jobs_from_Suc [of LevelMax])
      (metis jobs_from_end)
next
  case (finish s lvl fs f)
  then have d: "descending (finished s @ [(lvl, f)])" by (auto simp: stop_inv_def Let_def intro: descending_snoc)
  show ?case
    using finish d jobs_split [of f fs "finished s" lvl] by (auto simp: stop_inv_def Let_def)
next
  case (next_level s lvl)
  then show ?case by (auto simp: stop_inv_def Let_def jobs_from_Suc [of lvl])
next
  case (request s lvl delta h)
  then show ?case
    using AddFor_ok [of "hdl s" lvl delta h] AddFor_frame [of "hdl s" lvl delta h]
    by (intro stop_inv_handler) (auto simp: stop_inv_def)
next
  case (pre_stop s lvl f h)
  then show ?case
    using PreStop_ok [of "hdl s" lvl f h] by (intro stop_inv_handler) (auto simp: stop_inv_def)
qed (auto simp: stop_inv_def Let_def)

lemma reachable_inv:
  assumes "reachable h0 s" "handler_ok h0" "\<not> mux_held h0" "\<not> stopCh_closed h0"
  shows "stop_inv s"
  using assms by (induction rule: reachable.induct) (auto intro: stop_inv_init stop_inv_step)

text \<open>What is registered when the stop begins, or before it, runs; and higher levels run first.\<close>

lemma PreStop_at:
  assumes "handler_ok h" "PreStop h level f = Ret h'"
  shows "preStopFuncs h' = (preStopFuncs h)[level := preStopFuncs h ! level @ [f]] \<and> level < length (preStopFuncs h)"
  using assms by (auto simp: PreStop_def handler_ok_def split: if_splits)

lemma stop_step_grows:
  assumes "stop_step s s'" "handler_ok (hdl s)"
  shows "set (preStopFuncs (hdl s) ! l) \<subseteq> set (preStopFuncs (hdl s') ! l)"
  using assms
proof (induction rule: stop_step.induct)
  case (request s lvl delta h)
  then show ?case using AddFor_frame by fastforce
next
  case (pre_stop s lvl f h)
  then show ?case using PreStop_at [of "hdl s" lvl f h] by (cases "l = lvl") auto
qed auto

lemma reachable_grows:
  assumes "reachable h0 s" "handler_ok h0" "\<not> mux_held h0" "\<not> stopCh_closed h0"
  shows "set (preStopFuncs h0 ! l) \<subseteq> set (preStopFuncs (hdl s) ! l)"
  using assms
proof (induction rule: reachable.induct)
  case (step s s')
  have "handler_ok (hdl s)" using reachable_inv [OF step.hyps(1) step.prems] by (simp add: stop_inv_def)
  with step stop_step_grows show ?case by blast
qed simp

lemma jobs_from_0: "l < length P \<Longrightarrow> f \<in> set (P ! l) \<Longrightarrow> (l, f) \<in># jobs_from P 0"
  by (auto simp: jobs_from_def set_mset_sum)

lemma descending_before:
  assumes "descending evs" "i < length evs" "j < length evs" "fst (evs ! i) < fst (evs ! j)"
  shows "j < i"
proof (rule ccontr)
  assume "\<not> j < i"
  with assms(4) have "i < j" by (metis linorder_neqE_nat less_irrefl)
  with assms(1,3) have "fst (evs ! j) \<le> fst (evs ! i)"
    using sorted_wrt_nth_less [of "\<lambda>x y. fst y \<le> fst x" evs i j] by (simp add: descending_def)
  with assms(4) show False by simp
qed

lemma registered_runs:
  assumes "reachable h0 s" "handler_ok h0" "\<not> mux_held h0" "\<not> stopCh_closed h0"
    and "phase s = Stopped" "f \<in> set (preStopFuncs h0 ! l)" "l \<le> LevelMax"
  shows "(l, f) \<in> set (finished s)"
proof -
  have inv: "stop_inv s" by (rule reachable_inv [OF assms(1-4)])
  then have "l < length (preStopFuncs (hdl s))" using assms(7) by (simp add: stop_inv_def handler_ok_def)
  moreover have "f \<in> set (preStopFuncs (hdl s) ! l)" using reachable_grows [OF assms(1-4)] assms(6) by blast
  moreover have "mset (finished s) = jobs_from (preStopFuncs (hdl s)) 0" using inv assms(5) by (simp add: stop_inv_def)
  ultimately show ?thesis using jobs_from_0 by (metis set_mset_mset)
qed

lemma higher_first:
  assumes "reachable h0 s" "handler_ok h0" "\<not> mux_held h0" "\<not> stopCh_closed h0"
    and "i < length (finished s)" "j < length (finished s)" "fst (finished s ! i) < fst (finished s ! j)"
  shows "j < i"
  using reachable_inv [OF assms(1-4)] descending_before assms(5-7) by (fastforce simp: stop_inv_def)

text \<open>
  C16: In every interleaving of the stop with requests and registrations, the registered functions run
  from the highest level down, each at most once; a level is entered only when all functions of the
  levels above have returned; and when the process exits by itself, and not by the timer, every
  registered function has returned exactly once. The stop does not panic.
\<close>

theorem safeStop_order:
  assumes "reachable h0 s" "handler_ok h0" "\<not> mux_held h0" "\<not> stopCh_closed h0"
  shows "sorted_wrt (\<lambda>x y. fst y \<le> fst x) (finished s) \<and> phase s \<noteq> Broken \<and>
    (\<forall>l fs. phase s = Running l fs \<longrightarrow>
      mset (finished s) + image_mset (Pair l) (mset fs) = jobs_from (preStopFuncs (hdl s)) l) \<and>
    (phase s = Stopped \<longrightarrow> mset (finished s) = jobs_from (preStopFuncs (hdl s)) 0)"
  using reachable_inv [OF assms] by (auto simp: stop_inv_def descending_def Let_def)

theorem safeStop_order_witness:
  "\<exists>s. reachable (new_handler :: nat handler) s \<and> phase s = Running LevelMax [] \<and>
    sorted_wrt (\<lambda>x y. fst y \<le> fst x) (finished s)"
proof -
  let ?s0 = "\<lparr>hdl = new_handler :: nat handler, phase = Idle, finished = []\<rparr>"
  let ?s1 = "?s0\<lparr>hdl := (hdl ?s0)\<lparr>stopCh_closed := True, mux_held := True\<rparr>,
      phase := Running (length (preStopFuncs (hdl ?s0)) - 1)
        (preStopFuncs (hdl ?s0) ! (length (preStopFuncs (hdl ?s0)) - 1))\<rparr>"
  have "stop_step ?s0 ?s1" by (rule stop_step.start) (simp_all add: new_handler_def)
  then have r: "reachable new_handler ?s1" by (rule reachable.step [OF reachable.init])
  have p: "phase ?s1 = Running LevelMax []" by (simp add: new_handler_def LevelMax_def)
  from safeStop_order [OF r handler_ok_new] have "sorted_wrt (\<lambda>x y. fst y \<le> fst x) (finished ?s1)"
    by (simp add: new_handler_def)
  with r p show ?thesis by blast
qed

text \<open>
  A stop that nothing disturbs ends: from any state of the invariant there is a run to the exit when
  the wait groups have gone to 0.
\<close>

inductive steps :: "'f system \<Rightarrow> 'f system \<Rightarrow> bool" where
  refl: "steps s s"
| more: "stop_step s s' \<Longrightarrow> steps s' s'' \<Longrightarrow> steps s s''"

lemma running_ends:
  assumes "phase s = Running l fs"
  shows "\<exists>s'. steps s s' \<and> phase s' = Waiting l \<and> hdl s' = hdl s"
  using assms
proof (induction fs arbitrary: s)
  case Nil
  have "stop_step s (s\<lparr>phase := Waiting l\<rparr>)" by (rule stop_step.all_finished) (rule Nil)
  then show ?case by (intro exI [of _ "s\<lparr>phase := Waiting l\<rparr>"]) (auto intro: steps.intros)
next
  case (Cons f fs)
  let ?s = "s\<lparr>phase := Running l (remove1 f (f # fs)), finished := finished s @ [(l, f)]\<rparr>"
  have "stop_step s ?s" by (rule stop_step.finish [OF Cons.prems]) simp
  moreover obtain s' where "steps ?s s'" "phase s' = Waiting l" "hdl s' = hdl ?s"
    using Cons.IH [of ?s] by auto
  ultimately show ?case by (intro exI [of _ s']) (auto intro: steps.more)
qed

lemma steps_trans: "steps s s' \<Longrightarrow> steps s' s'' \<Longrightarrow> steps s s''"
  by (induction rule: steps.induct) (auto intro: steps.more)

lemma waiting_ends:
  assumes "phase s = Waiting l" "\<forall>k. wg (hdl s) k = 0"
  shows "\<exists>s'. steps s s' \<and> phase s' = Stopped"
  using assms
proof (induction l arbitrary: s)
  case 0
  have "stop_step s (s\<lparr>phase := Stopped\<rparr>)"
    using 0 by (intro stop_step.exit) (auto simp: WaitFor_returns_def)
  then show ?case by (intro exI [of _ "s\<lparr>phase := Stopped\<rparr>"]) (auto intro: steps.intros)
next
  case (Suc l)
  let ?s = "s\<lparr>phase := Running l (preStopFuncs (hdl s) ! l)\<rparr>"
  have "stop_step s ?s" using Suc.prems by (intro stop_step.next_level) (auto simp: WaitFor_returns_def)
  moreover obtain s1 where s1: "steps ?s s1" "phase s1 = Waiting l" "hdl s1 = hdl ?s"
    using running_ends [of ?s] by auto
  moreover obtain s2 where "steps s1 s2" "phase s2 = Stopped"
    using Suc.IH [OF s1(2)] Suc.prems(2) s1(3) by auto
  ultimately show ?case by (meson steps.more steps_trans)
qed

lemma stop_can_complete:
  assumes "handler_ok h" "\<not> mux_held h" "\<not> stopCh_closed h" "\<forall>k. wg h k = 0"
  shows "\<exists>s. reachable h s \<and> phase s = Stopped \<and> mset (finished s) = jobs_from (preStopFuncs (hdl s)) 0"
proof -
  let ?s0 = "\<lparr>hdl = h, phase = Idle, finished = []\<rparr>"
  let ?s1 = "?s0\<lparr>hdl := (hdl ?s0)\<lparr>stopCh_closed := True, mux_held := True\<rparr>,
      phase := Running (length (preStopFuncs (hdl ?s0)) - 1)
        (preStopFuncs (hdl ?s0) ! (length (preStopFuncs (hdl ?s0)) - 1))\<rparr>"
  have st: "stop_step ?s0 ?s1" by (rule stop_step.start) (use assms in simp_all)
  obtain s2 where s2: "steps ?s1 s2" "\<exists>l. phase s2 = Waiting l" "hdl s2 = hdl ?s1"
    using running_ends [of ?s1] by auto
  moreover obtain s3 where "steps s2 s3" "phase s3 = Stopped"
    using waiting_ends [of s2] s2 assms(4) by auto
  moreover have "reachable h s'" if "reachable h s" "steps s s'" for s s'
    using that(2,1) by (induction rule: steps.induct) (auto intro: reachable.step)
  ultimately have "reachable h s3" "phase s3 = Stopped"
    using reachable.step [OF reachable.init st] by (blast intro: steps_trans)+
  then show ?thesis
    using reachable_inv [of h s3] assms by (auto simp: stop_inv_def Let_def)
qed



text \<open>
  A second stop, on a handler whose channel is closed, panics; and while a stop is in progress no
  \<open>PreStop\<close> can proceed, because the mutex is held until the process exits.
\<close>

theorem safeStop_twice_panics:
  assumes "reachable h0 s" "handler_ok h0" "\<not> mux_held h0" "\<not> stopCh_closed h0"
  shows "stop_step \<lparr>hdl = (new_handler :: 'f handler)\<lparr>stopCh_closed := True\<rparr>, phase = Idle, finished = []\<rparr>
      \<lparr>hdl = new_handler\<lparr>stopCh_closed := True\<rparr>, phase = Broken, finished = []\<rparr> \<and>
    (phase s \<in> range Waiting \<union> {Running l fs |l fs. True} \<union> {Stopped} \<longrightarrow> mux_held (hdl s))"
proof -
  let ?s = "\<lparr>hdl = (new_handler :: 'f handler)\<lparr>stopCh_closed := True\<rparr>, phase = Idle, finished = []\<rparr>"
  have "stop_step ?s (?s\<lparr>phase := Broken\<rparr>)" by (rule stop_step.close_twice) (simp_all add: new_handler_def)
  then show ?thesis using reachable_inv [OF assms] by (auto simp: stop_inv_def Let_def)
qed

theorem safeStop_twice_panics_witness:
  "stop_step \<lparr>hdl = (new_handler :: nat handler)\<lparr>stopCh_closed := True\<rparr>, phase = Idle, finished = []\<rparr>
      \<lparr>hdl = new_handler\<lparr>stopCh_closed := True\<rparr>, phase = Broken, finished = []\<rparr>"
  by (rule safeStop_twice_panics [OF reachable.init handler_ok_new, THEN conjunct1])
    (simp_all add: new_handler_def)

end
