(* ===== verification/Slices.thy ===== *)
theory Slices
  imports Prelude "HOL-Library.Multiset"
begin

text \<open>
  \<open>wrapper/slice.go\<close>, \<open>wrapper/map.go\<close> and \<open>wrapper/func.go\<close>: the generic helpers on slices, maps and
  values. JSON and YAML of an element are parameters; a Go map is a function to options, and the
  order of a range over it an argument.
\<close>

section \<open>Slices\<close>

fun Filter_loop :: "('a \<Rightarrow> bool) \<Rightarrow> 'a list \<Rightarrow> 'a list \<Rightarrow> 'a list" where
  "Filter_loop f newSli [] = newSli"
| "Filter_loop f newSli (item # old) = Filter_loop f (if f item then newSli @ [item] else newSli) old"

definition Filter :: "'a list \<Rightarrow> ('a \<Rightarrow> bool) \<Rightarrow> 'a list" where
  "Filter old f = Filter_loop f [] old"

lemma Filter_filter: "Filter old f = filter f old"
proof -
  have "Filter_loop f acc old = acc @ filter f old" for acc
    by (induction old arbitrary: acc) auto
  then show ?thesis by (simp add: Filter_def)
qed

fun Map_loop :: "('s \<Rightarrow> 't) \<Rightarrow> nat \<Rightarrow> 't list \<Rightarrow> 's list \<Rightarrow> 't list" where
  "Map_loop f idx newSli [] = newSli"
| "Map_loop f idx newSli (item # old) = Map_loop f (Suc idx) (newSli[idx := f item]) old"

definition Map :: "'t \<Rightarrow> 's list \<Rightarrow> ('s \<Rightarrow> 't) \<Rightarrow> 't list" where
  "Map zero old f = Map_loop f 0 (replicate (length old) zero) old"

lemma Map_loop_map:
  "idx + length old = length sli \<Longrightarrow> Map_loop f idx sli old = take idx sli @ map f old"
proof (induction old arbitrary: idx sli)
  case (Cons x old)
  have "take (Suc idx) (sli[idx := f x]) = take idx sli @ [f x]"
    using Cons.prems by (simp add: take_Suc_conv_app_nth)
  with Cons.IH [of "Suc idx" "sli[idx := f x]"] Cons.prems show ?case by simp
qed simp

lemma Map_map: "Map zero old f = map f old"
  by (simp add: Map_def Map_loop_map)

fun Has :: "'a list \<Rightarrow> 'a \<Rightarrow> ('a \<Rightarrow> 'a \<Rightarrow> bool) \<Rightarrow> bool" where
  "Has [] t cmp = False"
| "Has (v # s) t cmp = (if cmp v t then True else Has s t cmp)"

fun Include :: "'a list \<Rightarrow> 'a \<Rightarrow> bool" where
  "Include [] t = False"
| "Include (v # s) t = (if v = t then True else Include s t)"

fun FindIndex_from :: "int \<Rightarrow> 'a list \<Rightarrow> 'a \<Rightarrow> ('a \<Rightarrow> 'a \<Rightarrow> bool) \<Rightarrow> int" where
  "FindIndex_from idx [] t cmp = - 1"
| "FindIndex_from idx (v # s) t cmp = (if cmp v t then idx else FindIndex_from (idx + 1) s t cmp)"

definition FindIndex :: "'a list \<Rightarrow> 'a \<Rightarrow> ('a \<Rightarrow> 'a \<Rightarrow> bool) \<Rightarrow> int" where
  "FindIndex s t cmp = FindIndex_from 0 s t cmp"

definition Index :: "'a list \<Rightarrow> 'a \<Rightarrow> int" where
  "Index s t = FindIndex s t (=)"

fun Find :: "'a \<Rightarrow> 'a list \<Rightarrow> ('a \<Rightarrow> bool) \<Rightarrow> 'a" where
  "Find zero [] f = zero"
| "Find zero (v # s) f = (if f v then v else Find zero s f)"

lemma Has_list_iff: "Has s t cmp \<longleftrightarrow> (\<exists>v \<in> set s. cmp v t)" and Include_iff: "Include s t \<longleftrightarrow> t \<in> set s"
  by (induction s) auto

lemma FindIndex_absent: "FindIndex s t cmp = - 1 \<longleftrightarrow> (\<forall>v \<in> set s. \<not> cmp v t)"
proof -
  have "0 \<le> i \<Longrightarrow> FindIndex_from i s t cmp = - 1 \<longleftrightarrow> (\<forall>v \<in> set s. \<not> cmp v t)" for i
    by (induction s arbitrary: i) auto
  then show ?thesis by (simp add: FindIndex_def)
qed

text \<open>The text is cut at \<open>limit\<close> elements, the marks of the cut included.\<close>

definition PosRight :: int where "PosRight = 0"
definition PosLeft :: int where "PosLeft = 1"
definition PosCenter :: int where "PosCenter = 2"

definition go_slice :: "'a list \<Rightarrow> int \<Rightarrow> int \<Rightarrow> 'a list run" where
  "go_slice s low high =
     (if 0 \<le> low \<and> low \<le> high \<and> high \<le> int (length s) then Ret (take (nat (high - low)) (drop (nat low) s)) else Panic)"

text \<open>Go's \<open>limit/2\<close> rounds towards zero.\<close>

definition half :: "int \<Rightarrow> int" where
  "half n = (if n < 0 then - ((- n) div 2) else n div 2)"

definition Limit :: "'a list \<Rightarrow> int \<Rightarrow> int \<Rightarrow> 'a list \<Rightarrow> 'a list run" where
  "Limit s limit0 hidePosition manySuffix =
     (let limit = limit0 - int (length manySuffix); n = int (length s)
      in if n > limit then
           if limit + int (length manySuffix) < 0 then Panic
           else if hidePosition = PosRight then map_run (\<lambda>a. a @ manySuffix) (go_slice s 0 limit)
           else if hidePosition = PosLeft then map_run (\<lambda>b. manySuffix @ b) (go_slice s (n - limit) n)
           else if hidePosition = PosCenter then
             bind_run (go_slice s 0 (half limit)) (\<lambda>a.
             map_run (\<lambda>b. a @ manySuffix @ b) (go_slice s (n - (limit - half limit)) n))
           else Ret s
         else Ret s)"

lemma take_drop_part: "i \<le> j \<Longrightarrow> \<exists>c. s = take i s @ c @ drop j s"
  by (metis append_take_drop_id drop_drop le_add_diff_inverse2)

lemma Limit_parts:
  assumes "pos \<in> {PosRight, PosLeft, PosCenter}" "l = limit - int (length marks)" "0 \<le> l" "l < n" "n = int (length s)"
  obtains i j where "i \<le> j" "Limit s limit pos marks = Ret (take i s @ marks @ drop j s)" "int i + (n - int j) = l" "int j \<le> n"
    "pos = PosRight \<Longrightarrow> int j = n" "pos = PosLeft \<Longrightarrow> i = 0"
proof -
  define h where "h = half l"
  have h: "0 \<le> h" "h \<le> l" using assms(3) by (auto simp: h_def half_def)
  have s1: "go_slice s 0 l = Ret (take (nat l) s)" "go_slice s (n - l) n = Ret (drop (nat (n - l)) s)"
    "go_slice s 0 h = Ret (take (nat h) s)" "go_slice s (n - (l - h)) n = Ret (drop (nat (n - (l - h))) s)"
    using assms(3-5) h by (auto simp: go_slice_def)
  have "\<not> l + int (length marks) < 0" using assms(3) by simp
  then have L: "Limit s limit pos marks =
      (if pos = PosRight then map_run (\<lambda>a. a @ marks) (go_slice s 0 l)
       else if pos = PosLeft then map_run (\<lambda>b. marks @ b) (go_slice s (n - l) n)
       else if pos = PosCenter then
         bind_run (go_slice s 0 h) (\<lambda>a. map_run (\<lambda>b. a @ marks @ b) (go_slice s (n - (l - h)) n))
       else Ret s)"
    unfolding Limit_def Let_def assms(2) [symmetric] assms(5) [symmetric] h_def [symmetric] if_P [OF assms(4)]
    by simp
  consider "pos = PosRight" | "pos = PosLeft" | "pos = PosCenter" using assms(1) by blast
  then show thesis
  proof cases
    case 1
    have "Limit s limit pos marks = Ret (take (nat l) s @ marks @ drop (length s) s)"
      unfolding L s1 using 1 by simp
    then show thesis using assms(3-5) 1 by (intro that [of "nat l" "length s"]) (auto simp: PosRight_def PosLeft_def)
  next
    case 2
    have "Limit s limit pos marks = Ret (take 0 s @ marks @ drop (nat (n - l)) s)"
      unfolding L s1 using 2 by (simp add: PosRight_def PosLeft_def)
    then show thesis using assms(3-5) 2 by (intro that [of 0 "nat (n - l)"]) (auto simp: PosRight_def PosLeft_def)
  next
    case 3
    have "Limit s limit pos marks = Ret (take (nat h) s @ marks @ drop (nat (n - (l - h))) s)"
      unfolding L s1 using 3 by (simp add: PosRight_def PosLeft_def PosCenter_def)
    then show thesis using assms(3-5) 3 h
      by (intro that [of "nat h" "nat (n - (l - h))"]) (auto simp: PosRight_def PosLeft_def PosCenter_def)
  qed
qed

lemma Limit_no_room:
  assumes "pos \<in> {PosRight, PosLeft, PosCenter}" "limit < int (length marks)"
  shows "Limit s limit pos marks = Panic"
proof -
  have "half (limit - int (length marks)) \<le> 0"
    "limit - int (length marks) - half (limit - int (length marks)) < 0 \<or> half (limit - int (length marks)) < 0"
    using assms(2) by (auto simp: half_def)
  with assms show ?thesis
    by (auto simp: Limit_def Let_def go_slice_def PosRight_def PosLeft_def PosCenter_def)
qed

text \<open>
  \<open>Limit\<close> to a length that has room for the marks returns the slice itself, or exactly \<open>limit\<close>
  elements: the marks and elements of the slice from the beginning, the end, or both; with less room
  than the marks need it panics at each of the three positions.
\<close>

theorem Limit_length:
  assumes "pos \<in> {PosRight, PosLeft, PosCenter}"
  shows "if limit < int (length marks) then Limit s limit pos marks = Panic
    else \<exists>a b. Limit s limit pos marks =
        Ret (if int (length s) > limit - int (length marks) then a @ marks @ b else s) \<and>
      (int (length s) > limit - int (length marks) \<longrightarrow> int (length (a @ marks @ b)) = limit \<and>
        (\<exists>c. s = a @ c @ b) \<and> (pos = PosRight \<longrightarrow> b = []) \<and> (pos = PosLeft \<longrightarrow> a = []))"
proof (cases "limit < int (length marks)")
  case True
  then show ?thesis using Limit_no_room [OF assms True] by simp
next
  case room: False
  show ?thesis
  proof (cases "int (length s) > limit - int (length marks)")
    case False
    with room show ?thesis by (simp add: Limit_def Let_def)
  next
    case True
    from room have "0 \<le> limit - int (length marks)" by simp
    from Limit_parts [OF assms refl this True refl] obtain i j where ij: "i \<le> j"
      "Limit s limit pos marks = Ret (take i s @ marks @ drop j s)" "int i + (int (length s) - int j) = limit - int (length marks)"
      "int j \<le> int (length s)" "pos = PosRight \<Longrightarrow> int j = int (length s)" "pos = PosLeft \<Longrightarrow> i = 0"
      by metis
    have "int (length (take i s @ marks @ drop j s)) = limit" using ij(1,3,4) by simp
    moreover have "pos = PosRight \<longrightarrow> drop j s = []" "pos = PosLeft \<longrightarrow> take i s = []"
      using ij(5,6) by auto
    ultimately show ?thesis
      unfolding if_not_P [OF room] if_P [OF True] using ij(2) take_drop_part [OF ij(1), of s] True
      by (intro exI [of _ "take i s"] exI [of _ "drop j s"]) blast
  qed
qed

theorem Limit_length_witness:
  "\<exists>r. Limit ''abcdef'' 5 PosCenter ''..'' = Ret r \<and> length r = 5"
  using Limit_length [of PosCenter 5 "''..''" "''abcdef''"] by auto

section \<open>One or more\<close>

text \<open>
  A slice of which one element is written without brackets. \<open>None\<close> is the nil slice; \<open>enc\<close> and \<open>dec\<close>
  are JSON of an element, \<open>enc_list\<close> and \<open>dec_list\<close> of a slice.
\<close>

definition oom_MarshalJSON :: "('a \<Rightarrow> string) \<Rightarrow> ('a list option \<Rightarrow> string) \<Rightarrow> 'a list option \<Rightarrow> string" where
  "oom_MarshalJSON enc enc_list s = (case s of Some [x] \<Rightarrow> enc x | _ \<Rightarrow> enc_list s)"

definition oom_UnmarshalJSON ::
  "(string \<Rightarrow> 'e + 'a) \<Rightarrow> (string \<Rightarrow> 'e + 'a list option) \<Rightarrow> 'a list option \<Rightarrow> string \<Rightarrow> 'e option \<times> 'a list option" where
  "oom_UnmarshalJSON dec dec_list s data =
     (if length data > 1 \<and> hd data = CHR ''['' then
        (case dec_list data of Inl err \<Rightarrow> (Some err, s) | Inr parsed \<Rightarrow> (None, parsed))
      else case dec data of Inl err \<Rightarrow> (Some err, s) | Inr single \<Rightarrow> (None, Some [single]))"

text \<open>The element type's own \<open>Equal\<close> method, if it has one, is asked about the first element only.\<close>

fun oom_Contains :: "('a \<Rightarrow> 'a \<Rightarrow> bool) option \<Rightarrow> 'a list \<Rightarrow> 'a \<Rightarrow> bool" where
  "oom_Contains equal [] v = False"
| "oom_Contains equal (item # s) v =
     (case equal of Some eq \<Rightarrow> eq v item
      | None \<Rightarrow> if item = v then True else oom_Contains equal s v)"

text \<open>
  A list that is not nil survives JSON, written with brackets or, as a single element, without,
  when the element's own JSON round-trips and does not begin with a bracket.
\<close>

theorem OneOrMore_JSON_roundtrip:
  assumes "\<forall>x. dec (enc x) = Inr x \<and> enc x \<noteq> [] \<and> hd (enc x) \<noteq> CHR ''[''"
    "\<forall>l. dec_list (enc_list (Some l)) = Inr (Some l) \<and> length (enc_list (Some l)) > 1 \<and> hd (enc_list (Some l)) = CHR ''[''"
  shows "oom_UnmarshalJSON dec dec_list s0 (oom_MarshalJSON enc enc_list (Some l)) = (None, Some l)"
proof (cases l)
  case (Cons x xs)
  then show ?thesis
    using assms by (cases xs) (simp_all add: oom_UnmarshalJSON_def oom_MarshalJSON_def)
qed (use assms in \<open>simp add: oom_UnmarshalJSON_def oom_MarshalJSON_def\<close>)

definition sample_enc :: "nat \<Rightarrow> string" where
  "sample_enc n = replicate (Suc n) (CHR ''1'')"

definition sample_enc_list :: "nat list option \<Rightarrow> string" where
  "sample_enc_list l = (case l of None \<Rightarrow> ''null'' | Some ns \<Rightarrow> ''['' @ concat (map (\<lambda>n. sample_enc n @ '','') ns) @ '']'')"

fun sample_dec_items :: "nat \<Rightarrow> string \<Rightarrow> nat list" where
  "sample_dec_items n [] = []"
| "sample_dec_items n (c # s) =
     (if c = CHR ''1'' then sample_dec_items (Suc n) s
      else if c = CHR '','' then (n - 1) # sample_dec_items 0 s else sample_dec_items n s)"

lemma sample_dec_ones: "sample_dec_items k (replicate n (CHR ''1'') @ s) = sample_dec_items (n + k) s"
  by (induction n arbitrary: k) auto

lemma sample_dec_enc: "sample_dec_items 0 (concat (map (\<lambda>n. sample_enc n @ '','') ns) @ '']'') = ns"
  by (induction ns) (auto simp: sample_enc_def sample_dec_ones simp del: replicate.simps)

theorem OneOrMore_JSON_roundtrip_witness:
  "oom_UnmarshalJSON (\<lambda>s. Inr (length s - 1) :: unit + nat) (\<lambda>s. Inr (Some (sample_dec_items 0 s))) None
     (oom_MarshalJSON sample_enc sample_enc_list (Some [4, 5])) = (None, Some [4, 5])"
proof (rule OneOrMore_JSON_roundtrip)
  show "\<forall>x. (Inr (length (sample_enc x) - 1) :: unit + nat) = Inr x \<and> sample_enc x \<noteq> [] \<and> hd (sample_enc x) \<noteq> CHR ''[''"
    by (simp add: sample_enc_def)
  show "\<forall>l. (Inr (Some (sample_dec_items 0 (sample_enc_list (Some l)))) :: unit + nat list option) = Inr (Some l) \<and>
      1 < length (sample_enc_list (Some l)) \<and> hd (sample_enc_list (Some l)) = CHR ''[''"
    using sample_dec_enc by (simp add: sample_enc_list_def)
qed

text \<open>
  The nil list does not survive: its \<open>null\<close> is read back as one zero value. \<open>Contains\<close> misses an
  element that is there when the element type has its own \<open>Equal\<close>, unless it is the first.
\<close>

theorem OneOrMore_nil_and_Contains:
  assumes "enc_list None = ''null''" "dec ''null'' = Inr zero" "\<not> eq v x" "\<forall>w. eq w w"
  shows "oom_UnmarshalJSON dec dec_list None (oom_MarshalJSON enc enc_list None) = (None, Some [zero]) \<and>
    \<not> oom_Contains (Some eq) [x, v] v \<and> oom_Contains None [x, v] v"
  using assms by (simp add: oom_UnmarshalJSON_def oom_MarshalJSON_def)

theorem OneOrMore_nil_and_Contains_witness:
  "oom_UnmarshalJSON (\<lambda>s. Inr (0 :: nat) :: unit + nat) (\<lambda>s. Inr None) None
      (oom_MarshalJSON sample_enc sample_enc_list None) = (None, Some [0]) \<and>
    \<not> oom_Contains (Some (=)) [1, 2] (2 :: nat) \<and> oom_Contains None [1, 2] (2 :: nat)"
  by (rule OneOrMore_nil_and_Contains) (simp_all add: sample_enc_list_def)

section \<open>One or more, in YAML\<close>

text \<open>
  What is written is the single element or the list. A node is a sequence or a scalar, with its content,
  an alias of a node, or of another kind, with its tag.
\<close>

datatype 'a yaml_out = OneElem 'a | ElemList "'a list option"

datatype 'n yaml_value = SeqNode 'n | ScalarNode 'n | AliasNode "'n yaml_value" | OtherNode string

datatype 'e oom_yaml_error = DecodeError 'e | UnknownValueType string

definition oom_MarshalYAML :: "'a list option \<Rightarrow> 'a yaml_out" where
  "oom_MarshalYAML s = (case s of Some [x] \<Rightarrow> OneElem x | _ \<Rightarrow> ElemList s)"

fun oom_UnmarshalYAML ::
  "('n \<Rightarrow> 'a list option \<Rightarrow> 'e option \<times> 'a list option) \<Rightarrow> ('n \<Rightarrow> 'e + 'a) \<Rightarrow> 'n yaml_value \<Rightarrow> 'a list option \<Rightarrow>
   'e oom_yaml_error option \<times> 'a list option" where
  "oom_UnmarshalYAML dec_seq dec_scalar (SeqNode n) s = (case dec_seq n s of (err, s) \<Rightarrow> (map_option DecodeError err, s))"
| "oom_UnmarshalYAML dec_seq dec_scalar (ScalarNode n) s =
     (case dec_scalar n of Inl err \<Rightarrow> (Some (DecodeError err), s) | Inr c \<Rightarrow> (None, Some [c]))"
| "oom_UnmarshalYAML dec_seq dec_scalar (AliasNode v) s = oom_UnmarshalYAML dec_seq dec_scalar v s"
| "oom_UnmarshalYAML dec_seq dec_scalar (OtherNode tag) s = (Some (UnknownValueType tag), s)"

definition aliased :: "nat \<Rightarrow> 'n yaml_value \<Rightarrow> 'n yaml_value" where
  "aliased k v = (AliasNode ^^ k) v"

lemma UnmarshalYAML_aliased: "oom_UnmarshalYAML ds dc (aliased k v) s = oom_UnmarshalYAML ds dc v s"
  by (induction k) (simp_all add: aliased_def)

text \<open>The node of what is written, for elements that are scalars or mappings.\<close>

definition yaml_node :: "('a \<Rightarrow> bool) \<Rightarrow> ('a \<Rightarrow> 'n) \<Rightarrow> ('a list option \<Rightarrow> 'n) \<Rightarrow> 'a yaml_out \<Rightarrow> 'n yaml_value" where
  "yaml_node scalar enc enc_list out = (case out of
     OneElem x \<Rightarrow> if scalar x then ScalarNode (enc x) else OtherNode ''!!map''
   | ElemList l \<Rightarrow> SeqNode (enc_list l))"

text \<open>
  A list of scalars survives YAML, also behind aliases. A list with one element that is written as a mapping
  is refused by the reader, although lists with more such elements are not.
\<close>

theorem OneOrMore_YAML_roundtrip:
  assumes "\<forall>l s. dec_seq (enc_list l) s = (None, l)" "\<forall>x. dec_scalar (enc x) = Inr x"
  shows "oom_UnmarshalYAML dec_seq dec_scalar (aliased k (yaml_node scalar enc enc_list (oom_MarshalYAML l))) s0 =
    (case l of Some [x] \<Rightarrow> if scalar x then (None, l) else (Some (UnknownValueType ''!!map''), s0) | _ \<Rightarrow> (None, l))"
  using assms by (auto simp: UnmarshalYAML_aliased oom_MarshalYAML_def yaml_node_def split: option.splits list.splits)

lemma OneOrMore_YAML_roundtrip_witness:
  "oom_UnmarshalYAML (\<lambda>n s. (None, n)) (\<lambda>n. Inr (hd (the n)) :: unit + nat) (AliasNode (ScalarNode (Some [3]))) None = (None, Some [3])"
proof -
  have "yaml_node (\<lambda>_. True) (\<lambda>x. Some [x]) id (oom_MarshalYAML (Some [3 :: nat])) = ScalarNode (Some [3])"
    by (simp add: yaml_node_def oom_MarshalYAML_def)
  then show ?thesis
    using OneOrMore_YAML_roundtrip [of "\<lambda>n s. (None, n)" id "\<lambda>n. Inr (hd (the n)) :: unit + nat" "\<lambda>x. Some [x]" 1 "\<lambda>_. True" "Some [3]" None]
    by (simp add: aliased_def)
qed

definition Interfaces :: "('a \<Rightarrow> 'i) \<Rightarrow> 'a list \<Rightarrow> 'i list" where
  "Interfaces iface objs = map iface objs"

section \<open>Maps\<close>

definition group_step :: "('a \<Rightarrow> 'k \<times> 'v) \<Rightarrow> ('k \<Rightarrow> 'v list option) \<Rightarrow> 'a \<Rightarrow> ('k \<Rightarrow> 'v list option)" where
  "group_step f grp item = (case f item of (key, v) \<Rightarrow>
     let old = (case grp key of None \<Rightarrow> [] | Some vs \<Rightarrow> vs) in grp(key \<mapsto> old @ [v]))"

definition GroupBy :: "'a list \<Rightarrow> ('a \<Rightarrow> 'k \<times> 'v) \<Rightarrow> ('k \<Rightarrow> 'v list option)" where
  "GroupBy old f = foldl (group_step f) Map.empty old"

text \<open>
  \<open>GroupBy\<close> has exactly the keys of the items, and under each the values of its items in their
  order.
\<close>

theorem GroupBy_groups:
  "GroupBy xs f k =
     (let vs = map (\<lambda>x. snd (f x)) (filter (\<lambda>x. fst (f x) = k) xs) in if vs = [] then None else Some vs)"
proof (induction xs rule: rev_induct)
  case (snoc x xs)
  then show ?case
    by (cases "f x") (auto simp: GroupBy_def group_step_def Let_def split: option.splits if_splits)
qed (simp add: GroupBy_def)

text \<open>Each map is ranged over in the order of its argument; the keys of a sort may repeat.\<close>

definition NewSortedMap :: "('k :: linorder \<times> 'v) list list \<Rightarrow> ('k \<times> 'v) list" where
  "NewSortedMap kvs = sort_key fst (foldl (\<lambda>m kv. foldl (\<lambda>m (k, v). m @ [(k, v)]) m kv) [] kvs)"

definition Merge :: "('k \<times> 'v) list list \<Rightarrow> ('k \<Rightarrow> 'v option)" where
  "Merge maps = foldl (\<lambda>merged m. foldl (\<lambda>merged (k, v). merged(k \<mapsto> v)) merged m) Map.empty maps"

lemma foldl_snoc_items: "foldl (\<lambda>m (k, v). m @ [(k, v)]) m kv = m @ kv"
  by (induction kv arbitrary: m) auto

lemma foldl_snoc_maps: "foldl (\<lambda>m kv. foldl (\<lambda>m (k, v). m @ [(k, v)]) m kv) m kvs = m @ concat kvs"
  by (induction kvs arbitrary: m) (auto simp: foldl_snoc_items)

lemma NewSortedMap_spec:
  "sorted (map fst (NewSortedMap kvs)) \<and> mset (NewSortedMap kvs) = mset (concat kvs)"
  by (simp add: NewSortedMap_def foldl_snoc_maps)

lemma foldl_update: "distinct (map fst m) \<Longrightarrow> foldl (\<lambda>merged (k, v). merged(k \<mapsto> v)) g m = g ++ map_of m"
proof (induction m arbitrary: g)
  case (Cons p m)
  then show ?case
    by (cases p) (auto simp: map_add_def fun_eq_iff split: option.splits dest: map_of_SomeD, metis fst_conv image_eqI)
qed simp

text \<open>A later map wins over the ones before it.\<close>

lemma Merge_spec:
  "\<forall>m \<in> set maps. distinct (map fst m) \<Longrightarrow> Merge maps = foldl (++) Map.empty (map map_of maps)"
proof -
  have "foldl (\<lambda>merged m. foldl (\<lambda>merged (k, v). merged(k \<mapsto> v)) merged m) g maps = foldl (++) g (map map_of maps)"
    if "\<forall>m \<in> set maps. distinct (map fst m)" for g
    using that by (induction maps arbitrary: g) (auto simp: foldl_update)
  then show "\<forall>m \<in> set maps. distinct (map fst m) \<Longrightarrow> ?thesis" by (simp add: Merge_def)
qed

section \<open>Values\<close>

definition must_M :: "'v \<Rightarrow> 'e option \<Rightarrow> 'v run" where
  "must_M v err = (case err of Some e \<Rightarrow> Panic | None \<Rightarrow> Ret v)"

definition just_E :: "'v \<Rightarrow> 'e option \<Rightarrow> 'e option" where
  "just_E v err = err"

fun DefaultPointer :: "'a option list \<Rightarrow> 'a option" where
  "DefaultPointer [] = None"
| "DefaultPointer (v # vals) = (if v \<noteq> None then v else DefaultPointer vals)"

fun DefaultString :: "string list \<Rightarrow> string" where
  "DefaultString [] = []"
| "DefaultString (v # vals) = (if length v \<noteq> 0 then v else DefaultString vals)"

fun DefaultNumber :: "int list \<Rightarrow> int" where
  "DefaultNumber [] = 0"
| "DefaultNumber (v # vals) = (if v \<noteq> 0 then v else DefaultNumber vals)"

definition Pipe :: "'d \<Rightarrow> 's \<Rightarrow> 'e option \<Rightarrow> ('s \<Rightarrow> 'd \<times> 'e option) \<Rightarrow> 'd \<times> 'e option" where
  "Pipe zero v e f = (if e \<noteq> None then (zero, e) else f v)"

definition ternary :: "bool \<Rightarrow> 'v \<Rightarrow> 'v \<Rightarrow> 'v" where
  "ternary expr trueVal falseVal = (if expr then trueVal else falseVal)"

end
