(* ===== verification/Sorting.thy ===== *)
theory Sorting
  imports Sets Slices
begin

text \<open>
  The types that implement \<open>sort.Interface\<close>: the slices that \<open>sets/sets.go\<close> and \<open>wrapper/map.go\<close> hand to
  \<open>sort.Sort\<close>. It only calls \<open>Less\<close> and \<open>Swap\<close>, and returns when no element is less than the one before it.
\<close>

definition less_than :: "'a :: linorder \<Rightarrow> 'a \<Rightarrow> bool" where
  "less_than lhs rhs = (lhs < rhs)"

definition slice_Less :: "'a :: linorder list \<Rightarrow> nat \<Rightarrow> nat \<Rightarrow> bool" where
  "slice_Less s i j = less_than (s ! i) (s ! j)"

definition slice_Swap :: "nat \<Rightarrow> nat \<Rightarrow> 'a list \<Rightarrow> 'a list" where
  "slice_Swap i j s = s[i := s ! j, j := s ! i]"

text \<open>\<open>sortableSet\<close>: items with their index.\<close>

record 'a set_item =
  item_index :: int
  set_item :: 'a

definition set_Less :: "'a set_item list \<Rightarrow> nat \<Rightarrow> nat \<Rightarrow> bool" where
  "set_Less s i j = less_than (item_index (s ! i)) (item_index (s ! j))"

definition set_Swap :: "nat \<Rightarrow> nat \<Rightarrow> 'a set_item list \<Rightarrow> 'a set_item list" where
  "set_Swap i j s = s[i := s ! j, j := s ! i]"

definition sortable_List :: "'a set_item list \<Rightarrow> 'a list" where
  "sortable_List s = map set_item s"

definition map_Less :: "('k :: linorder \<times> 'v) list \<Rightarrow> nat \<Rightarrow> nat \<Rightarrow> bool" where
  "map_Less s i j = (fst (s ! i) < fst (s ! j))"

definition map_Swap :: "nat \<Rightarrow> nat \<Rightarrow> ('k \<times> 'v) list \<Rightarrow> ('k \<times> 'v) list" where
  "map_Swap i j s = s[i := s ! j, j := s ! i]"

section \<open>What sorting by these methods does\<close>

definition swap_all :: "(nat \<Rightarrow> nat \<Rightarrow> 'e list \<Rightarrow> 'e list) \<Rightarrow> (nat \<times> nat) list \<Rightarrow> 'e list \<Rightarrow> 'e list" where
  "swap_all Swap calls s = foldl (\<lambda>s (i, j). Swap i j s) s calls"

definition in_range :: "nat \<Rightarrow> (nat \<times> nat) list \<Rightarrow> bool" where
  "in_range n calls = list_all (\<lambda>(i, j). i < n \<and> j < n) calls"

definition settled :: "('e list \<Rightarrow> nat \<Rightarrow> nat \<Rightarrow> bool) \<Rightarrow> 'e list \<Rightarrow> bool" where
  "settled Less s \<longleftrightarrow> (\<forall>i. Suc i < length s \<longrightarrow> \<not> Less s (Suc i) i)"

locale sort_interface =
  fixes Less :: "'e list \<Rightarrow> nat \<Rightarrow> nat \<Rightarrow> bool" and Swap :: "nat \<Rightarrow> nat \<Rightarrow> 'e list \<Rightarrow> 'e list" and key :: "'e \<Rightarrow> 'k :: linorder"
  assumes Less_key: "i < length s \<Longrightarrow> j < length s \<Longrightarrow> Less s i j \<longleftrightarrow> key (s ! i) < key (s ! j)"
    and mset_Swap: "i < length s \<Longrightarrow> j < length s \<Longrightarrow> mset (Swap i j s) = mset s"
begin

lemma mset_swap_all: "in_range (length s) calls \<Longrightarrow> mset (swap_all Swap calls s) = mset s"
proof (induction calls arbitrary: s)
  case (Cons c calls)
  obtain i j where c: "c = (i, j)" by (cases c)
  have m: "mset (Swap i j s) = mset s" using Cons.prems mset_Swap by (simp add: in_range_def c)
  then have "length (Swap i j s) = length s" by (metis size_mset)
  then show ?case using Cons m by (simp add: swap_all_def in_range_def c)
qed (simp add: swap_all_def)

lemma settled_sorted: "settled Less s \<Longrightarrow> sorted (map key s)"
  by (force simp: settled_def sorted_iff_nth_Suc Less_key not_less)

lemma sorts:
  assumes "in_range (length s) calls" "swap_all Swap calls s = r" "settled Less r"
  shows "sorted (map key r) \<and> mset r = mset s"
  using assms mset_swap_all settled_sorted by blast

lemma sorts_unique:
  assumes "in_range (length s) calls" "swap_all Swap calls s = r" "settled Less r" "inj_on key (set s)"
  shows "r = sort_key key s"
  using sorts [OF assms(1-3)] assms(4) by (metis mset_eq_setD properties_for_sort_key sort_key_inj_key_eq)

end

lemma mset_exchange: "i < length s \<Longrightarrow> j < length s \<Longrightarrow> mset (s[i := s ! j, j := s ! i]) = mset s"
  by (simp add: mset_swap)

interpretation slice_sort: sort_interface slice_Less slice_Swap id
  by unfold_locales (simp_all add: slice_Less_def less_than_def slice_Swap_def mset_exchange)

interpretation set_sort: sort_interface set_Less set_Swap item_index
  by unfold_locales (simp_all add: set_Less_def less_than_def set_Swap_def mset_exchange)

interpretation map_sort: sort_interface map_Less map_Swap fst
  by unfold_locales (simp_all add: map_Less_def map_Swap_def mset_exchange)

section \<open>The sorted results\<close>

definition set_items :: "'a list \<Rightarrow> 'a go_set \<Rightarrow> 'a set_item list" where
  "set_items ks s = map (\<lambda>k. \<lparr>item_index = the (map_of s k), set_item = k\<rparr>) ks"

definition set_String :: "('a \<Rightarrow> string) \<Rightarrow> 'a list \<Rightarrow> 'a go_set \<Rightarrow> string" where
  "set_String show_item ks s = ''['' @ join '' '' (map show_item (set_List ks s)) @ '']''"

lemma set_List_items: "set_List ks s = map set_item (sort_key item_index (set_items ks s))"
proof -
  let ?f = "\<lambda>(i, k). \<lparr>item_index = i, set_item = k\<rparr>"
  have "sort_key item_index (map ?f xs) = map ?f (sort_key fst xs)" for xs :: "(int \<times> 'a) list"
  proof (induction xs)
    case (Cons x xs)
    have "insort_key item_index (?f x) (map ?f ys) = map ?f (insort_key fst x ys)" for ys
      by (induction ys) (auto simp: case_prod_beta)
    then show ?case using Cons by simp
  qed simp
  from this [of "map (\<lambda>item. (the (map_of s item), item)) ks"] show ?thesis
    by (simp add: set_List_def set_items_def Let_def comp_def case_prod_beta)
qed

text \<open>
  Whatever swaps \<open>sort.Sort\<close> makes, once no element is less than the one before it \<open>SortedList\<close> has the
  items in order and \<open>List\<close> has them in the order of their indices, as long as these differ; a sorted map has
  all pairs of the maps, in the order of their keys.
\<close>

theorem Sort_gives_lists:
  assumes "in_range (length ks) calls" "settled slice_Less (swap_all slice_Swap calls ks)" "ranges ks s"
    and "in_range (length ks) calls'" "settled set_Less (swap_all set_Swap calls' (set_items ks s))" "inj_on (\<lambda>k. the (map_of s k)) (set ks)"
    and "in_range (length (concat kvs)) calls''" "settled map_Less (swap_all map_Swap calls'' (concat kvs))"
  shows "swap_all slice_Swap calls ks = SortedList ks s \<and>
    sortable_List (swap_all set_Swap calls' (set_items ks s)) = set_List ks s \<and>
    map fst (swap_all map_Swap calls'' (concat kvs)) = map fst (NewSortedMap kvs) \<and>
    mset (swap_all map_Swap calls'' (concat kvs)) = mset (NewSortedMap kvs)"
proof -
  have "inj_on item_index (set (set_items ks s))"
    using assms(6) by (auto simp: set_items_def inj_on_def)
  then have l: "swap_all set_Swap calls' (set_items ks s) = sort_key item_index (set_items ks s)"
    using set_sort.sorts_unique [OF _ refl assms(5)] assms(4) by (simp add: set_items_def)
  have sl: "swap_all slice_Swap calls ks = SortedList ks s"
    using slice_sort.sorts_unique [OF assms(1) refl assms(2)] by (simp add: SortedList_def id_def)
  have m: "sorted (map fst (swap_all map_Swap calls'' (concat kvs)))" "mset (swap_all map_Swap calls'' (concat kvs)) = mset (concat kvs)"
    using map_sort.sorts [OF assms(7) refl assms(8)] by auto
  have "map fst (swap_all map_Swap calls'' (concat kvs)) = map fst (NewSortedMap kvs)"
  proof -
    have "mset (map fst (swap_all map_Swap calls'' (concat kvs))) = mset (map fst (concat kvs))"
      "mset (map fst (NewSortedMap kvs)) = mset (map fst (concat kvs))"
      using m(2) NewSortedMap_spec [of kvs] by (simp_all only: mset_map)
    then show ?thesis using m(1) NewSortedMap_spec [of kvs] properties_for_sort by metis
  qed
  then show ?thesis using l sl m(2) NewSortedMap_spec [of kvs] set_List_items [of ks s] by (simp add: sortable_List_def)
qed

lemma Sort_gives_lists_witness:
  "SortedList [3, 1] [(1, 0), (3, 1 :: int)] = [1, 3 :: nat] \<and> set_List [3, 1 :: nat] [(1, 0), (3, 1)] = [1, 3] \<and>
    map fst (NewSortedMap [[(2 :: nat, ''b'')], [(1, ''a'')]]) = [1, 2]"
proof -
  note defs = swap_all_def settled_def in_range_def slice_Swap_def slice_Less_def set_Swap_def set_Less_def map_Swap_def map_Less_def
    less_than_def set_items_def sortable_List_def ranges_def keys_def
  have "swap_all slice_Swap [(0, 1)] [3, 1 :: nat] = [1, 3]" "settled slice_Less [1, 3 :: nat]"
    "swap_all set_Swap [(0, 1)] (set_items [3, 1 :: nat] [(1, 0), (3, 1)]) =
      [\<lparr>item_index = 0, set_item = 1\<rparr>, \<lparr>item_index = 1, set_item = 3\<rparr>]"
    "settled set_Less [\<lparr>item_index = 0, set_item = 1 :: nat\<rparr>, \<lparr>item_index = 1, set_item = 3\<rparr>]"
    "swap_all map_Swap [(0, 1)] [(2 :: nat, ''b''), (1, ''a'')] = [(1, ''a''), (2, ''b'')]"
    "settled map_Less [(1 :: nat, ''a''), (2, ''b'')]"
    "in_range (Suc (Suc 0)) [(0, 1)]" "ranges [3, 1] [(1 :: nat, 0), (3, 1)]" "inj_on (\<lambda>k. the (map_of [(1 :: nat, 0 :: int), (3, 1)] k)) (set [3, 1])"
    by (auto simp: defs less_Suc_eq)
  note steps = this
  have "swap_all slice_Swap [(0, 1)] [3, 1] = SortedList [3, 1] [(1 :: nat, 0), (3, 1)] \<and>
      sortable_List (swap_all set_Swap [(0, 1)] (set_items [3, 1 :: nat] [(1, 0), (3, 1)])) = set_List [3, 1] [(1, 0), (3, 1)] \<and>
      map fst (swap_all map_Swap [(0, 1)] (concat [[(2 :: nat, ''b'')], [(1, ''a'')]])) = map fst (NewSortedMap [[(2, ''b'')], [(1, ''a'')]]) \<and>
      mset (swap_all map_Swap [(0, 1)] (concat [[(2 :: nat, ''b'')], [(1, ''a'')]])) = mset (NewSortedMap [[(2, ''b'')], [(1, ''a'')]])"
    by (rule Sort_gives_lists) (use steps in simp_all)
  note results = this [THEN conjunct1] this [THEN conjunct2, THEN conjunct1] this [THEN conjunct2, THEN conjunct2, THEN conjunct1]
  show ?thesis unfolding results [symmetric] using steps by (simp add: sortable_List_def)
qed

end
