(* ===== verification/Http.thy ===== *)
theory Http
  imports Prelude
begin

text \<open>
  \<open>http/http.go\<close>, with \<open>IPNets\<close> of \<open>sets/sets.go\<close>: joining of URL paths, and the client address of a
  request behind proxies. Addresses are byte strings of 4 or 16 bytes; \<open>net.ParseIP\<close>,
  \<open>net.ParseCIDR\<close> and the tests for global and private addresses are parameters.
\<close>

section \<open>Paths\<close>

definition joinPath :: "string \<Rightarrow> string \<Rightarrow> string" where
  "joinPath a b =
     (let a = (if length a = 0 then ''/'' else if hd a \<noteq> CHR ''/'' then ''/'' @ a else a);
          b = (if length b \<noteq> 0 \<and> hd b = CHR ''/'' then tl b else b);
          a = (if length b \<noteq> 0 \<and> length a > 1 \<and> last a \<noteq> CHR ''/'' then a @ ''/'' else a)
      in a @ b)"

definition JoinPath :: "string list \<Rightarrow> string" where
  "JoinPath p = (case p of
     [] \<Rightarrow> []
   | [x] \<Rightarrow> x
   | x # xs \<Rightarrow> foldl joinPath x xs)"

text \<open>A path segment as it is meant: not empty, without a slash at either end.\<close>

definition segment :: "string \<Rightarrow> bool" where
  "segment s \<longleftrightarrow> s \<noteq> [] \<and> hd s \<noteq> CHR ''/'' \<and> last s \<noteq> CHR ''/''"

lemma joinPath_segment:
  assumes "segment s" "a \<noteq> []" "hd a = CHR ''/''" "last a \<noteq> CHR ''/''"
  shows "joinPath a s = a @ ''/'' @ s" "joinPath a (''/'' @ s) = a @ ''/'' @ s"
proof -
  have "length a > 1"
    using assms by (cases a) (auto split: if_splits)
  then show "joinPath a s = a @ ''/'' @ s" "joinPath a (''/'' @ s) = a @ ''/'' @ s"
    using assms by (auto simp: joinPath_def Let_def segment_def)
qed

lemma joinPath_first:
  assumes "segment s" "segment t" "x \<in> {s, ''/'' @ s}" "y \<in> {t, ''/'' @ t}"
  shows "joinPath x y = ''/'' @ s @ ''/'' @ t"
proof -
  have "hd x \<noteq> CHR ''/'' \<longrightarrow> x = s" "hd x = CHR ''/'' \<longrightarrow> x = ''/'' @ s" "x \<noteq> []"
    using assms by (auto simp: segment_def)
  then have "joinPath x y = joinPath (''/'' @ s) y"
    using assms by (auto simp: joinPath_def Let_def segment_def)
  also have "\<dots> = (''/'' @ s) @ ''/'' @ t"
    using joinPath_segment [OF assms(2), of "''/'' @ s"] assms(1,4) by (auto simp: segment_def)
  finally show ?thesis by simp
qed

lemma foldl_joinPath:
  assumes "list_all2 (\<lambda>x s. segment s \<and> x \<in> {s, ''/'' @ s}) xs ss" "a \<noteq> []" "hd a = CHR ''/''" "last a \<noteq> CHR ''/''"
  shows "foldl joinPath a xs = a @ concat (map (\<lambda>s. ''/'' @ s) ss)"
  using assms
proof (induction xs ss arbitrary: a rule: list_all2_induct)
  case (Cons x xs s ss)
  then have s: "segment s" and x: "x \<in> {s, ''/'' @ s}" by auto
  have "joinPath a x = a @ ''/'' @ s" using joinPath_segment [OF s Cons.prems] x by auto
  with Cons.IH [of "a @ ''/'' @ s"] s Cons.prems show ?case by (simp add: segment_def)
qed simp

text \<open>
  Two or more path segments, each with or without a leading slash, are joined to an absolute path
  with exactly one slash before each segment.
\<close>

theorem JoinPath_segments:
  assumes "list_all2 (\<lambda>x s. segment s \<and> x \<in> {s, ''/'' @ s}) xs ss" "length xs \<ge> 2"
  shows "JoinPath xs = concat (map (\<lambda>s. ''/'' @ s) ss)"
proof -
  obtain x y r where xs: "xs = x # y # r" using assms(2) by (cases xs; cases "tl xs") auto
  with assms(1) obtain s t q where ss: "ss = s # t # q" "segment s" "segment t" "x \<in> {s, ''/'' @ s}" "y \<in> {t, ''/'' @ t}"
    "list_all2 (\<lambda>x s. segment s \<and> x \<in> {s, ''/'' @ s}) r q"
    by (auto simp: list_all2_Cons1)
  have "foldl joinPath (''/'' @ s @ ''/'' @ t) r = (''/'' @ s @ ''/'' @ t) @ concat (map (\<lambda>s. ''/'' @ s) q)"
    by (rule foldl_joinPath [OF ss(6)]) (use ss(2,3) in \<open>auto simp: segment_def\<close>)
  then show ?thesis
    using joinPath_first [OF ss(2-5)] by (simp add: xs ss(1) JoinPath_def)
qed

theorem JoinPath_segments_witness:
  "JoinPath [''api'', ''/v1'', ''users''] = ''/api/v1/users''"
  using JoinPath_segments [of "[''api'', ''/v1'', ''users'']" "[''api'', ''v1'', ''users'']"]
  by (simp add: segment_def)

section \<open>Networks\<close>

record ip_net =
  net_ip :: bytes
  net_mask :: bytes

record IPNet =
  ipnet :: "ip_net option"
  raw :: string

definition with_mask :: "string \<Rightarrow> string" where
  "with_mask s = (if CHR ''/'' \<in> set s then s else s @ ''/32'')"

definition ParseIPNet :: "(string \<Rightarrow> 'e + ip_net) \<Rightarrow> string \<Rightarrow> IPNet \<times> 'e option" where
  "ParseIPNet ParseCIDR netStr =
     (let netStr = with_mask netStr
      in case ParseCIDR netStr of
           Inl err \<Rightarrow> (\<lparr>ipnet = None, raw = netStr\<rparr>, Some err)
         | Inr n \<Rightarrow> (\<lparr>ipnet = Some n, raw = netStr\<rparr>, None))"

definition IPNet_UnmarshalJSON :: "(string \<Rightarrow> 'e + ip_net) \<Rightarrow> IPNet \<Rightarrow> 'e + string \<Rightarrow> 'e option \<times> IPNet" where
  "IPNet_UnmarshalJSON ParseCIDR n decoded = (case decoded of
     Inl err \<Rightarrow> (Some err, n)
   | Inr r \<Rightarrow>
       (case ParseCIDR (with_mask r) of
          Inl err \<Rightarrow> (Some err, n\<lparr>raw := with_mask r, ipnet := None\<rparr>)
        | Inr p \<Rightarrow> (None, n\<lparr>raw := with_mask r, ipnet := Some p\<rparr>)))"

definition IPNet_MarshalJSON :: "(string \<Rightarrow> 'j) \<Rightarrow> IPNet \<Rightarrow> 'j" where
  "IPNet_MarshalJSON json n = json (raw n)"

lemma with_mask_idem: "with_mask (with_mask s) = with_mask s"
  by (simp add: with_mask_def)

text \<open>What was parsed is written as it was given, a missing mask being that of one host, and read back.\<close>

lemma IPNet_JSON_roundtrip:
  assumes "ParseIPNet ParseCIDR s = (n, None)"
  shows "IPNet_UnmarshalJSON ParseCIDR n0 (Inr (IPNet_MarshalJSON (\<lambda>r. r) n)) = (None, n)"
  using assms by (auto simp: ParseIPNet_def IPNet_UnmarshalJSON_def IPNet_MarshalJSON_def with_mask_idem Let_def split: sum.splits)

text \<open>\<open>(*net.IPNet).Contains\<close>: the IPv4 form of a mapped address is compared, and lengths must agree.\<close>

definition to4 :: "bytes \<Rightarrow> bytes option" where
  "to4 ip = (if length ip = 4 then Some ip
     else if length ip = 16 \<and> take 10 ip = replicate 10 0 \<and> ip ! 10 = 0xFF \<and> ip ! 11 = 0xFF
     then Some (drop 12 ip) else None)"

definition short_ip :: "bytes \<Rightarrow> bytes" where
  "short_ip ip = (case to4 ip of Some x \<Rightarrow> x | None \<Rightarrow> ip)"

definition net_Contains :: "ip_net \<Rightarrow> bytes \<Rightarrow> bool" where
  "net_Contains n ip =
     (let nn = short_ip (net_ip n);
          m = (if length (net_mask n) = length nn then net_mask n
               else if length (net_mask n) = 16 \<and> length nn = 4 then drop 12 (net_mask n) else []);
          x = short_ip ip
      in m \<noteq> [] \<and> length x = length nn \<and>
         list_all2 (\<lambda>(a, k) b. and a k = and b k) (zip nn m) x)"

text \<open>A network that failed to parse is a nil pointer, whose method reads its fields.\<close>

fun IPNets_Contains :: "IPNet list \<Rightarrow> bytes \<Rightarrow> bool run" where
  "IPNets_Contains [] ip = Ret False"
| "IPNets_Contains (n # s) ip = (case ipnet n of
     None \<Rightarrow> Panic
   | Some p \<Rightarrow> if net_Contains p ip then Ret True else IPNets_Contains s ip)"

section \<open>The remote address\<close>

definition last_index :: "string \<Rightarrow> char \<Rightarrow> nat option" where
  "last_index s c = (if c \<in> set s then Some (length s - 1 - length (takeWhile (\<lambda>x. x \<noteq> c) (rev s))) else None)"

text \<open>The classification of addresses: parsing, globally routable, private.\<close>

record ip_class =
  ParseIP :: "string \<Rightarrow> bytes option"
  IsGlobalUnicast :: "bytes \<Rightarrow> bool"
  IsPrivate :: "bytes \<Rightarrow> bool"

text \<open>The forwarded addresses, from the last one on.\<close>

fun scan_forwarded :: "ip_class \<Rightarrow> IPNet list \<Rightarrow> string \<Rightarrow> string list \<Rightarrow> string run" where
  "scan_forwarded cls trustIP remoteAddr [] = Ret remoteAddr"
| "scan_forwarded cls trustIP remoteAddr (s # ips) =
     (case ParseIP cls s of
        None \<Rightarrow> scan_forwarded cls trustIP remoteAddr ips
      | Some ip \<Rightarrow>
          bind_run (IPNets_Contains trustIP ip) (\<lambda>trusted.
            if trusted \<or> \<not> IsGlobalUnicast cls ip \<or> IsPrivate cls ip then scan_forwarded cls trustIP remoteAddr ips
            else Ret s))"

definition GetRemoteAddr :: "ip_class \<Rightarrow> string \<Rightarrow> string \<Rightarrow> IPNet list \<Rightarrow> string run" where
  "GetRemoteAddr cls RemoteAddr forwardedFor trustIP =
     (let remoteAddr = (case last_index RemoteAddr (CHR '':'') of Some i \<Rightarrow> take i RemoteAddr | None \<Rightarrow> RemoteAddr);
          ipSet = [remoteAddr] @ split_on (CHR '','') forwardedFor
      in scan_forwarded cls trustIP remoteAddr (rev (tl ipSet)))"

text \<open>An address that is passed over: it does not parse, is trusted, or is not a public one.\<close>

definition skipped :: "ip_class \<Rightarrow> IPNet list \<Rightarrow> string \<Rightarrow> bool" where
  "skipped cls trustIP s = (case ParseIP cls s of None \<Rightarrow> True
     | Some ip \<Rightarrow> IPNets_Contains trustIP ip = Ret True \<or> \<not> IsGlobalUnicast cls ip \<or> IsPrivate cls ip)"

lemma IPNets_Contains_ok: "\<forall>n \<in> set nets. ipnet n \<noteq> None \<Longrightarrow> \<exists>b. IPNets_Contains nets ip = Ret b"
  by (induction nets) auto

lemma scan_forwarded_first:
  assumes "\<forall>n \<in> set nets. ipnet n \<noteq> None"
  shows "scan_forwarded cls nets r ips =
    Ret (case find (\<lambda>s. \<not> skipped cls nets s) ips of None \<Rightarrow> r | Some s \<Rightarrow> s)"
proof (induction ips)
  case (Cons s ips)
  show ?case
  proof (cases "ParseIP cls s")
    case (Some ip)
    obtain b where "IPNets_Contains nets ip = Ret b" using IPNets_Contains_ok [OF assms] by blast
    with Cons Some show ?thesis by (auto simp: skipped_def)
  qed (use Cons in \<open>simp add: skipped_def\<close>)
qed simp

lemma GetRemoteAddr_eq:
  assumes "\<forall>n \<in> set trustIP. ipnet n \<noteq> None" "CHR '':'' \<notin> set port"
  shows "GetRemoteAddr cls (host @ '':'' @ port) forwardedFor trustIP =
    Ret (case find (\<lambda>s. \<not> skipped cls trustIP s) (rev (split_on (CHR '','') forwardedFor)) of
      None \<Rightarrow> host | Some s \<Rightarrow> s)"
proof -
  have "takeWhile (\<lambda>x. x \<noteq> CHR '':'') (rev (host @ '':'' @ port)) = rev port"
    using assms(2) by (simp add: takeWhile_append)
  then have "last_index (host @ '':'' @ port) (CHR '':'') = Some (length host)"
    by (simp add: last_index_def)
  then show ?thesis
    by (simp add: GetRemoteAddr_def scan_forwarded_first [OF assms(1)])
qed


definition sample_class :: ip_class where
  "sample_class = \<lparr>ParseIP = (\<lambda>s. if s = ''8.8.8.8'' then Some [8, 8, 8, 8]
       else if s = ''9.9.9.9'' then Some [9, 9, 9, 9] else None),
     IsGlobalUnicast = (\<lambda>_. True), IsPrivate = (\<lambda>_. False)\<rparr>"


text \<open>
  The header is believed whatever the peer: a client that connects directly, from an address no
  network trusts, is taken for the public address it writes into the header; and an address after a
  comma and a space is not recognised, so that the one before it is taken.
\<close>

theorem GetRemoteAddr_spoofed:
  assumes "ParseIP cls fake = Some ip" "IsGlobalUnicast cls ip" "\<not> IsPrivate cls ip" "CHR '','' \<notin> set fake"
    "ParseIP cls ('' '' @ proxy) = None" "CHR '','' \<notin> set proxy" "CHR '':'' \<notin> set port"
  shows "GetRemoteAddr cls (host @ '':'' @ port) fake [] = Ret fake \<and>
    GetRemoteAddr cls (host @ '':'' @ port) (fake @ '','' @ '' '' @ proxy) [] = Ret fake"
proof -
  have one: "CHR '','' \<notin> set s \<Longrightarrow> split_on (CHR '','') s = [s]" for s
    by (induction s) auto
  have two: "CHR '','' \<notin> set s \<Longrightarrow> split_on (CHR '','') (s @ CHR '','' # t) = s # split_on (CHR '','') t" for s t
    by (induction s) auto
  have "\<not> skipped cls [] fake" "skipped cls [] ('' '' @ proxy)"
    using assms by (auto simp: skipped_def)
  then show ?thesis
    using GetRemoteAddr_eq [of "[]" port cls host] assms(4,6,7) one [of fake] two [of fake "'' '' @ proxy"]
      one [of "'' '' @ proxy"] by auto
qed

theorem GetRemoteAddr_spoofed_witness:
  "GetRemoteAddr sample_class ''203.0.113.7:5000'' ''8.8.8.8'' [] = Ret ''8.8.8.8'' \<and>
   GetRemoteAddr sample_class ''203.0.113.7:5000'' ''8.8.8.8, 9.9.9.9'' [] = Ret ''8.8.8.8''"
  using GetRemoteAddr_spoofed [of sample_class "''8.8.8.8''" "[8, 8, 8, 8]" "''9.9.9.9''" "''5000''" "''203.0.113.7''"]
  by (simp add: sample_class_def)

end
