(* ===== verification/Uuid.thy ===== *)
theory Uuid
  imports Encoding
begin

text \<open>
  \<open>generator/uuid.go\<close>: identifiers that begin with the time in microseconds, shifted by a hash of the
  seeds. The 16 bytes of the random UUID (version 4) are a parameter, and so is the clock.
\<close>

definition midUint64 :: u64 where
  "midUint64 = push_bit 63 1"

definition get_u64 :: "bytes \<Rightarrow> u64" where
  "get_u64 bs = foldl (\<lambda>acc b. acc * 256 + ucast b) 0 (take 8 bs)"

text \<open>The seed is read in groups of 8 bytes, the last one filled up with zeros.\<close>

function seed_hash :: "u64 \<Rightarrow> bytes \<Rightarrow> u64" where
  "seed_hash h seedBytes =
     (if seedBytes = [] then h
      else if length seedBytes \<le> 8 then h + get_u64 (seedBytes @ replicate (8 - length seedBytes) 0)
      else seed_hash (h + get_u64 (take 8 seedBytes)) (drop 8 seedBytes))"
  by auto
termination by (relation "measure (\<lambda>(_, s). length s)") auto

declare seed_hash.simps [simp del]

definition hash_all :: "string list \<Rightarrow> u64" where
  "hash_all seed =
     (let h = foldl (\<lambda>h s. seed_hash h (bytes_of s)) 0 seed
      in if h > midUint64 then h - midUint64 else h)"

definition stamp :: "u64 \<Rightarrow> string list \<Rightarrow> u64" where
  "stamp ts seed = (if ts < midUint64 then ts + hash_all seed else ts)"

definition put_u64 :: "u64 \<Rightarrow> bytes" where
  "put_u64 n = map (\<lambda>i. ucast (drop_bit (8 * (7 - i)) n)) [0..<8]"

definition NewUUID :: "u64 \<Rightarrow> bytes \<Rightarrow> string list \<Rightarrow> bytes" where
  "NewUUID ts v4 seed = put_u64 (stamp ts seed) @ drop 8 v4"

definition NewId :: "u64 \<Rightarrow> bytes \<Rightarrow> string list \<Rightarrow> string" where
  "NewId ts v4 seed = hex_encode (NewUUID ts v4 seed)"

lemma unat_midUint64: "unat midUint64 = 2 ^ 63"
  by (simp add: midUint64_def)

lemma hash_all_le: "unat (hash_all seed) \<le> 2 ^ 63"
proof -
  let ?h = "foldl (\<lambda>h s. seed_hash h (bytes_of s)) 0 seed"
  have "unat ?h < 2 ^ 64" by (rule order.strict_trans2 [OF unsigned_less]) simp
  then show ?thesis
    by (auto simp: hash_all_def Let_def unat_midUint64 word_less_nat_alt unat_sub_if')
qed

lemma stamp_no_overflow: "ts < midUint64 \<Longrightarrow> unat (stamp ts seed) = unat ts + unat (hash_all seed)"
  using hash_all_le [of seed] unat_midUint64
  by (simp add: stamp_def word_less_nat_alt unat_plus_if')

lemma put_u64_inj: "put_u64 m = put_u64 n \<Longrightarrow> m = n"
proof -
  assume eq: "put_u64 m = put_u64 n"
  have b: "bit m k = bit n k" if "k < 64" for k
  proof -
    let ?i = "7 - k div 8"
    have i: "?i < 8" and k: "8 * (7 - ?i) + k mod 8 = k" using that by auto
    have "(put_u64 m ! ?i) = (put_u64 n ! ?i)" using eq by simp
    then have "(ucast (drop_bit (8 * (7 - ?i)) m) :: byte) = ucast (drop_bit (8 * (7 - ?i)) n)"
      using i by (simp add: put_u64_def)
    then have "bit (ucast (drop_bit (8 * (7 - ?i)) m) :: byte) (k mod 8) = bit (ucast (drop_bit (8 * (7 - ?i)) n) :: byte) (k mod 8)"
      by simp
    then show ?thesis using that k by (simp add: bit_simps)
  qed
  show "m = n" by (rule bit_word_eqI) (simp add: b)
qed

text \<open>
  Before the year 294247 the seed never overflows the stamp, so that with the same seeds a later
  identifier has a larger stamp than an earlier one, and the first eight bytes tell stamps apart; the
  rest of the identifier is the random part.
\<close>

theorem NewUUID_ordered_by_time:
  assumes "ts < ts'" "ts' < midUint64" "length v4 = 16" "length v4' = 16"
  shows "stamp ts seed < stamp ts' seed \<and> NewUUID ts v4 seed \<noteq> NewUUID ts' v4' seed \<and>
    drop 8 (NewUUID ts v4 seed) = drop 8 v4 \<and> length (NewUUID ts v4 seed) = 16"
proof -
  have "ts < midUint64" using assms by simp
  then have less: "stamp ts seed < stamp ts' seed"
    using assms(1) stamp_no_overflow [of ts seed] stamp_no_overflow [OF assms(2), of seed]
    by (simp add: word_less_nat_alt)
  have len: "length (put_u64 n) = 8" for n by (simp add: put_u64_def)
  have "put_u64 (stamp ts seed) \<noteq> put_u64 (stamp ts' seed)" using less put_u64_inj by force
  then show ?thesis using less len assms(3) by (auto simp: NewUUID_def append_eq_append_conv)
qed

theorem NewUUID_ordered_by_time_witness:
  "stamp 5 [''a''] < stamp 9 [''a''] \<and>
    NewUUID 5 (replicate 16 7) [''a''] \<noteq> NewUUID 9 (replicate 16 7) [''a'']"
  using NewUUID_ordered_by_time [of 5 9 "replicate 16 7" "replicate 16 7" "[''a'']"]
  by (simp add: word_less_nat_alt unat_midUint64)

end
