(* ===== verification/Jwt.thy ===== *)
theory Jwt
  imports Prelude Slices
begin

text \<open>
  \<open>jwt/jwt.go\<close>: the signing configuration and the choice of the verification key. The JWT library, the
  key parsers of \<open>crypto/x509\<close> and \<open>encoding/pem\<close> and the key generators are parameters; a key is
  known by its kind, an elliptic-curve key also by the bit size of its curve.
\<close>

section \<open>Methods and keys\<close>

datatype sign_method =
    HS256 | HS384 | HS512 | RS256 | RS384 | RS512 | ES256 | ES384 | ES512
  | PS256 | PS384 | PS512 | EdDSA | NoneMethod

datatype family = HMAC | RSA | ECDSA | RSAPSS | Ed25519 | NoneFamily

fun family_of :: "sign_method \<Rightarrow> family" where
  "family_of HS256 = HMAC" | "family_of HS384 = HMAC" | "family_of HS512 = HMAC"
| "family_of RS256 = RSA" | "family_of RS384 = RSA" | "family_of RS512 = RSA"
| "family_of ES256 = ECDSA" | "family_of ES384 = ECDSA" | "family_of ES512 = ECDSA"
| "family_of PS256 = RSAPSS" | "family_of PS384 = RSAPSS" | "family_of PS512 = RSAPSS"
| "family_of EdDSA = Ed25519" | "family_of NoneMethod = NoneFamily"

datatype key = SecretKey string | RSAPrivate nat | RSAPublic nat | ECPrivate nat int | ECPublic nat int | OtherKey

record jwt_config =
  PrivateKey :: "key option"
  PublicKey :: "key option"
  Algorithm :: "sign_method option"
  Issuer :: string

datatype jwt_error =
    InvalidAlgorithm string
  | PublicKeyNil
  | InvalidMethod
  | BadRSAKey
  | BadECKey
  | InvalidCurve int
  | UnsupportedKey
  | InvalidToken
  | DecodeError
  | GenerateError

definition GetPublicKey :: "jwt_config \<Rightarrow> key option" where
  "GetPublicKey j = PublicKey j"

section \<open>Verification\<close>

text \<open>The key function that \<open>ParseWithClaims\<close> gives the library.\<close>

definition key_func :: "jwt_config \<Rightarrow> sign_method \<Rightarrow> jwt_error + key option" where
  "key_func j m = (case family_of m of
     RSA \<Rightarrow> (if PublicKey j = None then Inl PublicKeyNil else Inr (PublicKey j))
   | ECDSA \<Rightarrow> (if PublicKey j = None then Inl PublicKeyNil else Inr (PublicKey j))
   | HMAC \<Rightarrow> Inr (PrivateKey j)
   | _ \<Rightarrow> Inl InvalidMethod)"

text \<open>\<open>lib\<close> is \<open>ParseWithClaims\<close> of the library: the token for a text and a key function.\<close>

type_synonym 't jwt_lib = "string \<Rightarrow> (sign_method \<Rightarrow> jwt_error + key option) \<Rightarrow> jwt_error + 't"

definition cfg_ParseWithClaims :: "'t jwt_lib \<Rightarrow> jwt_config \<Rightarrow> string \<Rightarrow> jwt_error + 't" where
  "cfg_ParseWithClaims lib j tokenString = lib tokenString (key_func j)"

definition ParseWithClaims ::
  "'t jwt_lib \<Rightarrow> (string \<Rightarrow> jwt_error + 't \<times> nat) \<Rightarrow> ('t \<Rightarrow> jwt_error + jwt_config) \<Rightarrow> string \<Rightarrow> jwt_error + 't" where
  "ParseWithClaims lib parse_unverified issuerFunc tokenString =
     (case parse_unverified tokenString of
        Inl err \<Rightarrow> Inl err
      | Inr (token, parts) \<Rightarrow>
          if parts < 3 then Inl InvalidToken
          else case issuerFunc token of
            Inl err \<Rightarrow> Inl err
          | Inr issuer \<Rightarrow> cfg_ParseWithClaims lib issuer tokenString)"

text \<open>\<open>set_issuer\<close> stores the issuer in the claims, \<open>sign\<close> is the library's signature.\<close>

definition SignedString :: "('c \<Rightarrow> string \<Rightarrow> 'c) \<Rightarrow> (sign_method option \<Rightarrow> 'c \<Rightarrow> key option \<Rightarrow> 'r) \<Rightarrow> jwt_config \<Rightarrow> 'c \<Rightarrow> 'r" where
  "SignedString set_issuer sign j claims = sign (Algorithm j) (set_issuer claims (Issuer j)) (PrivateKey j)"

section \<open>Construction\<close>

definition tokenAlgorithmMap :: "string \<Rightarrow> sign_method option" where
  "tokenAlgorithmMap = map_of [(''HS256'', HS256), (''HS384'', HS384), (''HS512'', HS512),
     (''RS256'', RS256), (''RS384'', RS384), (''RS512'', RS512),
     (''ES256'', ES256), (''ES384'', ES384), (''ES512'', ES512)]"

text \<open>The parsers of PEM keys: the identity of an RSA key; the identity and curve size of another.\<close>

record key_parsers =
  parse_rsa_pem :: "string \<Rightarrow> nat option"
  parse_ec_pem :: "string \<Rightarrow> (nat \<times> int) option"
  pem_decode :: "string \<Rightarrow> string option"
  parse_pkcs1 :: "string \<Rightarrow> bool"
  parse_ec_der :: "string \<Rightarrow> bool"
  parse_pkcs8 :: "string \<Rightarrow> key option"

definition ec_algorithm :: "int \<Rightarrow> sign_method option" where
  "ec_algorithm bits =
     (if bits = 256 then Some ES256 else if bits = 384 then Some ES384 else if bits = 512 then Some ES512 else None)"

definition NewJWTConfig :: "key_parsers \<Rightarrow> string \<Rightarrow> string \<Rightarrow> string \<Rightarrow> jwt_error + jwt_config" where
  "NewJWTConfig ps issuer method privateKey =
     (case tokenAlgorithmMap method of
        None \<Rightarrow> Inl (InvalidAlgorithm method)
      | Some alg \<Rightarrow>
          let cfg = \<lparr>PrivateKey = None, PublicKey = None, Algorithm = Some alg, Issuer = issuer\<rparr> in
          if method \<in> {''HS256'', ''HS384'', ''HS512''} then Inr (cfg\<lparr>PrivateKey := Some (SecretKey privateKey)\<rparr>)
          else if method \<in> {''RS256'', ''RS384'', ''RS512''} then
            (case parse_rsa_pem ps privateKey of
               None \<Rightarrow> Inl BadRSAKey
             | Some k \<Rightarrow> Inr (cfg\<lparr>PublicKey := Some (RSAPublic k), PrivateKey := Some (RSAPrivate k)\<rparr>))
          else if method \<in> {''ES256'', ''ES384'', ''ES512''} then
            (case parse_ec_pem ps privateKey of
               None \<Rightarrow> Inl BadECKey
             | Some (k, bits) \<Rightarrow>
                 (case ec_algorithm bits of
                    None \<Rightarrow> Inl (InvalidCurve bits)
                  | Some a \<Rightarrow>
                      Inr (cfg\<lparr>PublicKey := Some (ECPublic k bits), PrivateKey := Some (ECPrivate k bits), Algorithm := Some a\<rparr>)))
          else Inr cfg)"

definition NewJWTConfigBySecret :: "string \<Rightarrow> jwt_error + jwt_config" where
  "NewJWTConfigBySecret secret =
     Inr \<lparr>PrivateKey = Some (SecretKey secret), PublicKey = None, Algorithm = Some HS256, Issuer = []\<rparr>"

text \<open>The key generators: random bytes, and the PEM texts of new RSA and P-256 keys.\<close>

record key_gen =
  random_bytes :: "nat \<Rightarrow> string option"
  gen_rsa :: "(nat \<times> string) option"
  gen_p256 :: "string option"

definition NewRandomRSAJWTConfig :: "key_gen \<Rightarrow> jwt_error + jwt_config" where
  "NewRandomRSAJWTConfig g = (case gen_rsa g of
     None \<Rightarrow> Inl GenerateError
   | Some (k, pem) \<Rightarrow>
       Inr \<lparr>PrivateKey = Some (RSAPrivate k), PublicKey = Some (RSAPublic k), Algorithm = Some RS256, Issuer = []\<rparr>)"

definition NewRandomKey :: "key_gen \<Rightarrow> string \<Rightarrow> jwt_error + string" where
  "NewRandomKey g method =
     (if method \<in> {''HS256'', ''HS384'', ''HS512''} then
        (case random_bytes g 2048 of None \<Rightarrow> Inl GenerateError | Some priv \<Rightarrow> Inr priv)
      else if method \<in> {''RS256'', ''RS384'', ''RS512''} then
        (case gen_rsa g of None \<Rightarrow> Inl GenerateError | Some (k, pem) \<Rightarrow> Inr pem)
      else if method \<in> {''ES256'', ''ES384'', ''ES512''} then
        (case gen_p256 g of None \<Rightarrow> Inl GenerateError | Some pem \<Rightarrow> Inr pem)
      else Inl (InvalidAlgorithm method))"

record jwt_plain =
  p_secret :: string
  p_private_key :: string
  p_algorithm :: string

text \<open>The algorithm for a configuration that names none; a text without a PEM block is a nil dereference.\<close>

definition guess_algorithm :: "key_parsers \<Rightarrow> jwt_plain \<Rightarrow> (jwt_error + string) run" where
  "guess_algorithm ps c =
     (if p_algorithm c \<noteq> [] then Ret (Inr (p_algorithm c))
      else if p_private_key c \<noteq> [] then
        (case pem_decode ps (p_private_key c) of
           None \<Rightarrow> Panic
         | Some block \<Rightarrow>
             if parse_pkcs1 ps block then Ret (Inr ''RS256'')
             else if parse_ec_der ps block then Ret (Inr ''ES256'')
             else case parse_pkcs8 ps block of
               Some (ECPrivate k n) \<Rightarrow> Ret (Inr ''ES256'')
             | Some (RSAPrivate k) \<Rightarrow> Ret (Inr ''RS256'')
             | Some _ \<Rightarrow> Ret (Inl UnsupportedKey)
             | None \<Rightarrow> Ret (Inr []))
      else if p_secret c \<noteq> [] then Ret (Inr ''HS256'')
      else Ret (Inr []))"

definition cfg_UnmarshalJSON :: "key_parsers \<Rightarrow> jwt_config \<Rightarrow> jwt_plain option \<Rightarrow> (jwt_error option \<times> jwt_config) run" where
  "cfg_UnmarshalJSON ps j decoded = (case decoded of
     None \<Rightarrow> Ret (Some DecodeError, j)
   | Some c \<Rightarrow>
       bind_run (guess_algorithm ps c) (\<lambda>r. case r of
         Inl err \<Rightarrow> Ret (Some err, j)
       | Inr algorithm \<Rightarrow>
           (case NewJWTConfig ps [] algorithm (DefaultString [p_private_key c, p_secret c]) of
              Inl err \<Rightarrow> Ret (Some err, j)
            | Inr issuer \<Rightarrow> Ret (None, issuer))))"

section \<open>Claims\<close>

record StandardClaims =
  c_Issuer :: string
  c_Subject :: string
  c_Audience :: "string list"
  c_ExpiresAt :: "int option"
  c_NotBefore :: "int option"
  c_IssuedAt :: "int option"
  c_ID :: string

definition SetIssuer :: "StandardClaims \<Rightarrow> string \<Rightarrow> StandardClaims" where
  "SetIssuer c issuer = c\<lparr>c_Issuer := issuer\<rparr>"

section \<open>Which tokens are accepted\<close>

text \<open>The kinds of keys the methods of the library verify with.\<close>

fun key_fits :: "family \<Rightarrow> key \<Rightarrow> bool" where
  "key_fits HMAC (SecretKey s) = True"
| "key_fits RSA (RSAPublic k) = True"
| "key_fits ECDSA (ECPublic k n) = True"
| "key_fits _ _ = False"

text \<open>
  A configuration fits when its keys are of its algorithm's family: a secret and no public key, or a
  key pair. A verifier with the key function of such a configuration cannot be led to another family.
\<close>

definition consistent :: "jwt_config \<Rightarrow> bool" where
  "consistent j \<longleftrightarrow> (\<exists>a. Algorithm j = Some a \<and>
     ((family_of a = HMAC \<and> PublicKey j = None \<and> (\<exists>s. PrivateKey j = Some (SecretKey s))) \<or>
      (family_of a = RSA \<and> (\<exists>k. PublicKey j = Some (RSAPublic k) \<and> PrivateKey j = Some (RSAPrivate k))) \<or>
      (family_of a = ECDSA \<and> (\<exists>k n. PublicKey j = Some (ECPublic k n) \<and> PrivateKey j = Some (ECPrivate k n)))))"

locale config_source =
  fixes make :: "'i \<Rightarrow> jwt_error + jwt_config"
  assumes made_consistent: "make i = Inr j \<Longrightarrow> consistent j"
begin

lemma accepted_family:
  assumes "make i = Inr j" "key_func j m = Inr (Some k)" "key_fits (family_of m) k"
  shows "\<exists>a. Algorithm j = Some a \<and> family_of m = family_of a"
  using made_consistent [OF assms(1)] assms(2,3)
  by (cases m) (auto simp: consistent_def key_func_def)

end

lemma tokenAlgorithmMap_cases:
  "tokenAlgorithmMap m = Some a \<Longrightarrow>
    (m \<in> {''HS256'', ''HS384'', ''HS512''} \<and> family_of a = HMAC) \<or>
    (m \<in> {''RS256'', ''RS384'', ''RS512''} \<and> m \<notin> {''HS256'', ''HS384'', ''HS512''} \<and> family_of a = RSA) \<or>
    (m \<in> {''ES256'', ''ES384'', ''ES512''} \<and> m \<notin> {''HS256'', ''HS384'', ''HS512''} \<and>
      m \<notin> {''RS256'', ''RS384'', ''RS512''} \<and> family_of a = ECDSA)"
  by (auto simp: tokenAlgorithmMap_def split: if_splits)

lemma NewJWTConfig_consistent:
  assumes "NewJWTConfig ps issuer method pk = Inr j"
  shows "consistent j \<and> Issuer j = issuer"
proof -
  obtain a where a: "tokenAlgorithmMap method = Some a"
    using assms by (auto simp: NewJWTConfig_def split: option.splits)
  from tokenAlgorithmMap_cases [OF a] show ?thesis
  proof (elim disjE conjE)
    assume "method \<in> {''HS256'', ''HS384'', ''HS512''}" "family_of a = HMAC"
    with assms a show ?thesis by (auto simp: NewJWTConfig_def consistent_def)
  next
    assume m: "method \<in> {''RS256'', ''RS384'', ''RS512''}" "method \<notin> {''HS256'', ''HS384'', ''HS512''}"
      "family_of a = RSA"
    have "NewJWTConfig ps issuer method pk = (case parse_rsa_pem ps pk of
        None \<Rightarrow> Inl BadRSAKey
      | Some k \<Rightarrow>
          Inr \<lparr>PrivateKey = Some (RSAPrivate k), PublicKey = Some (RSAPublic k), Algorithm = Some a, Issuer = issuer\<rparr>)"
      unfolding NewJWTConfig_def a option.case Let_def if_not_P [OF m(2)] if_P [OF m(1)]
      by (auto split: option.split)
    with assms m(3) show ?thesis by (auto simp: consistent_def split: option.splits)
  next
    assume m: "method \<in> {''ES256'', ''ES384'', ''ES512''}" "method \<notin> {''HS256'', ''HS384'', ''HS512''}"
      "method \<notin> {''RS256'', ''RS384'', ''RS512''}"
    have "NewJWTConfig ps issuer method pk = (case parse_ec_pem ps pk of
        None \<Rightarrow> Inl BadECKey
      | Some (k, bits) \<Rightarrow>
          (case ec_algorithm bits of
             None \<Rightarrow> Inl (InvalidCurve bits)
           | Some a' \<Rightarrow>
               Inr \<lparr>PrivateKey = Some (ECPrivate k bits), PublicKey = Some (ECPublic k bits), Algorithm = Some a', Issuer = issuer\<rparr>))"
      unfolding NewJWTConfig_def a option.case Let_def if_not_P [OF m(2)] if_not_P [OF m(3)] if_P [OF m(1)]
      by (auto split: option.split)
    with assms obtain k n a' where "ec_algorithm n = Some a'"
      "j = \<lparr>PrivateKey = Some (ECPrivate k n), PublicKey = Some (ECPublic k n), Algorithm = Some a', Issuer = issuer\<rparr>"
      by (auto split: option.splits)
    then show ?thesis by (auto simp: consistent_def ec_algorithm_def split: if_splits)
  qed
qed

interpretation new_config: config_source "\<lambda>(issuer, method, pk). NewJWTConfig ps issuer method pk" for ps
  by unfold_locales (auto dest: NewJWTConfig_consistent split: prod.splits)

interpretation secret_config: config_source NewJWTConfigBySecret
  by unfold_locales (auto simp: NewJWTConfigBySecret_def consistent_def)

interpretation random_config: config_source "\<lambda>_ :: unit. NewRandomRSAJWTConfig g" for g
  by unfold_locales (auto simp: NewRandomRSAJWTConfig_def consistent_def split: option.splits)

text \<open>
  A configuration made by \<open>NewJWTConfig\<close> or from a secret accepts only tokens whose method is of
  the family of its own algorithm: no unsigned token, no HMAC under a public key, no RSA under a
  secret; given a library that returns a token only when the key function has given it a key of the
  kind of the token's method.
\<close>

theorem ParseWithClaims_no_confusion:
  assumes "\<forall>s kf t. lib s kf = Inr t \<longrightarrow> (\<exists>k. kf (meth t) = Inr (Some k) \<and> key_fits (family_of (meth t)) k)"
    "NewJWTConfig ps issuer method pk = Inr j \<or> NewJWTConfigBySecret pk = Inr j"
    "cfg_ParseWithClaims lib j s = Inr t"
  shows "\<exists>a. Algorithm j = Some a \<and> family_of (meth t) = family_of a \<and> family_of a \<in> {HMAC, RSA, ECDSA}"
proof -
  obtain k where k: "key_func j (meth t) = Inr (Some k)" "key_fits (family_of (meth t)) k"
    using assms(1) [rule_format, of s "key_func j" t] assms(3) by (auto simp: cfg_ParseWithClaims_def)
  have "\<exists>a. Algorithm j = Some a \<and> family_of (meth t) = family_of a"
    using assms(2) new_config.accepted_family [of ps "(issuer, method, pk)" j "meth t" k]
      secret_config.accepted_family [of pk j "meth t" k] k by auto
  with k(2) show ?thesis by (cases "family_of (meth t)"; cases k) auto
qed

definition sample_lib :: "sign_method jwt_lib" where
  "sample_lib s kf = (case kf HS384 of
     Inr (Some (SecretKey k)) \<Rightarrow> (if s = k then Inr HS384 else Inl InvalidToken)
   | _ \<Rightarrow> Inl InvalidToken)"

theorem ParseWithClaims_no_confusion_witness:
  "\<exists>j. NewJWTConfigBySecret ''k'' = Inr j \<and> cfg_ParseWithClaims sample_lib j ''k'' = Inr HS384 \<and>
    (\<exists>a. Algorithm j = Some a \<and> family_of HS384 = family_of a \<and> family_of a \<in> {HMAC, RSA, ECDSA})"
proof -
  obtain j where j: "NewJWTConfigBySecret ''k'' = Inr j" by (simp add: NewJWTConfigBySecret_def)
  then have p: "cfg_ParseWithClaims sample_lib j ''k'' = Inr HS384"
    by (auto simp: NewJWTConfigBySecret_def cfg_ParseWithClaims_def sample_lib_def key_func_def)
  have lib: "\<forall>s kf t. sample_lib s kf = Inr t \<longrightarrow>
      (\<exists>k. kf (id t) = Inr (Some k) \<and> key_fits (family_of (id t)) k)"
    by (auto simp: sample_lib_def split: sum.splits option.splits key.splits if_splits)
  from ParseWithClaims_no_confusion [OF lib, of undefined "[]" "[]" "''k''" j "''k''" HS384] j p show ?thesis
    by auto
qed

text \<open>
  For the ES methods the curve decides the algorithm, not the method: with a key of 256 bits, such
  as \<open>NewRandomKey\<close> makes for all three, the configuration signs with ES256, and a P-521 key, the one
  ES512 is defined for, is refused, because its size is compared with 512.
\<close>

theorem ES_algorithm_from_curve:
  assumes "method \<in> {''ES256'', ''ES384'', ''ES512''}" "parse_ec_pem ps pk = Some (k, bits)"
  shows "(bits = 521 \<longrightarrow> NewJWTConfig ps issuer method pk = Inl (InvalidCurve 521)) \<and>
    (bits \<in> {256, 384} \<longrightarrow> (\<exists>j. NewJWTConfig ps issuer method pk = Inr j \<and>
      Algorithm j = Some (if bits = 256 then ES256 else ES384)))"
proof -
  have "NewJWTConfig ps issuer method pk = (case ec_algorithm bits of
      None \<Rightarrow> Inl (InvalidCurve bits)
    | Some a \<Rightarrow> Inr \<lparr>PrivateKey = Some (ECPrivate k bits), PublicKey = Some (ECPublic k bits), Algorithm = Some a, Issuer = issuer\<rparr>)"
    using assms by (auto simp: NewJWTConfig_def tokenAlgorithmMap_def Let_def split: option.split)
  then show ?thesis by (auto simp: ec_algorithm_def)
qed

definition sample_parsers :: key_parsers where
  "sample_parsers = \<lparr>parse_rsa_pem = (\<lambda>_. None), parse_ec_pem = (\<lambda>_. Some (1, 256)), pem_decode = (\<lambda>_. None),
     parse_pkcs1 = (\<lambda>_. False), parse_ec_der = (\<lambda>_. False), parse_pkcs8 = (\<lambda>_. None)\<rparr>"

theorem ES_algorithm_from_curve_witness:
  "\<exists>j. NewJWTConfig sample_parsers ''me'' ''ES512'' ''key'' = Inr j \<and> Algorithm j = Some ES256"
  using ES_algorithm_from_curve [of "''ES512''" sample_parsers "''key''" 1 256 "''me''"]
  by (simp add: sample_parsers_def)

text \<open>
  \<open>UnmarshalJSON\<close> of a configuration with a private key and no algorithm panics when the key text
  has no PEM block; with an algorithm of its own the result is that of \<open>NewJWTConfig\<close>, and an error
  leaves the configuration as it was.
\<close>

theorem jwt_UnmarshalJSON_outcomes:
  "(p_algorithm c = [] \<and> p_private_key c \<noteq> [] \<and> pem_decode ps (p_private_key c) = None \<longrightarrow>
      cfg_UnmarshalJSON ps j (Some c) = Panic) \<and>
   (p_algorithm c \<noteq> [] \<longrightarrow> cfg_UnmarshalJSON ps j (Some c) =
      (case NewJWTConfig ps [] (p_algorithm c) (if p_private_key c \<noteq> [] then p_private_key c else p_secret c) of
         Inl err \<Rightarrow> Ret (Some err, j) | Inr j' \<Rightarrow> Ret (None, j'))) \<and>
   (cfg_UnmarshalJSON ps j d = Ret (Some err, j2) \<longrightarrow> j2 = j)"
proof (intro conjI impI)
  show "cfg_UnmarshalJSON ps j (Some c) = Panic"
    if "p_algorithm c = [] \<and> p_private_key c \<noteq> [] \<and> pem_decode ps (p_private_key c) = None"
    using that by (simp add: cfg_UnmarshalJSON_def guess_algorithm_def)
  have "DefaultString [p_private_key c, p_secret c] = (if p_private_key c \<noteq> [] then p_private_key c else p_secret c)"
    by simp
  then show "cfg_UnmarshalJSON ps j (Some c) =
      (case NewJWTConfig ps [] (p_algorithm c) (if p_private_key c \<noteq> [] then p_private_key c else p_secret c) of
         Inl err \<Rightarrow> Ret (Some err, j) | Inr j' \<Rightarrow> Ret (None, j'))" if "p_algorithm c \<noteq> []"
    using that by (simp add: cfg_UnmarshalJSON_def guess_algorithm_def del: DefaultString.simps)
  show "j2 = j" if "cfg_UnmarshalJSON ps j d = Ret (Some err, j2)"
    using that
    by (cases d; cases "guess_algorithm ps (the d)") (auto simp: cfg_UnmarshalJSON_def split: sum.splits)
qed

theorem jwt_UnmarshalJSON_outcomes_witness:
  "cfg_UnmarshalJSON sample_parsers \<lparr>PrivateKey = None, PublicKey = None, Algorithm = None, Issuer = []\<rparr>
     (Some \<lparr>p_secret = [], p_private_key = ''no pem'', p_algorithm = []\<rparr>) = Panic"
  using jwt_UnmarshalJSON_outcomes [of "\<lparr>p_secret = [], p_private_key = ''no pem'', p_algorithm = []\<rparr>" sample_parsers]
  by (simp add: sample_parsers_def)

end
