(* ===== verification/Jwt_Tokens.thy ===== *)
theory Jwt_Tokens
  imports Jwt
begin

text \<open>
  Tokens of \<open>jwt/jwt.go\<close> from the signature to the check: \<open>SignedString\<close> stores the issuer in the claims and
  signs them, \<open>ParseWithClaims\<close> reads the issuer of an unverified token, asks for its configuration and
  verifies the token with that. The library that signs, parses and verifies is a parameter.
\<close>

section \<open>Claims and issuers\<close>

text \<open>The getters of \<open>StandardClaims\<close> give the fields, and never an error.\<close>

definition GetIssuer :: "StandardClaims \<Rightarrow> string \<times> jwt_error option" where "GetIssuer c = (c_Issuer c, None)"
definition GetSubject :: "StandardClaims \<Rightarrow> string \<times> jwt_error option" where "GetSubject c = (c_Subject c, None)"
definition GetAudience :: "StandardClaims \<Rightarrow> string list \<times> jwt_error option" where "GetAudience c = (c_Audience c, None)"
definition GetExpirationTime :: "StandardClaims \<Rightarrow> int option \<times> jwt_error option" where "GetExpirationTime c = (c_ExpiresAt c, None)"
definition GetNotBefore :: "StandardClaims \<Rightarrow> int option \<times> jwt_error option" where "GetNotBefore c = (c_NotBefore c, None)"
definition GetIssuedAt :: "StandardClaims \<Rightarrow> int option \<times> jwt_error option" where "GetIssuedAt c = (c_IssuedAt c, None)"

record token =
  t_method :: sign_method
  t_claims :: StandardClaims

text \<open>
  The library: a signature may depend on random bits, \<open>lib_verify\<close> is the check of the signature of a text
  under a method and a key, and \<open>lib_validate\<close> the check of the times in the claims at this moment.
\<close>

record 'rnd token_lib =
  lib_sign :: "sign_method option \<Rightarrow> StandardClaims \<Rightarrow> key option \<Rightarrow> 'rnd \<Rightarrow> jwt_error + string"
  lib_unverified :: "string \<Rightarrow> jwt_error + token \<times> nat"
  lib_verify :: "sign_method \<Rightarrow> string \<Rightarrow> key \<Rightarrow> bool"
  lib_validate :: "StandardClaims \<Rightarrow> jwt_error option"
  lib_parse :: "token jwt_lib"

definition claims_Valid :: "'rnd token_lib \<Rightarrow> StandardClaims \<Rightarrow> jwt_error option" where
  "claims_Valid L c = lib_validate L c"

text \<open>
  \<open>NewJWTIssuer\<close> gives the pointer of \<open>NewJWTConfig\<close> as an interface, which is not nil when the pointer is:
  the outer option is the interface, the inner one the pointer in it.
\<close>

definition NewJWTIssuer ::
  "key_parsers \<Rightarrow> string \<Rightarrow> string \<Rightarrow> string \<Rightarrow> jwt_config option option \<times> jwt_error option" where
  "NewJWTIssuer ps issuerId method privateKey = (case NewJWTConfig ps issuerId method privateKey of
     Inl err \<Rightarrow> (Some None, Some err)
   | Inr j \<Rightarrow> (Some (Some j), None))"

section \<open>The library\<close>

fun verification_key :: "key \<Rightarrow> key" where
  "verification_key (RSAPrivate k) = RSAPublic k"
| "verification_key (ECPrivate k n) = ECPublic k n"
| "verification_key k = k"

text \<open>
  What is relied on: a signed text is a token of three parts with the method and the claims, and its
  signature is verified by the key that belongs to the signing one; a method takes keys of its own kind only;
  a token is accepted when the key function gives a key that verifies it, and its claims are valid.
\<close>

definition good_token_lib :: "'rnd token_lib \<Rightarrow> bool" where
  "good_token_lib L \<longleftrightarrow>
     (\<forall>a c k rnd s. lib_sign L (Some a) c (Some k) rnd = Inr s \<longrightarrow>
        lib_unverified L s = Inr (\<lparr>t_method = a, t_claims = c\<rparr>, 3) \<and> lib_verify L a s (verification_key k)) \<and>
     (\<forall>m s k. lib_verify L m s k \<longrightarrow> key_fits (family_of m) k) \<and>
     (\<forall>s kf t. lib_parse L s kf = Inr t \<longleftrightarrow> lib_validate L (t_claims t) = None \<and>
        (\<exists>parts. lib_unverified L s = Inr (t, parts)) \<and> (\<exists>k. kf (t_method t) = Inr (Some k) \<and> lib_verify L (t_method t) s k))"

lemma signed_token:
  "good_token_lib L \<Longrightarrow> lib_sign L (Some a) c (Some k) rnd = Inr s \<Longrightarrow>
    lib_unverified L s = Inr (\<lparr>t_method = a, t_claims = c\<rparr>, 3) \<and> lib_verify L a s (verification_key k)"
  unfolding good_token_lib_def by blast

lemma verified_fits: "good_token_lib L \<Longrightarrow> lib_verify L m s k \<Longrightarrow> key_fits (family_of m) k"
  unfolding good_token_lib_def by blast

lemma parsed_token:
  "good_token_lib L \<Longrightarrow> lib_parse L s kf = Inr t \<longleftrightarrow> lib_validate L (t_claims t) = None \<and>
    (\<exists>parts. lib_unverified L s = Inr (t, parts)) \<and> (\<exists>k. kf (t_method t) = Inr (Some k) \<and> lib_verify L (t_method t) s k)"
  unfolding good_token_lib_def by blast

text \<open>The key function of a consistent configuration gives the key that belongs to its private key, and only that.\<close>

lemma consistent_keys:
  assumes "consistent j"
  shows "\<exists>a k. Algorithm j = Some a \<and> PrivateKey j = Some k \<and> key_func j a = Inr (Some (verification_key k)) \<and>
    (\<forall>m k'. key_func j m = Inr (Some k') \<longrightarrow> key_fits (family_of m) k' \<longrightarrow> k' = verification_key k \<and> family_of m = family_of a)"
  using assms unfolding consistent_def
  by (elim exE conjE disjE; force simp: key_func_def split: family.splits)

section \<open>Signing and checking\<close>

text \<open>A server that knows its issuers by name: the function it gives to \<open>ParseWithClaims\<close>.\<close>

definition by_issuer :: "(string \<Rightarrow> jwt_error + jwt_config) \<Rightarrow> token \<Rightarrow> jwt_error + jwt_config" where
  "by_issuer issuers t = (case GetIssuer (t_claims t) of (iss, None) \<Rightarrow> issuers iss | (iss, Some err) \<Rightarrow> Inl err)"

context config_source
begin

lemma token_accepted:
  assumes "good_token_lib L" "make i = Inr j" "SignedString SetIssuer (lib_sign L) j c rnd = Inr s" "issuers (Issuer j) = Inr j"
  shows "\<exists>a. Algorithm j = Some a \<and>
    ParseWithClaims (lib_parse L) (lib_unverified L) (by_issuer issuers) s = cfg_ParseWithClaims (lib_parse L) j s \<and>
    (\<forall>t. cfg_ParseWithClaims (lib_parse L) j s = Inr t \<longleftrightarrow>
       t = \<lparr>t_method = a, t_claims = SetIssuer c (Issuer j)\<rparr> \<and> claims_Valid L (SetIssuer c (Issuer j)) = None)"
proof -
  obtain a k where k: "Algorithm j = Some a" "PrivateKey j = Some k" "key_func j a = Inr (Some (verification_key k))"
    using consistent_keys [OF made_consistent [OF assms(2)]] by blast
  then have s: "lib_unverified L s = Inr (\<lparr>t_method = a, t_claims = SetIssuer c (Issuer j)\<rparr>, 3)" "lib_verify L a s (verification_key k)"
    using signed_token [OF assms(1)] assms(3) by (auto simp: SignedString_def)
  have "cfg_ParseWithClaims (lib_parse L) j s = Inr t \<longleftrightarrow>
      t = \<lparr>t_method = a, t_claims = SetIssuer c (Issuer j)\<rparr> \<and> claims_Valid L (SetIssuer c (Issuer j)) = None" for t
    using s k(3) by (auto simp: cfg_ParseWithClaims_def parsed_token [OF assms(1)] claims_Valid_def)
  with k(1) s(1) assms(4) show ?thesis
    by (simp add: ParseWithClaims_def by_issuer_def GetIssuer_def SetIssuer_def)
qed

end

text \<open>A decoded configuration is one more source.\<close>

definition decoded_jwt :: "key_parsers \<Rightarrow> jwt_plain \<Rightarrow> jwt_error + jwt_config" where
  "decoded_jwt ps d = (case cfg_UnmarshalJSON ps \<lparr>PrivateKey = None, PublicKey = None, Algorithm = None, Issuer = []\<rparr> (Some d) of
     Ret (None, j) \<Rightarrow> Inr j
   | Ret (Some err, j) \<Rightarrow> Inl err
   | Panic \<Rightarrow> Inl DecodeError)"

interpretation decoded_config: config_source "decoded_jwt ps" for ps
proof
  show "consistent j" if made: "decoded_jwt ps d = Inr j" for d j
  proof (cases "guess_algorithm ps d")
    case (Ret r)
    with made obtain alg where "NewJWTConfig ps [] alg (DefaultString [p_private_key d, p_secret d]) = Inr j"
      by (cases r) (auto simp: decoded_jwt_def cfg_UnmarshalJSON_def split: sum.splits)
    then show ?thesis using NewJWTConfig_consistent by blast
  qed (use made in \<open>simp add: decoded_jwt_def cfg_UnmarshalJSON_def\<close>)
qed

text \<open>
  A library for examples: a token is the secret and the issuer, with a dot between them; claims with a subject
  are not valid.
\<close>

definition dot :: char where "dot = CHR 0x2E"

definition issued :: "string \<Rightarrow> StandardClaims" where
  "issued iss = \<lparr>c_Issuer = iss, c_Subject = [], c_Audience = [], c_ExpiresAt = None, c_NotBefore = None, c_IssuedAt = None, c_ID = []\<rparr>"

definition dotted :: "string \<Rightarrow> jwt_error + token \<times> nat" where
  "dotted s = (if dot \<in> set s then Inr (\<lparr>t_method = HS256, t_claims = issued (tl (dropWhile (\<lambda>x. x \<noteq> dot) s))\<rparr>, 3) else Inl InvalidToken)"

definition plain_verify :: "sign_method \<Rightarrow> string \<Rightarrow> key \<Rightarrow> bool" where
  "plain_verify m s k = (m = HS256 \<and> k = SecretKey (takeWhile (\<lambda>x. x \<noteq> dot) s))"

definition plain_validate :: "StandardClaims \<Rightarrow> jwt_error option" where
  "plain_validate c = (if c_Subject c = [] then None else Some InvalidToken)"

definition plain_tokens :: "unit token_lib" where
  "plain_tokens = \<lparr>
     lib_sign = (\<lambda>a c k _. case k of
         Some (SecretKey k) \<Rightarrow> if a = Some HS256 \<and> c = issued (c_Issuer c) \<and> dot \<notin> set k then Inr (k @ dot # c_Issuer c) else Inl InvalidToken
       | _ \<Rightarrow> Inl InvalidToken),
     lib_unverified = dotted, lib_verify = plain_verify, lib_validate = plain_validate,
     lib_parse = (\<lambda>s kf. case dotted s of
         Inr (t, _) \<Rightarrow> (case kf (t_method t) of
             Inr (Some k) \<Rightarrow> if plain_verify (t_method t) s k \<and> plain_validate (t_claims t) = None then Inr t else Inl InvalidToken
           | _ \<Rightarrow> Inl InvalidToken)
       | Inl err \<Rightarrow> Inl err)\<rparr>"

lemma dot_split: "dot \<notin> set k \<Longrightarrow> takeWhile (\<lambda>x. x \<noteq> dot) (k @ dot # iss) = k \<and> dropWhile (\<lambda>x. x \<noteq> dot) (k @ dot # iss) = dot # iss"
  by (induction k) auto

lemma plain_tokens_good: "good_token_lib plain_tokens"
  unfolding good_token_lib_def
proof (intro conjI allI impI)
  fix a c k rnd s assume s: "lib_sign plain_tokens (Some a) c (Some k) rnd = Inr s"
  then obtain x where x: "k = SecretKey x" "a = HS256" "c = issued (c_Issuer c)" "dot \<notin> set x" "s = x @ dot # c_Issuer c"
    by (auto simp: plain_tokens_def split: key.splits if_splits)
  then show "lib_unverified plain_tokens s = Inr (\<lparr>t_method = a, t_claims = c\<rparr>, 3)" "lib_verify plain_tokens a s (verification_key k)"
    using dot_split [OF x(4), of "c_Issuer c"] by (simp_all add: plain_tokens_def dotted_def plain_verify_def)
next
  show "key_fits (family_of m) k" if "lib_verify plain_tokens m s k" for m s k
    using that by (simp add: plain_tokens_def plain_verify_def)
next
  show "lib_parse plain_tokens s kf = Inr t \<longleftrightarrow> lib_validate plain_tokens (t_claims t) = None \<and>
      (\<exists>parts. lib_unverified plain_tokens s = Inr (t, parts)) \<and>
      (\<exists>k. kf (t_method t) = Inr (Some k) \<and> lib_verify plain_tokens (t_method t) s k)" for s kf t
    by (auto simp: plain_tokens_def split: sum.splits option.splits)
qed





text \<open>
  When the configuration cannot be made, \<open>NewJWTIssuer\<close> returns an interface that is not nil, with a nil pointer in it,
  next to the error.
\<close>

theorem NewJWTIssuer_typed_nil:
  "fst (NewJWTIssuer ps issuer method pk) \<noteq> None \<and>
    (fst (NewJWTIssuer ps issuer method pk) = Some None) = (snd (NewJWTIssuer ps issuer method pk) \<noteq> None)"
  by (simp add: NewJWTIssuer_def split: sum.split)

end
