(* ===== verification/Logging.thy ===== *)
theory Logging
  imports Capacity Errors
begin

text \<open>
  The \<open>log\<close> package: levels and formats (\<open>config.go\<close>), the construction of loggers (\<open>log.go\<close>), the
  record filter of \<open>ext.go\<close>, the adapter from writers (\<open>adapter.go\<close>), the logger whose level can be
  changed (\<open>dynamic.go\<close>) and the command-line flags (\<open>flag/flag.go\<close>). The loggers of \<open>go-kit\<close> are
  parameters: functions on their state, and \<open>With\<close> that puts key-value pairs in front.
\<close>

section \<open>Levels and formats\<close>

definition LevelDebug :: string where "LevelDebug = ''debug''"
definition LevelInfo :: string where "LevelInfo = ''info''"
definition LevelWarn :: string where "LevelWarn = ''warn''"
definition LevelError :: string where "LevelError = ''error''"
definition FormatJSON :: string where "FormatJSON = ''json''"
definition FormatLogfmt :: string where "FormatLogfmt = ''logfmt''"

lemmas level_defs = LevelDebug_def LevelInfo_def LevelWarn_def LevelError_def

datatype level_option = AllowDebug | AllowInfo | AllowWarn | AllowError

definition getOption :: "string \<Rightarrow> level_option" where
  "getOption l =
     (if l = LevelDebug then AllowDebug else if l = LevelInfo then AllowInfo
      else if l = LevelWarn then AllowWarn else if l = LevelError then AllowError else AllowWarn)"

datatype log_error = UnrecognizedLevel string | UnrecognizedFormat string

definition level_Valid :: "string \<Rightarrow> log_error option" where
  "level_Valid l = (if l \<in> {LevelDebug, LevelInfo, LevelWarn, LevelError} then None else Some (UnrecognizedLevel l))"

text \<open>The new level and the error: the text is defaulted after the level was made of it.\<close>

definition level_Set :: "string \<Rightarrow> string \<Rightarrow> log_error option \<times> string" where
  "level_Set l s0 =
     (let lvl = s0; s = (if length s0 = 0 then LevelWarn else s0)
      in case level_Valid lvl of Some err \<Rightarrow> (Some err, l) | None \<Rightarrow> (None, s))"

definition level_UnmarshalYAML :: "string \<Rightarrow> 'e + string \<Rightarrow> ('e + log_error) option \<times> string" where
  "level_UnmarshalYAML l decoded = (case decoded of
     Inl err \<Rightarrow> (Some (Inl err), l)
   | Inr s \<Rightarrow> (case level_Set l s of (err, l') \<Rightarrow> (map_option Inr err, l')))"

text \<open>The registry of formats.\<close>

type_synonym 'f formats = "(string \<times> 'f) list"

definition RegisterLogFormat :: "'f formats \<Rightarrow> string \<Rightarrow> 'f \<Rightarrow> 'f formats" where
  "RegisterLogFormat reg logFmt f = (logFmt, f) # filter (\<lambda>(k, g). k \<noteq> logFmt) reg"

definition GetRegisteredLogFormats :: "'f formats \<Rightarrow> string list" where
  "GetRegisteredLogFormats reg = map fst reg"

definition format_Valid :: "'f formats \<Rightarrow> string \<Rightarrow> log_error option" where
  "format_Valid reg f = (if map_of reg f = None then Some (UnrecognizedFormat f) else None)"

definition format_Set :: "'f formats \<Rightarrow> string \<Rightarrow> string \<Rightarrow> log_error option \<times> string" where
  "format_Set reg f s = (case format_Valid reg s of Some err \<Rightarrow> (Some err, f) | None \<Rightarrow> (None, s))"

record log_config =
  Level :: "string option"
  LogFormat :: "string option"
  FilePath :: string
  FileMaxAge :: int
  FileRotationSize :: string
  FileRotationTime :: int

definition empty_config :: log_config where
  "empty_config = \<lparr>Level = None, LogFormat = None, FilePath = [], FileMaxAge = 0, FileRotationSize = [], FileRotationTime = 0\<rparr>"

definition MustNewConfig :: "'f formats \<Rightarrow> string \<Rightarrow> string \<Rightarrow> log_config run" where
  "MustNewConfig reg level format =
     (case level_Set [] level of
        (Some err, _) \<Rightarrow> Panic
      | (None, l) \<Rightarrow>
          (case format_Set reg [] format of
             (Some err, _) \<Rightarrow> Panic
           | (None, f) \<Rightarrow> Ret (empty_config\<lparr>Level := Some l, LogFormat := Some f\<rparr>)))"

text \<open>
  The empty text is refused by \<open>Set\<close> although it stands for the default level: the level is checked
  before the default is put in. The four names are accepted, every other text is an error that leaves
  the level as it was, and what is accepted means itself to the filter.
\<close>

theorem level_Set_outcomes:
  "level_Set l [] = (Some (UnrecognizedLevel []), l) \<and>
   level_Set l s = (if s \<in> {LevelDebug, LevelInfo, LevelWarn, LevelError} then (None, s) else (Some (UnrecognizedLevel s), l)) \<and>
   map getOption [LevelDebug, LevelInfo, LevelWarn, LevelError] = [AllowDebug, AllowInfo, AllowWarn, AllowError]"
  by (auto simp: level_Set_def level_Valid_def getOption_def level_defs Let_def)

section \<open>Where the log goes\<close>

datatype log_writer = Stdin | Stdout | Stderr | Opened string | Rotating string int int int

text \<open>
  What the operating system answers: the kind of a path (\<open>None\<close> for a regular file, or nothing there),
  and whether it can be opened or rotated.
\<close>

datatype path_kind = Missing | Regular | Special | StatFails

record file_system =
  stat_path :: "string \<Rightarrow> path_kind"
  can_open :: "string \<Rightarrow> bool"
  can_rotate :: "string \<Rightarrow> int \<Rightarrow> bool"

definition rotation_size :: "string \<Rightarrow> int" where
  "rotation_size s =
     (if s \<noteq> [] \<and> s \<noteq> ''0'' then (case ParseCapacities s of Inl err \<Rightarrow> 0 | Inr n \<Rightarrow> n) else 0)"

definition newWriterFromConfig :: "file_system \<Rightarrow> log_config \<Rightarrow> log_writer" where
  "newWriterFromConfig fs c =
     (if length (FilePath c) \<noteq> 0 then
        if FilePath c = ''/dev/stdin'' then Stdin
        else if FilePath c = ''/dev/stdout'' then Stdout
        else if FilePath c = ''/dev/stderr'' then Stderr
        else (case stat_path fs (FilePath c) of
            Special \<Rightarrow> (if can_open fs (FilePath c) then Opened (FilePath c) else Stdout)
          | StatFails \<Rightarrow> Stdout
          | _ \<Rightarrow>
              let size = rotation_size (FileRotationSize c)
              in if can_rotate fs (FilePath c) size
                 then Rotating (FilePath c) (FileMaxAge c) size (FileRotationTime c) else Stdout)
      else Stdout)"

section \<open>New\<close>

text \<open>
  The options of a logger and what \<open>New\<close> builds: the format in use, the level, the writer, and
  whether a warning about the format was logged. The configuration is filled in where it has no
  format or level (in the shared default, when no other is given).
\<close>

record ('l, 'k) new_options =
  o_traceId :: string
  o_logger :: "'l option"
  o_writer :: "log_writer option"
  o_kvs :: "'k list"
  o_config :: "log_config option"

record built_logger =
  b_format :: string
  b_level :: level_option
  b_writer :: log_writer
  b_warned :: bool

definition fill_config :: "log_config \<Rightarrow> log_config" where
  "fill_config c =
     (let c = (if LogFormat c = None then c\<lparr>LogFormat := Some FormatLogfmt\<rparr> else c)
      in if Level c = None then c\<lparr>Level := Some LevelInfo\<rparr> else c)"

definition New_logger ::
  "file_system \<Rightarrow> 'f formats \<Rightarrow> log_config \<Rightarrow> ('l, 'k) new_options \<Rightarrow> built_logger \<times> log_config" where
  "New_logger fs reg default_config opts =
     (let c = fill_config (case o_config opts of None \<Rightarrow> default_config | Some c \<Rightarrow> c);
          w = (case o_writer opts of None \<Rightarrow> newWriterFromConfig fs c | Some w \<Rightarrow> w);
          f = the (LogFormat c); known = (map_of reg f \<noteq> None)
      in (\<lparr>b_format = (if known then f else FormatLogfmt), b_level = getOption (the (Level c)), b_writer = w,
           b_warned = \<not> known\<rparr>, c))"

text \<open>
  \<open>New\<close> always has a writer, a format that is registered or logfmt, and a level: the file of the
  configuration, rotated at the size the capacity parser reads from it (not by size when that fails),
  and standard output when the file cannot be used.
\<close>

theorem New_logger_total:
  "\<exists>b c. New_logger fs reg dflt opts = (b, c) \<and>
    (b_format b = FormatLogfmt \<or> map_of reg (b_format b) \<noteq> None) \<and>
    (o_writer opts = None \<longrightarrow> FilePath c = [] \<longrightarrow> b_writer b = Stdout) \<and>
    (\<forall>p age size rot. o_writer opts = None \<longrightarrow> b_writer b = Rotating p age size rot \<longrightarrow>
      p = FilePath c \<and> (size = 0 \<or> ParseCapacities (FileRotationSize c) = Inr size)) \<and>
    Level c \<noteq> None \<and> LogFormat c \<noteq> None"
  by (auto simp: New_logger_def Let_def fill_config_def newWriterFromConfig_def rotation_size_def
      split: path_kind.splits sum.splits if_splits option.splits)

section \<open>Trace and context loggers\<close>

text \<open>
  \<open>put\<close> is \<open>log.With\<close>, \<open>dflt\<close> the default logger, \<open>fresh\<close> a new trace id. The root logger may be
  unset.
\<close>

definition NewTraceLogger ::
  "('l \<Rightarrow> 'k list \<Rightarrow> 'l) \<Rightarrow> (string \<Rightarrow> 'k list) \<Rightarrow> 'l \<Rightarrow> 'l option \<Rightarrow> string \<Rightarrow>
   (('l, 'k) new_options \<Rightarrow> ('l, 'k) new_options) list \<Rightarrow> 'l" where
  "NewTraceLogger put trace_kv dflt rootLogger fresh options =
     (let opts = fold (\<lambda>f opt. f opt) options
            \<lparr>o_traceId = fresh, o_logger = rootLogger, o_writer = None, o_kvs = [], o_config = None\<rparr>
      in case o_logger opts of
           None \<Rightarrow> put dflt (trace_kv (o_traceId opts))
         | Some l \<Rightarrow>
             let l = (if length (o_kvs opts) \<noteq> 0 then put l (o_kvs opts) else l) in put l (trace_kv (o_traceId opts)))"

definition WithTraceId :: "string \<Rightarrow> ('l, 'k) new_options \<Rightarrow> ('l, 'k) new_options" where
  "WithTraceId t opt = opt\<lparr>o_traceId := t\<rparr>"

definition WithLogger :: "'l \<Rightarrow> ('l, 'k) new_options \<Rightarrow> ('l, 'k) new_options" where
  "WithLogger l opt = opt\<lparr>o_logger := Some l\<rparr>"

definition WithWriter :: "log_writer \<Rightarrow> ('l, 'k) new_options \<Rightarrow> ('l, 'k) new_options" where
  "WithWriter w opt = opt\<lparr>o_writer := Some w\<rparr>"

definition WithConfig :: "log_config \<Rightarrow> ('l, 'k) new_options \<Rightarrow> ('l, 'k) new_options" where
  "WithConfig c opt = opt\<lparr>o_config := Some c\<rparr>"

definition WithKeyValues :: "'k list \<Rightarrow> ('l, 'k) new_options \<Rightarrow> ('l, 'k) new_options" where
  "WithKeyValues keyvals opt = opt\<lparr>o_kvs := keyvals\<rparr>"

text \<open>A context: the trace id and the logger that are stored in it.\<close>

record 'l log_context =
  ctx_trace :: "string option"
  ctx_logger :: "'l option"

definition GetTraceId :: "string \<Rightarrow> 'l log_context \<Rightarrow> string" where
  "GetTraceId fresh ctx =
     (let s = (case ctx_trace ctx of None \<Rightarrow> [] | Some s \<Rightarrow> s) in if length s = 0 then fresh else s)"

definition NewContextLogger ::
  "('l \<Rightarrow> 'k list \<Rightarrow> 'l) \<Rightarrow> (string \<Rightarrow> 'k list) \<Rightarrow> 'l \<Rightarrow> 'l option \<Rightarrow> string \<Rightarrow> 'l log_context \<Rightarrow>
   (('l, 'k) new_options \<Rightarrow> ('l, 'k) new_options) list \<Rightarrow> 'l log_context \<times> 'l" where
  "NewContextLogger put trace_kv dflt rootLogger fresh ctx options =
     (let o1 = fold (\<lambda>f opt. f opt) options
            \<lparr>o_traceId = [], o_logger = None, o_writer = None, o_kvs = [], o_config = None\<rparr>;
          tid = (if length (o_traceId o1) = 0 then fresh else o_traceId o1);
          l = (case o_logger o1 of
                 None \<Rightarrow> NewTraceLogger put trace_kv dflt rootLogger fresh [WithTraceId tid]
               | Some l \<Rightarrow> l);
          l = (if length (o_kvs o1) \<noteq> 0 then put l (o_kvs o1) else l)
      in (ctx\<lparr>ctx_trace := Some tid, ctx_logger := Some l\<rparr>, l))"

definition GetContextLogger :: "'l \<Rightarrow> 'l log_context \<Rightarrow> ('l \<Rightarrow> 'l) list \<Rightarrow> 'l" where
  "GetContextLogger fresh_logger ctx options =
     fold (\<lambda>f l. f l) options (case ctx_logger ctx of None \<Rightarrow> fresh_logger | Some l \<Rightarrow> l)"

text \<open>
  The logger of a new context is found again in it, with its trace id; without a parent logger it
  carries the trace id and the key-value pairs. \<open>NewTraceLogger\<close> itself drops the key-value pairs when
  there is no root logger yet.
\<close>

theorem context_logger_roundtrip:
  assumes "tid \<noteq> []"
  shows "let (ctx', l) = NewContextLogger put trace_kv dflt root fresh ctx [WithTraceId tid, WithKeyValues (k # ks)] in
    GetTraceId any ctx' = tid \<and> GetContextLogger other ctx' [] = l \<and>
    l = put (put (case root of None \<Rightarrow> dflt | Some r \<Rightarrow> r) (trace_kv tid)) (k # ks) \<and>
    NewTraceLogger put trace_kv dflt None fresh [WithKeyValues (k # ks)] = put dflt (trace_kv fresh)"
  using assms
  by (simp add: NewContextLogger_def NewTraceLogger_def WithTraceId_def WithKeyValues_def GetTraceId_def
      GetContextLogger_def Let_def split: option.split)

theorem context_logger_roundtrip_witness:
  "GetTraceId ''x'' (fst (NewContextLogger (@) (\<lambda>t. [t]) [] None ''new'' \<lparr>ctx_trace = None, ctx_logger = None\<rparr>
      [WithTraceId ''t1'', WithKeyValues [''k'']])) = ''t1''"
  using context_logger_roundtrip [of "''t1''" "(@)" "\<lambda>t. [t]" "[]" None "''new''"
      "\<lparr>ctx_trace = None, ctx_logger = None\<rparr>" "''k''" "[]" "''x''" "[]"]
  by (simp add: Let_def split: prod.splits)

section \<open>The record filter\<close>

text \<open>Records are flat lists of keys and values.\<close>

datatype 'v item = CallerKey | PrintKey | Item 'v | MissingValue

function ext_loop :: "'v item list \<Rightarrow> int \<Rightarrow> 'v item list \<Rightarrow> nat \<Rightarrow> 'v item list \<times> 'v item list" where
  "ext_loop keyvals callerIndex printed i =
     (if i < length keyvals then
        let key = keyvals ! i; val = keyvals ! (i + 1) in
        if key = CallerKey then
          if callerIndex < 0 then ext_loop keyvals (int i) printed (i + 2)
          else let keyvals = keyvals[nat (callerIndex + 1) := val]
               in ext_loop (take i keyvals @ drop (i + 2) keyvals) callerIndex printed i
        else if key = PrintKey then
          ext_loop (take i keyvals @ drop (i + 2) keyvals) callerIndex (printed @ [val]) i
        else ext_loop keyvals callerIndex printed (i + 2)
      else (keyvals, printed))"
  by auto
termination by (relation "measure (\<lambda>(keyvals, _, _, i). length keyvals - i)") auto

declare ext_loop.simps [simp del]

definition ext_filter :: "'v item list \<Rightarrow> 'v item list \<times> 'v item list" where
  "ext_filter keyvals =
     (let keyvals = (if length keyvals mod 2 \<noteq> 0 then keyvals @ [MissingValue] else keyvals)
      in ext_loop keyvals (- 1) [] 0)"

definition writeln :: "bytes \<Rightarrow> bytes list" where
  "writeln v = (if length v > 0 then [v] @ (if last v \<noteq> 10 then [[10]] else []) else [])"

text \<open>
  \<open>Log\<close>: the record goes to the logger, then the printed values to the writer; \<open>show_value\<close> is the
  text of a value, if it is not nil.
\<close>

definition ext_Log ::
  "('s \<Rightarrow> 'v item list \<Rightarrow> 'e option \<times> 's) \<Rightarrow> ('v item \<Rightarrow> bytes option) \<Rightarrow> 's \<Rightarrow> bytes list \<Rightarrow> 'v item list \<Rightarrow>
   'e option \<times> 's \<times> bytes list" where
  "ext_Log log show_value s out keyvals =
     (case ext_filter keyvals of (keyvals, printed) \<Rightarrow>
        (case log s keyvals of (err, s) \<Rightarrow>
           (err, s, out @ concat (map (\<lambda>v. case show_value v of None \<Rightarrow> [] | Some b \<Rightarrow> writeln b) printed))))"

text \<open>The filter on pairs: one caller stays, in the first place, with the last value.\<close>

type_synonym 'v pairs = "('v item \<times> 'v item) list"

definition flat :: "'v pairs \<Rightarrow> 'v item list" where
  "flat ps = concat (map (\<lambda>(k, v). [k, v]) ps)"

definition is_caller :: "'v item \<times> 'v item \<Rightarrow> bool" where
  "is_caller p = (fst p = CallerKey)"

definition set_caller :: "'v item \<Rightarrow> 'v pairs \<Rightarrow> 'v pairs" where
  "set_caller v ps = map (\<lambda>p. if is_caller p then (CallerKey, v) else p) ps"

fun ext_step :: "'v pairs \<times> 'v item list \<Rightarrow> 'v item \<times> 'v item \<Rightarrow> 'v pairs \<times> 'v item list" where
  "ext_step (pre, vals) (k, v) =
     (if k = CallerKey then
        (if list_ex is_caller pre then (set_caller v pre, vals) else (pre @ [(k, v)], vals))
      else if k = PrintKey then (pre, vals @ [v])
      else (pre @ [(k, v)], vals))"

lemma length_flat [simp]: "length (flat ps) = 2 * length ps"
  by (induction ps) (auto simp: flat_def)

lemma flat_simps [simp]: "flat [] = []" "flat (p # ps) = [fst p, snd p] @ flat ps" "flat (ps @ qs) = flat ps @ flat qs"
  by (auto simp: flat_def case_prod_beta)

lemma flat_nth: "j < length ps \<Longrightarrow> flat ps ! (2 * j) = fst (ps ! j) \<and> flat ps ! (2 * j + 1) = snd (ps ! j)"
proof (induction ps arbitrary: j)
  case (Cons p ps)
  then show ?case by (cases j) auto
qed simp

lemma flat_update: "j < length ps \<Longrightarrow> (flat ps)[Suc (2 * j) := v] = flat (ps[j := (fst (ps ! j), v)])"
proof (induction ps arbitrary: j)
  case (Cons p ps)
  then show ?case by (cases j) auto
qed simp

text \<open>Where the caller is among the pairs that have been passed.\<close>

definition caller_at :: "'v pairs \<Rightarrow> int \<Rightarrow> bool" where
  "caller_at pre ci \<longleftrightarrow> (if ci < 0 then \<not> list_ex is_caller pre
     else \<exists>j < length pre. ci = int (2 * j) \<and> is_caller (pre ! j) \<and> (\<forall>i < length pre. is_caller (pre ! i) \<longrightarrow> i = j))"

lemma caller_atE:
  assumes "caller_at pre ci" "\<not> ci < 0"
  obtains j where "j < length pre" "ci = int (2 * j)" "is_caller (pre ! j)"
    "\<And>i. i < length pre \<Longrightarrow> is_caller (pre ! i) \<Longrightarrow> i = j"
  using assms unfolding caller_at_def by (metis (no_types))

lemma caller_atD:
  assumes "caller_at pre ci" "\<not> ci < 0"
  shows "list_ex is_caller pre" "nat (ci + 1) < 2 * length pre"
proof -
  obtain j where j: "j < length pre" "ci = int (2 * j)" "is_caller (pre ! j)"
    using caller_atE [OF assms] by metis
  show "list_ex is_caller pre" unfolding list_ex_length using j by blast
  have "nat (ci + 1) = Suc (2 * j)" using j(2) by simp
  then show "nat (ci + 1) < 2 * length pre" using j(1) by linarith
qed

lemma caller_at_update:
  assumes "caller_at pre ci" "\<not> ci < 0"
  shows "(flat pre)[nat (ci + 1) := v] = flat (set_caller v pre) \<and> caller_at (set_caller v pre) ci"
proof -
  obtain j where j: "j < length pre" "ci = int (2 * j)" "is_caller (pre ! j)"
    "\<And>i. i < length pre \<Longrightarrow> is_caller (pre ! i) \<Longrightarrow> i = j"
    using caller_atE [OF assms] by metis
  have set: "set_caller v pre = pre[j := (CallerKey, v)]"
  proof (rule nth_equalityI)
    fix i assume "i < length (set_caller v pre)"
    then have i: "i < length pre" by (simp add: set_caller_def)
    show "set_caller v pre ! i = pre[j := (CallerKey, v)] ! i"
    proof (cases "i = j")
      case True
      then show ?thesis using j(1) j(3) by (simp add: set_caller_def)
    next
      case False
      then have "\<not> is_caller (pre ! i)" using j(4) [OF i] by blast
      then show ?thesis using i False by (simp add: set_caller_def)
    qed
  qed (simp add: set_caller_def)
  have "nat (ci + 1) = Suc (2 * j)" using j(2) by simp
  moreover have "fst (pre ! j) = CallerKey" using j(3) by (simp add: is_caller_def)
  ultimately have "(flat pre)[nat (ci + 1) := v] = flat (set_caller v pre)"
    unfolding set using flat_update [OF j(1), of v] by (simp only:)
  moreover have "caller_at (set_caller v pre) ci"
  proof -
    have len: "length (set_caller v pre) = length pre" by (simp add: set_caller_def)
    have ic: "is_caller (set_caller v pre ! i) = is_caller (pre ! i)" if "i < length pre" for i
      using that by (auto simp: set_caller_def is_caller_def)
    show ?thesis
      unfolding caller_at_def if_not_P [OF assms(2)] len
      by (rule exI [of _ j]) (metis ic j)
  qed
  ultimately show ?thesis by simp
qed

lemma ext_loop_pairs:
  assumes "caller_at pre ci"
  shows "ext_loop (flat pre @ flat rest) ci vals (2 * length pre) =
    (case foldl ext_step (pre, vals) rest of (ps, out) \<Rightarrow> (flat ps, out))"
  using assms
proof (induction rest arbitrary: pre ci vals)
  case Nil
  then show ?case by (simp add: ext_loop.simps [of "flat pre"])
next
  case (Cons p rest)
  obtain k v where p: "p = (k, v)" by (cases p)
  let ?kv = "flat pre @ k # v # flat rest" and ?i = "2 * length pre"
  have at: "?kv ! ?i = k" "?kv ! (?i + 1) = v" "?i < length ?kv"
    by (simp_all add: nth_append)
  have cut: "take ?i ?kv @ drop (?i + 2) ?kv = flat pre @ flat rest" by simp
  note step = ext_loop.simps [of ?kv ci vals ?i, unfolded Let_def at if_P [OF at(3)]]
  have next': "?i + 2 = 2 * length (pre @ [(k, v)])" "?kv = flat (pre @ [(k, v)]) @ flat rest" by simp_all
  have IHnext: "ext_loop ?kv ci' vals (?i + 2) = (case foldl ext_step (pre @ [(k, v)], vals) rest of (ps, out) \<Rightarrow> (flat ps, out))"
    if "caller_at (pre @ [(k, v)]) ci'" for ci'
    unfolding next' by (rule Cons.IH [OF that])
  show ?case
  proof (cases "k = CallerKey")
    case caller: True
    show ?thesis
    proof (cases "ci < 0")
      case True
      then have no: "\<not> list_ex is_caller pre" using Cons.prems by (simp add: caller_at_def)
      then have "caller_at (pre @ [(k, v)]) (int ?i)"
        by (auto simp: caller_at_def is_caller_def nth_append list_ex_length caller intro!: exI [of _ "length pre"])
      note IH' = IHnext [OF this]
      have g: "flat pre @ flat (p # rest) = ?kv" by (simp add: p)
      have f: "foldl ext_step (pre, vals) (p # rest) = foldl ext_step (pre @ [(k, v)], vals) rest"
        using caller no by (simp add: p)
      have "ext_loop ?kv ci vals ?i = ext_loop ?kv (int ?i) vals (?i + 2)"
        using True caller by (subst step) simp
      then show ?thesis unfolding g f IH' by (simp only: IH')
    next
      case False
      note U = caller_at_update [OF Cons.prems False, of v]
      have yes: "list_ex is_caller pre" and "nat (ci + 1) < ?i" using caller_atD [OF Cons.prems False] by auto
      then have "?kv[nat (ci + 1) := v] = flat (set_caller v pre) @ k # v # flat rest"
        using U by (simp add: list_update_append)
      moreover have "length (set_caller v pre) = length pre" by (simp add: set_caller_def)
      ultimately have cut': "take ?i (?kv[nat (ci + 1) := v]) @ drop (?i + 2) (?kv[nat (ci + 1) := v]) =
          flat (set_caller v pre) @ flat rest" by simp
      have g: "flat pre @ flat (p # rest) = ?kv" by (simp add: p)
      have f: "foldl ext_step (pre, vals) (p # rest) = foldl ext_step (set_caller v pre, vals) rest"
        using caller yes by (simp add: p)
      have "ext_loop ?kv ci vals ?i = ext_loop (flat (set_caller v pre) @ flat rest) ci vals ?i"
        by (subst step) (simp only: caller cut' [unfolded caller] False if_True if_False simp_thms)
      moreover have "?i = 2 * length (set_caller v pre)" by (simp add: set_caller_def)
      ultimately show ?thesis
        unfolding g f using Cons.IH [OF U [THEN conjunct2], of vals] by (simp only:)
    qed
  next
    case nocaller: False
    show ?thesis
    proof (cases "k = PrintKey")
      case True
      have g: "flat pre @ flat (p # rest) = ?kv" by (simp add: p)
      have f: "foldl ext_step (pre, vals) (p # rest) = foldl ext_step (pre, vals @ [v]) rest"
        using True by (simp add: p)
      have "ext_loop ?kv ci vals ?i = ext_loop (flat pre @ flat rest) ci (vals @ [v]) ?i"
        by (subst step) (simp only: nocaller True cut [unfolded True] if_True if_False simp_thms item.distinct)
      then show ?thesis
        unfolding g f using Cons.IH [OF Cons.prems, of "vals @ [v]"] by (simp only:)
    next
      case False
      have "caller_at (pre @ [(k, v)]) ci"
        using Cons.prems nocaller
        by (auto simp: caller_at_def is_caller_def nth_append split: if_splits)
      note IH' = IHnext [OF this]
      have g: "flat pre @ flat (p # rest) = ?kv" by (simp add: p)
      have f: "foldl ext_step (pre, vals) (p # rest) = foldl ext_step (pre @ [(k, v)], vals) rest"
        using nocaller False by (simp add: p)
      have "ext_loop ?kv ci vals ?i = ext_loop ?kv ci vals (?i + 2)"
        by (subst step) (simp only: nocaller False if_False)
      then show ?thesis unfolding g f by (simp only: IH')
    qed
  qed
qed

lemma ext_filter_pairs:
  "ext_filter (flat ps) = (case foldl ext_step ([], []) ps of (qs, out) \<Rightarrow> (flat qs, out))"
  using ext_loop_pairs [of "[]" "- 1" ps "[]"] by (simp add: ext_filter_def caller_at_def)

lemma ext_step_spec:
  assumes "foldl ext_step ([], []) ps = (qs, out)"
  shows "out = map snd (filter (\<lambda>p. fst p = PrintKey) ps) \<and>
    filter (\<lambda>p. \<not> is_caller p) qs = filter (\<lambda>p. \<not> is_caller p \<and> fst p \<noteq> PrintKey) ps \<and>
    filter is_caller qs = (let cs = filter is_caller ps in if cs = [] then [] else [last cs])"
  using assms
proof (induction ps arbitrary: qs out rule: rev_induct)
  case (snoc p ps)
  obtain qs1 out1 where f: "foldl ext_step ([], []) ps = (qs1, out1)" by (cases "foldl ext_step ([], []) ps")
  obtain k v where p: "p = (k, v)" by (cases p)
  note IH = snoc.IH [OF f]
  have st: "ext_step (qs1, out1) (k, v) = (qs, out)" using snoc.prems f p by simp
  have nc: "filter (\<lambda>p. \<not> is_caller p) (set_caller v qs1) = filter (\<lambda>p. \<not> is_caller p) qs1"
    by (induction qs1) (auto simp: set_caller_def is_caller_def)
  have ca: "filter is_caller (set_caller v qs1) = map (\<lambda>_. (CallerKey, v)) (filter is_caller qs1)"
    by (induction qs1) (auto simp: set_caller_def is_caller_def)
  have none: "list_ex is_caller qs1 \<longleftrightarrow> filter is_caller qs1 \<noteq> []"
    by (induction qs1) auto
  have ic: "is_caller (x, y) \<longleftrightarrow> x = CallerKey" for x y :: "'a item" by (simp add: is_caller_def)
  show ?case
  proof (cases "k = CallerKey")
    case True
    then show ?thesis
      using st IH p none nc ca by (auto simp: Let_def ic split: if_splits)
  next
    case False
    then show ?thesis using st IH p by (auto simp: Let_def ic split: if_splits)
  qed
qed simp

text \<open>
  C19: The index loop over the record, in which pairs are removed while it runs, takes out the values to
  print, in order, keeps the other pairs in order, and merges all callers into one with the last
  value; a record of odd length is completed with the missing-value mark. What is printed is written
  after the record was logged.
\<close>

theorem ext_filter_merges_callers:
  shows "\<exists>qs. ext_filter (flat ps) = (flat qs, map snd (filter (\<lambda>p. fst p = PrintKey) ps)) \<and>
    filter (\<lambda>p. \<not> is_caller p) qs = filter (\<lambda>p. \<not> is_caller p \<and> fst p \<noteq> PrintKey) ps \<and>
    filter is_caller qs = (let cs = filter is_caller ps in if cs = [] then [] else [last cs]) \<and>
    ext_filter (flat ps @ [k]) = ext_filter (flat (ps @ [(k, MissingValue)]))"
proof -
  obtain qs out where f: "foldl ext_step ([], []) ps = (qs, out)" by (cases "foldl ext_step ([], []) ps")
  have "ext_filter (flat ps @ [k]) = ext_filter (flat (ps @ [(k, MissingValue)]))"
    by (simp add: ext_filter_def Let_def)
  with ext_step_spec [OF f] f show ?thesis
    by (intro exI [of _ qs]) (simp add: ext_filter_pairs)
qed

section \<open>The adapter from writers\<close>

record writer_adapter =
  msgKey :: string
  prefix :: string
  joinPrefixToMsg :: bool

definition MessageKey :: "string \<Rightarrow> writer_adapter \<Rightarrow> writer_adapter" where
  "MessageKey k a = a\<lparr>msgKey := k\<rparr>"

definition Prefix :: "string \<Rightarrow> bool \<Rightarrow> writer_adapter \<Rightarrow> writer_adapter" where
  "Prefix p b a = a\<lparr>prefix := p, joinPrefixToMsg := b\<rparr>"

definition NewWriterAdapter :: "(writer_adapter \<Rightarrow> writer_adapter) list \<Rightarrow> writer_adapter" where
  "NewWriterAdapter options = fold (\<lambda>f a. f a) options \<lparr>msgKey = ''msg'', prefix = [], joinPrefixToMsg = False\<rparr>"

definition handleMessagePrefix :: "writer_adapter \<Rightarrow> string \<Rightarrow> string" where
  "handleMessagePrefix a msg =
     (if prefix a = [] then msg
      else let msg = trim_prefix msg (prefix a) in if joinPrefixToMsg a then prefix a @ msg else msg)"

definition adapter_Write ::
  "('s \<Rightarrow> string \<Rightarrow> string \<Rightarrow> 'e option \<times> 's) \<Rightarrow> writer_adapter \<Rightarrow> 's \<Rightarrow> bytes \<Rightarrow> int \<times> 'e option \<times> 's" where
  "adapter_Write log a s p =
     (case log s (msgKey a) (handleMessagePrefix a (trim_suffix (string_of p) [CHR 0x0A])) of
        (_, s) \<Rightarrow> (int (length p), None, s))"

text \<open>
  A line written to the adapter, with or without the prefix, is logged with the prefix exactly once
  when it is to be joined, and without it when not; the adapter always reports that it has written
  everything, also when the logger fails.
\<close>

theorem adapter_prefix_once:
  assumes "pre \<noteq> []" "\<not> has_prefix m pre" "x \<in> {m, pre @ m}"
  shows "handleMessagePrefix (NewWriterAdapter [MessageKey k, Prefix pre join_it]) x = (if join_it then pre @ m else m) \<and>
    fst (adapter_Write log (NewWriterAdapter [MessageKey k, Prefix pre join_it]) s p) = int (length p) \<and>
    fst (snd (adapter_Write log (NewWriterAdapter [MessageKey k, Prefix pre join_it]) s p)) = None"
  using assms
  by (auto simp: handleMessagePrefix_def NewWriterAdapter_def Prefix_def MessageKey_def Let_def trim_prefix_def
      adapter_Write_def split: prod.splits)

theorem adapter_prefix_once_witness:
  "handleMessagePrefix (NewWriterAdapter [MessageKey ''m'', Prefix ''[db] '' True]) ''[db] up'' = ''[db] up''"
  using adapter_prefix_once [of "''[db] ''" "''up''" "''[db] up''" "''m''" True "\<lambda>s k m. (None :: unit option, s)" "()" "[]"] by simp

section \<open>The tee logger\<close>

text \<open>Each logger is a function on its own state; all of them see the record, whatever the others return.\<close>

fun tee_loop :: "('s \<Rightarrow> 'r \<Rightarrow> 'x error \<times> 's) list \<Rightarrow> 's list \<Rightarrow> 'r \<Rightarrow> 'x error \<Rightarrow> 'x error \<times> 's list" where
  "tee_loop (l # ls) (s # ss) r es =
     (case l s r of (err, s') \<Rightarrow>
        (case tee_loop ls ss r (if err \<noteq> Nil then Errors_Append es err else es) of (es', ss') \<Rightarrow> (es', s' # ss')))"
| "tee_loop _ ss r es = (es, ss)"

definition tee_Log :: "('s \<Rightarrow> 'r \<Rightarrow> 'x error \<times> 's) list \<Rightarrow> 's list \<Rightarrow> 'r \<Rightarrow> 'x error \<times> 's list" where
  "tee_Log ls ss r = (case tee_loop ls ss r (NewErrors 500 [] []) of (es, ss') \<Rightarrow> (if HasError es then es else Nil, ss'))"

lemma tee_loop_all:
  "length ls = length ss \<Longrightarrow> tee_loop ls ss r (Multi es c st p) =
    (Multi (es @ filter (\<lambda>e. e \<noteq> Nil) (map2 (\<lambda>l s. fst (l s r)) ls ss)) c st p, map2 (\<lambda>l s. snd (l s r)) ls ss)"
  by (induction ls ss arbitrary: es rule: list_induct2) (auto split: prod.splits)

text \<open>
  The tee logger passes the record to every logger, also after one of them has failed, and returns
  nil exactly when none has failed, and otherwise all the errors in order.
\<close>

theorem tee_Log_reaches_all:
  assumes "length ls = length ss"
  shows "tee_Log ls ss r =
    (let es = filter (\<lambda>e. e \<noteq> Nil) (map2 (\<lambda>l s. fst (l s r)) ls ss)
     in (if es = [] then Nil else Multi es (itoa 500) 500 [], map2 (\<lambda>l s. snd (l s r)) ls ss))"
  using assms by (auto simp: tee_Log_def NewErrors_def first_code_def tee_loop_all Let_def filter_empty_conv)

theorem tee_Log_reaches_all_witness:
  "tee_Log [\<lambda>s r. (NotFound ''a'', s @ [r]), \<lambda>s r. (Nil :: unit error, s @ [r])] [[], [3]] (2 :: nat) =
    (Multi [NotFound ''a''] (itoa 500) 500 [], [[2], [3, 2]])"
  using tee_Log_reaches_all [of "[\<lambda>s r. (NotFound ''a'', s @ [r]), \<lambda>s r. (Nil :: unit error, s @ [r])]" "[[], [3]]"
      "2 :: nat"]
  by (simp add: Let_def)

section \<open>The dynamic level\<close>

record 'l dyn_logger =
  base :: 'l
  leveled :: "'l \<times> level_option option"
  currentLevel :: "string option"
  changes :: "(string \<times> string) list"

text \<open>A nil level passes the guard, and the method is then called on the nil pointer.\<close>

definition SetLevel :: "'l dyn_logger \<Rightarrow> string option \<Rightarrow> 'l dyn_logger run" where
  "SetLevel l lvl =
     (let l = (case lvl of None \<Rightarrow> l
        | Some new \<Rightarrow>
            let l = (case currentLevel l of
                       Some cur \<Rightarrow> if cur \<noteq> new then l\<lparr>changes := changes l @ [(cur, new)]\<rparr> else l
                     | None \<Rightarrow> l)
            in l\<lparr>currentLevel := Some new\<rparr>)
      in case lvl of None \<Rightarrow> Panic | Some new \<Rightarrow> Ret (l\<lparr>leveled := (base l, Some (getOption new))\<rparr>))"

definition newDynamic :: "'l \<Rightarrow> 'l \<Rightarrow> log_config \<Rightarrow> 'l dyn_logger run" where
  "newDynamic json logfmt c =
     (let l = (if LogFormat c = Some ''json'' then json else logfmt);
          lo = \<lparr>base = l, leveled = (l, None), currentLevel = None, changes = []\<rparr>
      in case Level c of None \<Rightarrow> Ret lo | Some lvl \<Rightarrow> SetLevel lo (Some lvl))"

text \<open>
  \<open>SetLevel\<close> filters the base logger by the new level and reports each change once; a nil level
  panics though it is guarded against.
\<close>

theorem SetLevel_outcomes:
  "SetLevel l None = Panic \<and>
   (\<exists>l'. SetLevel l (Some new) = Ret l' \<and> leveled l' = (base l, Some (getOption new)) \<and> base l' = base l \<and>
     currentLevel l' = Some new \<and>
     changes l' = changes l @ (case currentLevel l of Some cur \<Rightarrow> if cur = new then [] else [(cur, new)] | None \<Rightarrow> []))"
  by (auto simp: SetLevel_def Let_def split: option.splits)

section \<open>Flags\<close>

text \<open>The flags that are registered, with their defaults; durations in nanoseconds.\<close>

datatype flag_default = StringFlag string | DurationFlag int

definition AddFlags :: "log_config \<Rightarrow> log_config \<times> (string \<times> flag_default) list" where
  "AddFlags c =
     (c\<lparr>Level := Some LevelInfo, LogFormat := Some FormatLogfmt, FilePath := ''/dev/stderr'',
        FileRotationTime := 24 * 3600 * 10 ^ 9, FileMaxAge := 7 * 24 * 3600 * 10 ^ 9, FileRotationSize := ''100m''\<rparr>,
      [(''log.level'', StringFlag LevelInfo), (''log.format'', StringFlag FormatLogfmt),
       (''log.file'', StringFlag ''/dev/stderr''), (''log.file-rotation-time'', DurationFlag (24 * 3600 * 10 ^ 9)),
       (''log.file-max-age'', DurationFlag (7 * 24 * 3600 * 10 ^ 9)), (''log.file-rotation-size'', StringFlag ''100m'')])"

text \<open>The default rotation size is one that the capacity parser reads.\<close>

lemma AddFlags_rotation_size: "rotation_size (FileRotationSize (fst (AddFlags c))) = 100 * 1024 * 1024"
proof -
  have "ParseCapacities ''100m'' = Inr 104857600" by code_simp
  then show ?thesis by (simp add: AddFlags_def rotation_size_def)
qed

end
