(* ===== verification/Loggers.thy ===== *)
theory Loggers
  imports Logging Uuid
begin

text \<open>
  The \<open>log\<close> package in use: the order of levels and what a built logger does with a record, the default
  logger, callers and methods, and the way from a context to the output. What \<open>log.With\<close> of \<open>go-kit\<close>
  documents (the pairs come before those of the call) is a hypothesis.
\<close>

section \<open>Levels\<close>

fun severity :: "level_option \<Rightarrow> nat" where
  "severity AllowDebug = 0"
| "severity AllowInfo = 1"
| "severity AllowWarn = 2"
| "severity AllowError = 3"

lemma severity_inj: "severity a = severity b \<longleftrightarrow> a = b"
  by (cases a; cases b) auto

instantiation level_option :: linorder
begin

definition less_eq_level_option :: "level_option \<Rightarrow> level_option \<Rightarrow> bool" where
  "a \<le> b \<longleftrightarrow> severity a \<le> severity b"

definition less_level_option :: "level_option \<Rightarrow> level_option \<Rightarrow> bool" where
  "a < b \<longleftrightarrow> severity a < severity b"

instance
  by standard (auto simp: less_eq_level_option_def less_level_option_def severity_inj)

end

text \<open>A record passes the filter when it has no level, or one that is allowed.\<close>

definition passes :: "level_option \<Rightarrow> level_option option \<Rightarrow> bool" where
  "passes allow lvl = (case lvl of None \<Rightarrow> True | Some l \<Rightarrow> allow \<le> l)"

lemma passes_mono: "a \<le> b \<Longrightarrow> passes b l \<Longrightarrow> passes a l"
  by (auto simp: passes_def split: option.splits)

section \<open>The package's initial state\<close>

definition init_formats :: "'f \<Rightarrow> 'f \<Rightarrow> 'f formats" where
  "init_formats logfmt json = RegisterLogFormat (RegisterLogFormat [] FormatLogfmt logfmt) FormatJSON json"

definition DefaultLoggerConfig :: "'f formats \<Rightarrow> log_config run" where
  "DefaultLoggerConfig reg = MustNewConfig reg ''info'' ''logfmt''"

lemma DefaultLoggerConfig_ok:
  "DefaultLoggerConfig (init_formats f g) = Ret (empty_config\<lparr>Level := Some LevelInfo, LogFormat := Some FormatLogfmt\<rparr>)"
  by (simp add: DefaultLoggerConfig_def MustNewConfig_def level_Set_def level_Valid_def format_Set_def format_Valid_def
      init_formats_def RegisterLogFormat_def level_defs FormatJSON_def FormatLogfmt_def Let_def)

section \<open>Callers and methods\<close>

text \<open>The frames of the stack: file and line of a depth; \<open>runtime.Caller\<close> gives nothing beyond the last.\<close>

type_synonym frames = "nat \<Rightarrow> (string \<times> int) option"

definition caller_file :: "frames \<Rightarrow> nat \<Rightarrow> string" where
  "caller_file fr depth = (case fr depth of None \<Rightarrow> [] | Some (file, _) \<Rightarrow> file)"

definition GetSourceCodeDir :: "frames \<Rightarrow> string \<Rightarrow> nat list \<Rightarrow> string" where
  "GetSourceCodeDir fr codeRelativePath depth =
     trim_suffix (caller_file fr (case depth of [] \<Rightarrow> 1 | d # _ \<Rightarrow> d)) codeRelativePath"

definition Caller :: "string \<Rightarrow> nat \<Rightarrow> frames \<Rightarrow> string" where
  "Caller sourceDir depth fr =
     trim_prefix (caller_file fr depth) sourceDir @ '':'' @ itoa (case fr depth of None \<Rightarrow> 0 | Some (_, line) \<Rightarrow> line)"

text \<open>What is after the first dot of the function's name.\<close>

definition method_name :: "string \<Rightarrow> string" where
  "method_name name = (case str_cut (CHR ''.'') name of (before, after, found) \<Rightarrow> if found then after else before)"

text \<open>
  A caller in the directory of the sources is shown by its path there. The method is the name of the
  function only when nothing before it has a dot: with an import path like that of this module it begins
  in the middle of the host.
\<close>

lemma Caller_relative:
  assumes "fr 1 = Some (dir @ rel, n)" "fr' depth = Some (dir @ file, line)"
  shows "Caller (GetSourceCodeDir fr rel []) depth fr' = file @ '':'' @ itoa line"
  using assms by (simp add: Caller_def GetSourceCodeDir_def caller_file_def)

lemma method_name_keeps_path: "method_name ''github.com/MicroOps-cn/fuck/log.New'' = ''com/MicroOps-cn/fuck/log.New''"
  by (simp add: method_name_def)

section \<open>The default logger\<close>

text \<open>
  The root logger, which may be nil, and whether \<open>rootLoggerOnce\<close> has run; \<open>created\<close> counts the calls of
  \<open>New\<close>, and \<open>new\<close> gives the logger each of them makes.
\<close>

record 'l root =
  once_done :: bool
  rootLogger :: "'l option"
  created :: nat

definition initial_root :: "'l root" where
  "initial_root = \<lparr>once_done = False, rootLogger = None, created = 0\<rparr>"

definition SetDefaultLogger :: "'l option \<Rightarrow> 'l root \<Rightarrow> 'l root" where
  "SetDefaultLogger l r = r\<lparr>rootLogger := l\<rparr>"

definition GetDefaultLogger :: "(nat \<Rightarrow> 'l) \<Rightarrow> 'l root \<Rightarrow> 'l option \<times> 'l root" where
  "GetDefaultLogger new r =
     (let r = (if once_done r then r
               else (if rootLogger r = None then r\<lparr>rootLogger := Some (new (created r)), created := created r + 1\<rparr> else r)
                 \<lparr>once_done := True\<rparr>)
      in (rootLogger r, r))"

datatype 'l root_call = SetLogger "'l option" | GetLogger

fun run_calls :: "(nat \<Rightarrow> 'l) \<Rightarrow> 'l root_call list \<Rightarrow> 'l root \<Rightarrow> 'l option list \<times> 'l root" where
  "run_calls new [] r = ([], r)"
| "run_calls new (SetLogger l # cs) r = run_calls new cs (SetDefaultLogger l r)"
| "run_calls new (GetLogger # cs) r =
     (case GetDefaultLogger new r of (l, r) \<Rightarrow> (case run_calls new cs r of (ls, r) \<Rightarrow> (l # ls, r)))"

text \<open>What is expected: the logger that was set last, and the first one made when none was set.\<close>

fun expected :: "'l \<Rightarrow> 'l option \<Rightarrow> 'l root_call list \<Rightarrow> 'l option list" where
  "expected first cur [] = []"
| "expected first cur (SetLogger l # cs) = expected first l cs"
| "expected first cur (GetLogger # cs) =
     (let l = (case cur of None \<Rightarrow> first | Some l \<Rightarrow> l) in Some l # expected first (Some l) cs)"

lemma run_calls_gen:
  assumes "\<forall>c \<in> set cs. c \<noteq> SetLogger None" "once_done r \<longrightarrow> rootLogger r \<noteq> None" "created r \<le> 1" "\<not> once_done r \<longrightarrow> created r = 0"
  shows "fst (run_calls new cs r) = expected (new 0) (rootLogger r) cs \<and> created (snd (run_calls new cs r)) \<le> 1"
  using assms
proof (induction cs arbitrary: r)
  case (Cons c cs)
  show ?case
  proof (cases c)
    case (SetLogger l)
    with Cons.prems have "l \<noteq> None" by auto
    then show ?thesis
      using Cons.IH [of "SetDefaultLogger l r"] Cons.prems SetLogger by (simp add: SetDefaultLogger_def)
  next
    case GetLogger
    obtain l r' where g: "GetDefaultLogger new r = (l, r')" by (cases "GetDefaultLogger new r")
    then have r': "once_done r'" "rootLogger r' = l" "created r' \<le> 1"
        "l = Some (case rootLogger r of None \<Rightarrow> new 0 | Some l \<Rightarrow> l)"
      using Cons.prems(2-4) by (auto simp: GetDefaultLogger_def Let_def split: if_splits option.splits)
    then show ?thesis
      using Cons.IH [of r'] Cons.prems(1) GetLogger g by (simp add: Let_def case_prod_beta)
  qed
qed simp

text \<open>
  As long as the default logger is never set to nil, every call of \<open>GetDefaultLogger\<close> returns the logger
  that was set last, or else the one the first call has made, and at most one is made. Once the default
  logger was asked for, setting it to nil makes all later calls return nil.
\<close>

theorem default_logger_stable:
  assumes "SetLogger None \<notin> set cs"
  shows "fst (run_calls new cs initial_root) = expected (new 0) None cs \<and>
    created (snd (run_calls new cs initial_root)) \<le> 1 \<and>
    fst (run_calls new (GetLogger # SetLogger None # replicate n GetLogger) initial_root) = Some (new 0) # replicate n None"
proof -
  have "\<forall>c \<in> set cs. c \<noteq> SetLogger None" using assms by auto
  then have "fst (run_calls new cs initial_root) = expected (new 0) None cs \<and> created (snd (run_calls new cs initial_root)) \<le> 1"
    using run_calls_gen [of cs initial_root new] by (simp add: initial_root_def)
  moreover have "fst (run_calls new (replicate n GetLogger) \<lparr>once_done = True, rootLogger = None, created = Suc 0\<rparr>) = replicate n None"
    by (induction n) (simp_all add: GetDefaultLogger_def case_prod_beta)
  then have "fst (run_calls new (GetLogger # SetLogger None # replicate n GetLogger) initial_root) = Some (new 0) # replicate n None"
    by (simp add: GetDefaultLogger_def SetDefaultLogger_def initial_root_def case_prod_beta)
  ultimately show ?thesis by blast
qed

lemma default_logger_stable_witness:
  "fst (run_calls id [GetLogger, SetLogger (Some 7), GetLogger] (initial_root :: nat root)) = [Some 0, Some 7]"
  using default_logger_stable [of "[GetLogger, SetLogger (Some 7), GetLogger]" id 0] by simp

section \<open>What a built logger does\<close>

text \<open>
  The logger \<open>New\<close> returns: the level filter, then the time and the caller, then the record filter over
  the logger of the format. \<open>level_of\<close> is the level of a record, \<open>header\<close> the values of time and caller.
\<close>

definition built_Log ::
  "('v item list \<Rightarrow> level_option option) \<Rightarrow> ('s \<Rightarrow> 'v item list \<Rightarrow> 'e option \<times> 's) \<Rightarrow> ('v item \<Rightarrow> bytes option) \<Rightarrow>
   'v item list \<Rightarrow> level_option \<Rightarrow> 's \<times> bytes list \<Rightarrow> 'v item list \<Rightarrow> 'e option \<times> 's \<times> bytes list" where
  "built_Log level_of log show_value header allow st keyvals =
     (if passes allow (level_of keyvals) then ext_Log log show_value (fst st) (snd st) (header @ keyvals)
      else (None, st))"

text \<open>\<open>Log\<close> of the logger with a dynamic level.\<close>

definition dyn_Log ::
  "('v item list \<Rightarrow> level_option option) \<Rightarrow> ('l \<Rightarrow> 's \<Rightarrow> 'v item list \<Rightarrow> 'e option \<times> 's) \<Rightarrow> 'l dyn_logger \<Rightarrow> 's \<Rightarrow>
   'v item list \<Rightarrow> 'e option \<times> 's" where
  "dyn_Log level_of log l s keyvals =
     (case leveled l of
        (b, None) \<Rightarrow> log b s keyvals
      | (b, Some allow) \<Rightarrow> if passes allow (level_of keyvals) then log b s keyvals else (None, s))"

definition nop_Log :: "'s \<Rightarrow> 'v item list \<Rightarrow> 'e option \<times> 's" where
  "nop_Log s keyvals = (None, s)"

text \<open>The options of \<open>GetContextLogger\<close>, with the values that are put.\<close>

definition WithCaller :: "('l \<Rightarrow> 'v item list \<Rightarrow> 'l) \<Rightarrow> 'v item \<Rightarrow> 'l \<Rightarrow> 'l" where
  "WithCaller put caller l = put l [CallerKey, caller]"

definition WithMethod :: "('l \<Rightarrow> 'v item list \<Rightarrow> 'l) \<Rightarrow> (string \<Rightarrow> 'v item) \<Rightarrow> string \<Rightarrow> 'l \<Rightarrow> 'l" where
  "WithMethod put text_item name l = put l [text_item ''method'', text_item (method_name name)]"

definition WithPrint :: "('l \<Rightarrow> 'v item list \<Rightarrow> 'l) \<Rightarrow> 'v item \<Rightarrow> 'l \<Rightarrow> 'l" where
  "WithPrint put printed l = put l [PrintKey, printed]"

lemma ext_step_plain:
  "\<forall>p \<in> set ps. fst p \<noteq> CallerKey \<and> fst p \<noteq> PrintKey \<Longrightarrow> foldl ext_step (pre, vals) ps = (pre @ ps, vals)"
  by (induction ps arbitrary: pre) auto

text \<open>
  C30: A record that is logged through a context reaches the logger of the format once, when its level is
  allowed, with the time, the trace id of the context, one caller, the one asked for last, and its own
  pairs in their order; the value to print is written to the output after it. A record below the level
  leaves no trace.
\<close>

theorem context_log_end_to_end:
  assumes "\<forall>l kvs st r. even (length kvs) \<longrightarrow> run_log (put l kvs) st r = run_log l st (kvs @ r)"
    and "run_log root = built_Log level_of log show_value [Item k, ts, CallerKey, c0] allow"
    and "trace_kv tid = [Item tk, v]" "tid \<noteq> []" "\<forall>p \<in> set ps. fst p \<noteq> CallerKey \<and> fst p \<noteq> PrintKey"
    and "NewContextLogger put trace_kv dflt (Some root) fresh ctx [WithTraceId tid] = (ctx', l)"
  shows "run_log (GetContextLogger other ctx' [WithCaller put c1, WithPrint put raw]) (s, out) (flat ps) =
    (if passes allow (level_of ([Item tk, v, CallerKey, c1, PrintKey, raw] @ flat ps))
     then (case log s (flat ([(Item k, ts), (CallerKey, c1), (Item tk, v)] @ ps)) of
       (err, s') \<Rightarrow> (err, s', out @ (case show_value raw of None \<Rightarrow> [] | Some b \<Rightarrow> writeln b)))
     else (None, s, out))"
proof -
  let ?ps = "[(Item k, ts), (CallerKey, c0), (Item tk, v), (CallerKey, c1), (PrintKey, raw)] @ ps"
  have ext: "ext_filter (flat ?ps) = (flat ([(Item k, ts), (CallerKey, c1), (Item tk, v)] @ ps), [raw])"
    unfolding ext_filter_pairs using ext_step_plain [OF assms(5)] by (simp add: is_caller_def set_caller_def)
  have "ctx_logger ctx' = Some (put root [Item tk, v])"
    using assms(3,4,6) by (auto simp: NewContextLogger_def NewTraceLogger_def WithTraceId_def Let_def)
  then have "run_log (GetContextLogger other ctx' [WithCaller put c1, WithPrint put raw]) (s, out) (flat ps) =
      built_Log level_of log show_value [Item k, ts, CallerKey, c0] allow (s, out) ([Item tk, v, CallerKey, c1, PrintKey, raw] @ flat ps)"
    using assms(1,2) by (simp add: GetContextLogger_def WithCaller_def WithPrint_def)
  then show ?thesis using ext by (simp add: built_Log_def ext_Log_def split: prod.split)
qed

text \<open>A logger that collects records, under a context that is a list of pairs.\<close>

definition sample_run :: "nat item list \<Rightarrow> nat item list list \<times> bytes list \<Rightarrow> nat item list \<Rightarrow> unit option \<times> nat item list list \<times> bytes list" where
  "sample_run l st r = built_Log (\<lambda>_. Some AllowInfo) (\<lambda>s r. (None, s @ [r])) (\<lambda>_. Some [65]) [Item 0, Item 1, CallerKey, Item 2] AllowInfo st (l @ r)"

lemma context_log_end_to_end_witness:
  "sample_run (GetContextLogger [] (fst (NewContextLogger (@) (\<lambda>_. [Item 3, Item 4]) [] (Some []) ''x'' \<lparr>ctx_trace = None, ctx_logger = None\<rparr>
      [WithTraceId ''t'']))
      [WithCaller (@) (Item 5), WithPrint (@) (Item 6)]) ([], []) (flat [(Item 7, Item 8)]) =
    (None, [[Item 0, Item 1, CallerKey, Item 5, Item 3, Item 4, Item 7, Item 8]], [[65], [10]])"
proof -
  obtain ctx' l where n: "NewContextLogger (@) (\<lambda>_. [Item 3, Item 4]) [] (Some ([] :: nat item list)) ''x'' \<lparr>ctx_trace = None, ctx_logger = None\<rparr>
      [WithTraceId ''t''] = (ctx', l)"
    by fastforce
  have "\<forall>l kvs st r. even (length kvs) \<longrightarrow> sample_run (l @ kvs) st r = sample_run l st (kvs @ r)"
    by (simp add: sample_run_def)
  moreover have "sample_run [] = built_Log (\<lambda>_. Some AllowInfo) (\<lambda>s r. (None, s @ [r])) (\<lambda>_. Some [65]) [Item 0, Item 1, CallerKey, Item 2] AllowInfo"
    by (intro ext) (simp add: sample_run_def)
  ultimately show ?thesis
    using context_log_end_to_end [where run_log = sample_run and put = "(@)" and root = "[]" and trace_kv = "\<lambda>_. [Item 3, Item 4]" and tid = "''t''"
      and ps = "[(Item 7, Item 8)]" and s = "[]" and out = "[]" and other = "[]" and ?c1.0 = "Item 5" and raw = "Item 6", OF _ _ refl _ _ n]
    by (simp add: n passes_def writeln_def)
qed

text \<open>After \<open>SetLevel\<close> exactly the records of the new level and above are logged.\<close>

lemma dyn_Log_after_SetLevel:
  assumes "SetLevel l (Some new) = Ret l'"
  shows "dyn_Log level_of log l' s r = (if passes (getOption new) (level_of r) then log (base l) s r else (None, s))"
  using assms by (auto simp: SetLevel_def dyn_Log_def Let_def split: option.splits if_splits)

section \<open>Flags\<close>

text \<open>A flag set is what registers a text and a duration, on its own state; a handler is made of two functions.\<close>

record 'a flag_handler =
  sVar :: "string \<Rightarrow> string \<Rightarrow> string \<Rightarrow> 'a \<Rightarrow> 'a"
  dVar :: "string \<Rightarrow> int \<Rightarrow> string \<Rightarrow> 'a \<Rightarrow> 'a"

definition NewHandler :: "(string \<Rightarrow> string \<Rightarrow> string \<Rightarrow> 'a \<Rightarrow> 'a) \<Rightarrow> (string \<Rightarrow> int \<Rightarrow> string \<Rightarrow> 'a \<Rightarrow> 'a) \<Rightarrow> 'a flag_handler" where
  "NewHandler s d = \<lparr>sVar = s, dVar = d\<rparr>"

definition FormatFlagHelp :: "'f formats \<Rightarrow> string" where
  "FormatFlagHelp reg = ''Output format of log messages. One of: ['' @ join '' '' (GetRegisteredLogFormats reg) @ '']''"

definition register_flags :: "'a flag_handler \<Rightarrow> 'f formats \<Rightarrow> 'a \<Rightarrow> 'a" where
  "register_flags h reg a =
     (let a = sVar h ''log.level'' LevelInfo ''Only log messages with the given severity or above. One of: [debug, info, warn, error]'' a;
          a = sVar h ''log.format'' FormatLogfmt (FormatFlagHelp reg) a;
          a = sVar h ''log.file'' ''/dev/stderr'' ''The file path used to store logs.'' a;
          a = dVar h ''log.file-rotation-time'' (24 * 3600 * 10 ^ 9) ''Rotation cycle of log file'' a;
          a = dVar h ''log.file-max-age'' (7 * 24 * 3600 * 10 ^ 9) ''Maximum retention time of log files'' a
      in sVar h ''log.file-rotation-size'' ''100m'' ''Rotation size of log file'' a)"

text \<open>A handler that collects gets the flags with the defaults that \<open>AddFlags\<close> has put into the configuration.\<close>

lemma register_flags_collects:
  "register_flags (NewHandler (\<lambda>n v u a. a @ [(n, StringFlag v)]) (\<lambda>n v u a. a @ [(n, DurationFlag v)])) reg [] = snd (AddFlags c)"
  by (simp add: register_flags_def NewHandler_def AddFlags_def Let_def)

end
