(* ===== verification/Paths.thy ===== *)
theory Paths
  imports Prelude
begin

text \<open>
  The functions of Go's package \<open>path\<close> (and of \<open>path/filepath\<close> on a system with slashes) that the
  clients use: \<open>Clean\<close>, \<open>Join\<close>, \<open>Dir\<close> and \<open>Base\<close>, on the elements between the slashes. The
  lemmas say that a cleaned rooted path has only ordinary elements, so that it cannot step out
  of its root, and that cleaning is idempotent.
\<close>

definition dot :: string where "dot = ''.''"
definition dotdot :: string where "dotdot = ''..''"

text \<open>
  One element: empty elements and dots disappear, a double dot takes back the last ordinary
  element; at the root it disappears, and in a relative path it stays.
\<close>

definition clean_step :: "bool \<Rightarrow> string list \<Rightarrow> string \<Rightarrow> string list" where
  "clean_step rooted out e =
     (if e = [] \<or> e = dot then out
      else if e = dotdot then
        (if out \<noteq> [] \<and> last out \<noteq> dotdot then butlast out
         else if rooted then out else out @ [dotdot])
      else out @ [e])"

definition clean_elems :: "bool \<Rightarrow> string list \<Rightarrow> string list" where
  "clean_elems rooted es = foldl (clean_step rooted) [] es"

definition is_rooted :: "string \<Rightarrow> bool" where
  "is_rooted p = (case p of c # _ \<Rightarrow> c = CHR ''/'' | [] \<Rightarrow> False)"

definition path_Clean :: "string \<Rightarrow> string" where
  "path_Clean p =
     (if p = [] then dot
      else let out = clean_elems (is_rooted p) (split_on CHR ''/'' p)
           in if is_rooted p then CHR ''/'' # join ''/'' out
              else if out = [] then dot else join ''/'' out)"

definition path_Join :: "string list \<Rightarrow> string" where
  "path_Join elems =
     (case dropWhile (\<lambda>e. e = []) elems of [] \<Rightarrow> [] | es \<Rightarrow> path_Clean (join ''/'' es))"

text \<open>\<open>Split\<close>: what is before and after the last slash, the slash with the directory.\<close>

definition path_Split :: "string \<Rightarrow> string \<times> string" where
  "path_Split p =
     (rev (dropWhile (\<lambda>c. c \<noteq> CHR ''/'') (rev p)), rev (takeWhile (\<lambda>c. c \<noteq> CHR ''/'') (rev p)))"

definition path_Dir :: "string \<Rightarrow> string" where
  "path_Dir p = path_Clean (fst (path_Split p))"

section \<open>Ordinary elements\<close>

definition ordinary :: "string \<Rightarrow> bool" where
  "ordinary e \<longleftrightarrow> e \<noteq> [] \<and> e \<noteq> dot \<and> e \<noteq> dotdot \<and> CHR ''/'' \<notin> set e"

lemma split_on_no_sep: "e \<in> set (split_on sep s) \<Longrightarrow> sep \<notin> set e"
  by (induction s arbitrary: e) (auto split: if_splits list.splits)

lemma split_on_append_sep:
  "sep \<notin> set e \<Longrightarrow> split_on sep (e @ sep # s) = e # split_on sep s"
  by (induction e) auto

lemma split_on_single: "sep \<notin> set e \<Longrightarrow> split_on sep e = [e]"
  by (induction e) auto

lemma split_on_join:
  "es \<noteq> [] \<Longrightarrow> \<forall>e \<in> set es. sep \<notin> set e \<Longrightarrow> split_on sep (join [sep] es) = es"
proof (induction "[sep]" es rule: join.induct)
  case (2 p)
  then show ?case by (simp add: split_on_single)
next
  case (3 p q ps)
  then show ?case using split_on_append_sep [of sep p "join [sep] (q # ps)"] by simp
qed simp

lemma clean_elems_ordinary: "\<forall>e \<in> set es. ordinary e \<Longrightarrow> foldl (clean_step r) out es = out @ es"
  by (induction es arbitrary: out) (auto simp: clean_step_def ordinary_def)

text \<open>A rooted path keeps only ordinary elements, whatever double dots it contains.\<close>

lemma clean_rooted_ordinary:
  assumes "\<forall>e \<in> set es. CHR ''/'' \<notin> set e"
  shows "\<forall>e \<in> set (clean_elems True es). ordinary e"
proof -
  have step: "\<forall>e \<in> set (foldl (clean_step True) out es). ordinary e"
    if "\<forall>e \<in> set out. ordinary e" for out
    using that assms
  proof (induction es arbitrary: out)
    case (Cons e es)
    have "\<forall>x \<in> set (clean_step True out e). ordinary x"
      using Cons.prems by (auto simp: clean_step_def ordinary_def dest: in_set_butlastD)
    with Cons show ?case by simp
  qed simp
  show ?thesis unfolding clean_elems_def by (rule step) simp
qed

lemma path_Clean_rooted:
  assumes "is_rooted p"
  obtains es where "path_Clean p = CHR ''/'' # join ''/'' es" "\<forall>e \<in> set es. ordinary e"
proof -
  have "p \<noteq> []" using assms by (auto simp: is_rooted_def)
  then have "path_Clean p = CHR ''/'' # join ''/'' (clean_elems True (split_on CHR ''/'' p))"
    using assms by (simp add: path_Clean_def Let_def)
  moreover have "\<forall>e \<in> set (clean_elems True (split_on CHR ''/'' p)). ordinary e"
    using clean_rooted_ordinary split_on_no_sep by blast
  ultimately show ?thesis using that by blast
qed

lemma path_Clean_ordinary:
  assumes "\<forall>e \<in> set es. ordinary e"
  shows "path_Clean (CHR ''/'' # join ''/'' es) = CHR ''/'' # join ''/'' es"
proof (cases "es = []")
  case True
  then show ?thesis by (simp add: path_Clean_def is_rooted_def clean_elems_def clean_step_def)
next
  case False
  have "split_on CHR ''/'' (CHR ''/'' # join ''/'' es) = [] # es"
    using split_on_join [OF False, of "CHR ''/''"] assms by (simp add: ordinary_def)
  moreover have "clean_elems True ([] # es) = es"
    using clean_elems_ordinary [OF assms, of True "[]"] by (simp add: clean_elems_def clean_step_def)
  ultimately show ?thesis by (simp add: path_Clean_def is_rooted_def)
qed

lemma path_Clean_idem: "is_rooted p \<Longrightarrow> path_Clean (path_Clean p) = path_Clean p"
  by (metis path_Clean_rooted path_Clean_ordinary)

lemma is_rooted_Clean: "is_rooted p \<Longrightarrow> is_rooted (path_Clean p)"
  by (elim path_Clean_rooted) (simp add: is_rooted_def)

lemma join_append: "es \<noteq> [] \<Longrightarrow> fs \<noteq> [] \<Longrightarrow> join sep (es @ fs) = join sep es @ sep @ join sep fs"
proof (induction sep es rule: join.induct)
  case (2 sep p)
  then show ?case by (cases fs) auto
qed auto

text \<open>Joining a rooted path with elements appends those elements.\<close>

lemma path_Join_rooted:
  assumes "\<forall>e \<in> set es. ordinary e" "\<forall>e \<in> set fs. ordinary e" "fs \<noteq> []"
  shows "path_Join [CHR ''/'' # join ''/'' es, join ''/'' fs] = CHR ''/'' # join ''/'' (es @ fs)"
proof -
  let ?p = "CHR ''/'' # join ''/'' es @ ''/'' @ join ''/'' fs"
  have f: "split_on CHR ''/'' (join ''/'' fs) = fs"
    using split_on_join [OF assms(3), of "CHR ''/''"] assms(2) by (simp add: ordinary_def)
  have "split_on CHR ''/'' ?p = [] # (if es = [] then [[]] else es) @ fs"
  proof (cases "es = []")
    case False
    have "es @ fs \<noteq> []" "\<forall>e \<in> set (es @ fs). CHR ''/'' \<notin> set e"
      using False assms by (auto simp: ordinary_def)
    then have "split_on CHR ''/'' (join ''/'' (es @ fs)) = es @ fs" by (rule split_on_join)
    then show ?thesis using False assms(3) by (simp add: join_append)
  qed (simp add: f)
  moreover have "clean_elems True ([] # (if es = [] then [[]] else es) @ fs) = es @ fs"
    using clean_elems_ordinary [of "es @ fs" True "[]"] assms
    by (auto simp: clean_elems_def clean_step_def)
  ultimately show ?thesis
    by (simp add: path_Join_def path_Clean_def is_rooted_def)
qed

end
