(* ===== verification/Nacos.thy ===== *)
theory Nacos
  imports Paths Buffers Errors
begin

text \<open>
  \<open>clients/nacos/client.go\<close>, \<open>client_config.go\<close> and \<open>param.go\<close>: the configuration client without its
  watchdog (theory \<open>Nacos_Watch\<close>). The HTTP client, the URL parser, the clock and the JSON decoders
  are the parameters of \<open>nacos_lib\<close>; bodies go through the \<open>NewPreReader\<close> of \<open>Buffers\<close>, errors are the
  error values of \<open>Errors\<close>. \<open>None\<close> is a call that does not return, because a body never ends.
\<close>

section \<open>Configuration\<close>

record ('t, 'p) client_config =
  ServerAddr :: string
  ServerPort :: u64
  Username :: string
  Password :: string
  NamespaceId :: string
  Schema :: string
  ContextPath :: string
  TLSOption :: "'t option"
  Proxy :: "'p option"

type_synonym ('t, 'p) client_option = "('t, 'p) client_config \<Rightarrow> ('t, 'p) client_config"

definition WithUsername :: "string \<Rightarrow> ('t, 'p) client_option" where
  "WithUsername username config = config\<lparr>Username := username\<rparr>"

definition WithPassword :: "string \<Rightarrow> ('t, 'p) client_option" where
  "WithPassword password config = config\<lparr>Password := password\<rparr>"

definition WithNamespaceId :: "string \<Rightarrow> ('t, 'p) client_option" where
  "WithNamespaceId namespaceId config = config\<lparr>NamespaceId := namespaceId\<rparr>"

definition WithContextPath :: "string \<Rightarrow> ('t, 'p) client_option" where
  "WithContextPath path config = config\<lparr>ContextPath := path\<rparr>"

definition WithScheme :: "string \<Rightarrow> ('t, 'p) client_option" where
  "WithScheme scheme config = config\<lparr>Schema := scheme\<rparr>"

definition WithServerPort :: "u64 \<Rightarrow> ('t, 'p) client_option" where
  "WithServerPort num config = config\<lparr>ServerPort := num\<rparr>"

definition WithServerAddr :: "string \<Rightarrow> ('t, 'p) client_option" where
  "WithServerAddr addr config = config\<lparr>ServerAddr := addr\<rparr>"

definition WithTLSOption :: "'t \<Rightarrow> ('t, 'p) client_option" where
  "WithTLSOption tlsOptions config = config\<lparr>TLSOption := Some tlsOptions\<rparr>"

definition WithProxy :: "(string \<Rightarrow> 'p) \<Rightarrow> string \<Rightarrow> ('t, 'p) client_option" where
  "WithProxy proxyFunc addr config = (if addr \<noteq> [] then config\<lparr>Proxy := Some (proxyFunc addr)\<rparr> else config)"

text \<open>What \<open>url.Parse\<close> returns, and \<open>strconv.ParseUint(s, 10, 64)\<close>.\<close>

record parsed_url =
  url_Scheme :: string
  url_Hostname :: string
  url_Port :: string
  url_Path :: string

definition parse_uint64 :: "string \<Rightarrow> num_error + u64" where
  "parse_uint64 s =
     (if s = [] \<or> \<not> list_all is_digit s then Inl ErrSyntax
      else if dec_val 0 s \<ge> 2 ^ 64 then Inl ErrRange else Inr (word_of_int (dec_val 0 s)))"

definition WithServerURL ::
  "(string \<Rightarrow> 'x + parsed_url) \<Rightarrow> string \<Rightarrow> ('x + num_error) + ('t, 'p) client_option" where
  "WithServerURL parse u =
     (case parse u of
        Inl err \<Rightarrow> Inl (Inl err)
      | Inr url \<Rightarrow>
          let url = (if url_Scheme url = [] then url\<lparr>url_Scheme := ''http''\<rparr> else url);
              url = (if url_Path url = [] then url\<lparr>url_Path := ''/nacos''\<rparr> else url);
              port = (if url_Port url = [] then ''80'' else url_Port url)
          in (case parse_uint64 port of
                Inl err \<Rightarrow> Inl (Inr err)
              | Inr num \<Rightarrow> Inr (\<lambda>config. config\<lparr>ServerPort := num, ServerAddr := url_Hostname url,
                  Schema := url_Scheme url, ContextPath := url_Path url\<rparr>)))"

definition default_config :: "('t, 'p) client_config" where
  "default_config = \<lparr>ServerAddr = ''127.0.0.1'', ServerPort = 8848, Username = [], Password = [],
     NamespaceId = [], Schema = ''http'', ContextPath = ''/nacos'', TLSOption = None, Proxy = None\<rparr>"

definition nacos_url :: "('t, 'p) client_config \<Rightarrow> string \<Rightarrow> string" where
  "nacos_url cfg api =
     (let contextPath = (if ContextPath cfg = [] then ''/nacos''
                         else if hd (ContextPath cfg) \<noteq> CHR ''/'' then ''/'' @ ContextPath cfg
                         else ContextPath cfg)
      in Schema cfg @ ''://'' @ ServerAddr cfg @ '':'' @ dec_nat (unat (ServerPort cfg)) @ path_Join [contextPath, api])"

section \<open>The libraries below\<close>

text \<open>A request: query and form carry \<open>url.Values\<close> with one value for each name.\<close>

type_synonym url_values = "(string \<times> string) list"

record http_request =
  rq_method :: string
  rq_url :: string
  rq_query :: url_values
  rq_form :: url_values
  rq_auth :: "string option"

record 'r http_response =
  StatusCode :: int
  Header :: "string \<Rightarrow> string"
  Body :: 'r

record 'd api_body =
  api_error :: string
  api_message :: string
  api_code :: int
  api_data :: 'd

record login_body =
  AccessToken :: string
  TokenTTL :: int
  login_error :: string
  login_message :: string

record ('w, 'r, 'x) nacos_lib =
  lib_do :: "http_request \<Rightarrow> 'w \<Rightarrow> ('x + 'r http_response) \<times> 'w"
  lib_now :: "'w \<Rightarrow> int"
  lib_bad_url :: "string \<Rightarrow> 'x option"
  lib_read :: "('r, 'x) reader"
  lib_login :: "'r pre_reader \<Rightarrow> 'x + login_body"
  lib_query :: "'r pre_reader \<Rightarrow> 'x + string api_body"
  lib_done :: "'r pre_reader \<Rightarrow> 'x + bool api_body"
  lib_show :: "'x \<Rightarrow> string"
  lib_errorf :: "string \<Rightarrow> 'x"
  lib_addr :: nat

definition failf :: "('w, 'r, 'x) nacos_lib \<Rightarrow> string \<Rightarrow> 'x error" where
  "failf lib msg = Foreign (lib_errorf lib msg)"

definition io_text :: "('w, 'r, 'x) nacos_lib \<Rightarrow> 'x io_error \<Rightarrow> string" where
  "io_text lib e = (case e of EOF \<Rightarrow> ''EOF'' | IOError x \<Rightarrow> lib_show lib x)"

definition second :: int where "second = 1000000000"

section \<open>The client\<close>

record ('t, 'p) nacos_client =
  cfg :: "('t, 'p) client_config"
  token :: string
  tokenExpireAt :: int

definition login_request :: "('t, 'p) client_config \<Rightarrow> http_request" where
  "login_request config = \<lparr>rq_method = ''POST'', rq_url = nacos_url config ''v1/auth/login'', rq_query = [],
     rq_form = [(''username'', Username config), (''password'', Password config)], rq_auth = None\<rparr>"

text \<open>What the answer to a login means; \<open>Inr\<close> is the token with its time to live.\<close>

definition login_outcome ::
  "('w, 'r, 'x) nacos_lib \<Rightarrow> ('t, 'p) client_config \<Rightarrow> 'r http_response \<Rightarrow> 'r pre_reader \<Rightarrow> 'x error + string \<times> int" where
  "login_outcome lib config resp pre =
     (if has_prefix (Header resp ''Content-Type'') ''application/json'' then
        (case lib_login lib pre of
           Inl err \<Rightarrow> Inl (failf lib
             (if StatusCode resp = 200 then ''authentication failed: failed to decode response body: '' @ lib_show lib err
              else ''authentication failed: body='' @ pr_String pre @ '',err='' @ lib_show lib err))
         | Inr respBody \<Rightarrow>
             if login_error respBody \<noteq> [] then Inl (failf lib (''authentication failed: '' @ login_error respBody))
             else if login_message respBody \<noteq> [] then Inl (failf lib (''authentication failed: '' @ login_message respBody))
             else if length (AccessToken respBody) = 0 then Inl (failf lib ''authentication failed: accessToken is null'')
             else Inr (AccessToken respBody, TokenTTL respBody))
      else Inl (failf lib (''authentication failed, invalid response Content-Type: Content-Type='' @ Header resp ''Content-Type'' @
        '', body='' @ pr_String pre @ '', status_code='' @ itoa (StatusCode resp) @ '', username='' @ Username config @
        '', namespaceId=='' @ NamespaceId config)))"

definition Authorization ::
  "('w, 'r, 'x) nacos_lib \<Rightarrow> ('t, 'p) nacos_client \<Rightarrow> 'w \<Rightarrow> ('x error option \<times> ('t, 'p) nacos_client \<times> 'w) option" where
  "Authorization lib c w =
     (case lib_do lib (login_request (cfg c)) w of
        (Inl err, w) \<Rightarrow> Some (Some (failf lib (''authentication failed: '' @ lib_show lib err)), c, w)
      | (Inr resp, w) \<Rightarrow>
          (case NewPreReader (lib_read lib) (Body resp) 1024 of
             None \<Rightarrow> None
           | Some (_, Some err) \<Rightarrow> Some (Some (failf lib (''authentication failed: failed to read data: '' @ io_text lib err)), c, w)
           | Some (pre, None) \<Rightarrow>
               (case login_outcome lib (cfg c) resp pre of
                  Inl err \<Rightarrow> Some (Some err, c, w)
                | Inr (tok, ttl) \<Rightarrow>
                    Some (None, c\<lparr>token := tok, tokenExpireAt := lib_now lib w + wrap64 (ttl * second)\<rparr>, w))))"

text \<open>The zero time of \<open>tokenExpireAt\<close> in a fresh client.\<close>

definition zero_time :: int where "zero_time = - 62135596800 * second"

definition NewConfigClient ::
  "('w, 'r, 'x) nacos_lib \<Rightarrow> ('t, 'p) client_option list \<Rightarrow> 'w \<Rightarrow> (('x error + ('t, 'p) nacos_client) \<times> 'w) option" where
  "NewConfigClient lib opts w =
     (let config = fold (\<lambda>opt config. opt config) opts default_config;
          cc = \<lparr>cfg = config, token = [], tokenExpireAt = zero_time\<rparr>
      in case Authorization lib cc w of
           None \<Rightarrow> None
         | Some (Some err, _, w) \<Rightarrow> Some (Inl err, w)
         | Some (None, cc, w) \<Rightarrow> Some (Inr cc, w))"

section \<open>Requests\<close>

text \<open>The request that is built: a form for POST and PUT, a query otherwise.\<close>

definition build_request ::
  "('w, 'r, 'x) nacos_lib \<Rightarrow> ('t, 'p) nacos_client \<Rightarrow> string \<Rightarrow> string \<Rightarrow> url_values \<Rightarrow> 'x + http_request" where
  "build_request lib c method api data =
     (let target = nacos_url (cfg c) api;
          r = \<lparr>rq_method = method, rq_url = target, rq_query = [], rq_form = [], rq_auth = Some (''Bearer '' @ token c)\<rparr>
      in case lib_bad_url lib target of
           Some err \<Rightarrow> Inl err
         | None \<Rightarrow> Inr (if method = ''POST'' \<or> method = ''PUT'' then r\<lparr>rq_form := data\<rparr> else r\<lparr>rq_query := data\<rparr>))"

definition doRequest ::
  "('w, 'r, 'x) nacos_lib \<Rightarrow> ('t, 'p) nacos_client \<Rightarrow> string \<Rightarrow> string \<Rightarrow> url_values \<Rightarrow> 'w \<Rightarrow>
   (('x error + 'r http_response) \<times> ('t, 'p) nacos_client \<times> 'w) option" where
  "doRequest lib c method api data w =
     (case (if tokenExpireAt c - lib_now lib w < 60 * second then Authorization lib c w else Some (None, c, w)) of
        None \<Rightarrow> None
      | Some (Some err, c, w) \<Rightarrow> Some (Inl err, c, w)
      | Some (None, c, w) \<Rightarrow>
          let data = filter (\<lambda>(name, v). v \<noteq> []) data
          in (case build_request lib c method api data of
                Inl err \<Rightarrow> Some (Inl (Foreign err), c, w)
              | Inr r \<Rightarrow>
                  (case lib_do lib r w of
                     (Inl err, w) \<Rightarrow> Some (Inl (Foreign err), c, w)
                   | (Inr resp, w) \<Rightarrow> Some (Inr resp, c, w))))"

text \<open>Reading and decoding of an answer; \<open>op\<close> starts the messages.\<close>

definition read_json ::
  "('w, 'r, 'x) nacos_lib \<Rightarrow> string \<Rightarrow> ('r pre_reader \<Rightarrow> 'x + 'v) \<Rightarrow> 'r http_response \<Rightarrow> ('x error + 'v) option" where
  "read_json lib op decode resp =
     (case NewPreReader (lib_read lib) (Body resp) 1024 of
        None \<Rightarrow> None
      | Some (_, Some err) \<Rightarrow> Some (Inl (failf lib (op @ '': failed to read data: '' @ io_text lib err)))
      | Some (pre, None) \<Rightarrow> Some
          (case decode pre of
             Inl err \<Rightarrow> Inl (failf lib
               (if StatusCode resp = 200 then op @ '': failed to decode response body: '' @ lib_show lib err
                else op @ '': body='' @ pr_String pre @ '',err='' @ lib_show lib err))
           | Inr respBody \<Rightarrow> Inr respBody))"

record config_param =
  DataId :: string
  Group :: string
  Content :: string
  Tag :: string
  AppName :: string
  Desc :: string
  Effect :: string
  BetaIps :: string
  CasMd5 :: string
  param_Type :: string
  param_Schema :: string
  SrcUser :: string
  ConfigTags :: string

definition publish_outcome :: "('w, 'r, 'x) nacos_lib \<Rightarrow> bool api_body \<Rightarrow> bool \<times> 'x error option" where
  "publish_outcome lib respBody =
     (if api_code respBody \<noteq> 0 then
        (if api_error respBody \<noteq> [] then (False, Some (failf lib (''publish failed: '' @ api_error respBody)))
         else if api_message respBody \<noteq> [] then (False, Some (failf lib (''publish failed: '' @ api_message respBody)))
         else (False, Some (failf lib (''publish failed: code='' @ itoa (api_code respBody)))))
      else (api_data respBody, None))"

text \<open>
  The operations have value receivers: the copy they hand to \<open>doRequest\<close> dies with the call, so the
  client of the caller is not returned.
\<close>

definition PublishConfig ::
  "('w, 'r, 'x) nacos_lib \<Rightarrow> ('t, 'p) nacos_client \<Rightarrow> config_param \<Rightarrow> 'w \<Rightarrow> ((bool \<times> 'x error option) \<times> 'w) option" where
  "PublishConfig lib c param w =
     (case doRequest lib c ''POST'' ''/v2/cs/config''
        [(''namespaceId'', NamespaceId (cfg c)), (''tenant'', NamespaceId (cfg c)), (''group'', Group param),
         (''dataId'', DataId param), (''content'', Content param), (''tag'', Tag param), (''appName'', AppName param),
         (''srcUser'', SrcUser param), (''configTags'', ConfigTags param), (''desc'', Desc param),
         (''effect'', Effect param), (''type'', param_Type param), (''schema'', param_Schema param)] w of
        None \<Rightarrow> None
      | Some (Inl err, _, w) \<Rightarrow> Some ((False, Some err), w)
      | Some (Inr resp, _, w) \<Rightarrow>
          map_option (\<lambda>r. (case r of Inl err \<Rightarrow> (False, Some err) | Inr respBody \<Rightarrow> publish_outcome lib respBody, w))
            (read_json lib ''publish failed'' (lib_done lib) resp))"

definition delete_outcome :: "('w, 'r, 'x) nacos_lib \<Rightarrow> bool api_body \<Rightarrow> bool \<times> 'x error option" where
  "delete_outcome lib respBody =
     (if api_code respBody \<noteq> 0 then
        (if api_error respBody \<noteq> [] then (False, Some (failf lib (''delete failed: '' @ api_error respBody)))
         else if api_message respBody \<noteq> [] then (False, Some (failf lib (''publish failed: '' @ api_message respBody)))
         else (False, Some (failf lib (''delete failed: code='' @ itoa (api_code respBody)))))
      else (api_data respBody, None))"

definition DeleteConfig ::
  "('w, 'r, 'x) nacos_lib \<Rightarrow> ('t, 'p) nacos_client \<Rightarrow> config_param \<Rightarrow> 'w \<Rightarrow> ((bool \<times> 'x error option) \<times> 'w) option" where
  "DeleteConfig lib c param w =
     (case doRequest lib c ''DELETE'' ''/v2/cs/config''
        [(''namespaceId'', NamespaceId (cfg c)), (''tenant'', NamespaceId (cfg c)), (''group'', Group param),
         (''dataId'', DataId param), (''tag'', Tag param)] w of
        None \<Rightarrow> None
      | Some (Inl err, _, w) \<Rightarrow> Some ((False, Some err), w)
      | Some (Inr resp, _, w) \<Rightarrow>
          map_option (\<lambda>r. (case r of Inl err \<Rightarrow> (False, Some err) | Inr respBody \<Rightarrow> delete_outcome lib respBody, w))
            (read_json lib ''delete failed'' (lib_done lib) resp))"

record config_response = "string api_body" +
  ContentMd5 :: string
  ConfigType :: string

text \<open>The message without a text prints the number with the verb of a string.\<close>

definition query_outcome ::
  "('w, 'r, 'x) nacos_lib \<Rightarrow> string \<Rightarrow> string api_body \<Rightarrow> 'x error + config_response" where
  "query_outcome lib md5 respBody =
     (let newError = (\<lambda>msg. Inl (NewError (lib_errorf lib) (lib_addr lib) (api_code respBody) msg []))
      in if api_code respBody \<noteq> 0 then
           (if api_code respBody = 20004 then Inl (NotFoundError (lib_errorf lib))
            else if api_error respBody \<noteq> [] then newError (''get config failed: '' @ api_error respBody)
            else if api_message respBody \<noteq> [] then newError (''get config failed: '' @ api_message respBody)
            else newError (''get config failed: code=%!s(int='' @ itoa (api_code respBody) @ '')''))
         else Inr (api_body.extend respBody \<lparr>ContentMd5 = md5, ConfigType = []\<rparr>))"

definition QueryConfig ::
  "('w, 'r, 'x) nacos_lib \<Rightarrow> ('t, 'p) nacos_client \<Rightarrow> config_param \<Rightarrow> 'w \<Rightarrow> (('x error + config_response) \<times> 'w) option" where
  "QueryConfig lib c param w =
     (case doRequest lib c ''GET'' ''/v2/cs/config''
        [(''namespaceId'', NamespaceId (cfg c)), (''tenant'', NamespaceId (cfg c)), (''group'', Group param),
         (''dataId'', DataId param), (''tag'', Tag param)] w of
        None \<Rightarrow> None
      | Some (Inl err, _, w) \<Rightarrow> Some (Inl err, w)
      | Some (Inr resp, _, w) \<Rightarrow>
          map_option (\<lambda>r. (case r of Inl err \<Rightarrow> Inl err
              | Inr respBody \<Rightarrow> query_outcome lib (Header resp ''Content-MD5'') respBody, w))
            (read_json lib ''query failed'' (lib_query lib) resp))"

definition GetConfig ::
  "('w, 'r, 'x) nacos_lib \<Rightarrow> ('t, 'p) nacos_client \<Rightarrow> config_param \<Rightarrow> 'w \<Rightarrow> (('x error + string) \<times> 'w) option" where
  "GetConfig lib c param w =
     (case QueryConfig lib c param w of
        None \<Rightarrow> None
      | Some (Inl err, w) \<Rightarrow> Some (Inl err, w)
      | Some (Inr content, w) \<Rightarrow> Some (Inr (api_data content), w))"

text \<open>\<open>SearchConfig\<close> is not implemented and panics.\<close>

definition SearchConfig :: "('t, 'p) nacos_client \<Rightarrow> 's \<Rightarrow> 'a run" where
  "SearchConfig c param = Panic"

section \<open>Answers\<close>

text \<open>The bytes a decoder sees when it reads the pre-reader to its end.\<close>

definition stream_bytes :: "bytes list pre_reader \<Rightarrow> bytes" where
  "stream_bytes r = (case read_all (pr_Read (body_read :: (bytes list, unit) reader)) 512 r [] of
     None \<Rightarrow> [] | Some (bs, _) \<Rightarrow> bs)"

lemma stream_bytes_pending:
  assumes "body.pr_ok r" shows "stream_bytes r = body.pr_pending r"
proof -
  have "read_all (pr_Read (body_read :: (bytes list, unit) reader)) 512 r [] = Some ([] @ body.pr_pending r, EOF)"
    by (rule pre_body.read_all_pending [OF assms]) simp
  then show ?thesis by (simp add: stream_bytes_def)
qed

lemma read_json_chunks:
  fixes lib :: "('w, bytes list, 'x) nacos_lib"
  assumes "lib_read lib = body_read" "[] \<notin> set (Body resp)" "\<And>r. decode r = d (stream_bytes r)"
  shows "read_json lib op decode resp = Some
    (case d (concat (Body resp)) of
       Inl err \<Rightarrow> Inl (failf lib
         (if StatusCode resp = 200 then op @ '': failed to decode response body: '' @ lib_show lib err
          else op @ '': body='' @ string_of (take 1024 (concat (Body resp))) @ '',err='' @ lib_show lib err))
     | Inr v \<Rightarrow> Inr v)"
proof -
  obtain r where r: "NewPreReader (body_read :: (bytes list, 'x) reader) (Body resp) 1024 = Some (r, None)" "body.pr_ok r"
    "body.pr_pending r = concat (Body resp)" "pr_Buffer r = take 1024 (concat (Body resp))"
    using body.NewPreReader_ok [of "Body resp" 1024] assms(2) by auto
  have "pr_String r = string_of (take 1024 (concat (Body resp)))"
    using r(4) by (simp add: pr_String_def pr_Buffer_def)
  then show ?thesis
    using r stream_bytes_pending [OF r(2)] assms by (simp add: read_json_def split: sum.split)
qed

definition query_request :: "('t, 'p) nacos_client \<Rightarrow> config_param \<Rightarrow> http_request" where
  "query_request c param = \<lparr>rq_method = ''GET'', rq_url = nacos_url (cfg c) ''/v2/cs/config'',
     rq_query = filter (\<lambda>(name, v). v \<noteq> []) [(''namespaceId'', NamespaceId (cfg c)), (''tenant'', NamespaceId (cfg c)),
       (''group'', Group param), (''dataId'', DataId param), (''tag'', Tag param)],
     rq_form = [], rq_auth = Some (''Bearer '' @ token c)\<rparr>"

lemma doRequest_fresh:
  assumes "60 * second \<le> tokenExpireAt c - lib_now lib w" "lib_bad_url lib (nacos_url (cfg c) api) = None"
    and "method \<noteq> ''POST''" "method \<noteq> ''PUT''"
  shows "doRequest lib c method api data w =
    (case lib_do lib \<lparr>rq_method = method, rq_url = nacos_url (cfg c) api, rq_query = filter (\<lambda>(name, v). v \<noteq> []) data,
        rq_form = [], rq_auth = Some (''Bearer '' @ token c)\<rparr> w of
       (Inl err, w) \<Rightarrow> Some (Inl (Foreign err), c, w) | (Inr resp, w) \<Rightarrow> Some (Inr resp, c, w))"
proof -
  have "\<not> tokenExpireAt c - lib_now lib w < 60 * second" using assms(1) by simp
  then show ?thesis
    using assms(2-4) by (simp add: doRequest_def build_request_def Let_def)
qed

lemma QueryConfig_fresh:
  assumes "60 * second \<le> tokenExpireAt c - lib_now lib w" "lib_bad_url lib (nacos_url (cfg c) ''/v2/cs/config'') = None"
  shows "QueryConfig lib c param w =
    (case lib_do lib (query_request c param) w of
       (Inl err, w) \<Rightarrow> Some (Inl (Foreign err), w)
     | (Inr resp, w) \<Rightarrow> map_option (\<lambda>r. (case r of Inl err \<Rightarrow> Inl err
              | Inr respBody \<Rightarrow> query_outcome lib (Header resp ''Content-MD5'') respBody, w))
            (read_json lib ''query failed'' (lib_query lib) resp))"
proof -
  have G: "''GET'' \<noteq> ''POST''" "''GET'' \<noteq> ''PUT''" by simp_all
  show ?thesis
    unfolding QueryConfig_def doRequest_fresh [OF assms G] query_request_def
    by (cases "lib_do lib (query_request c param) w" rule: prod.exhaust; cases "fst (lib_do lib (query_request c param) w)")
      (auto simp: query_request_def simp del: filter.simps)
qed

lemma query_outcome_cases:
  "api_code b = 0 \<Longrightarrow> query_outcome lib md5 b = Inr (api_body.extend b \<lparr>ContentMd5 = md5, ConfigType = []\<rparr>)"
  "api_code b = 20004 \<Longrightarrow> query_outcome lib md5 b = Inl (NotFoundError (lib_errorf lib))"
  "api_code b \<noteq> 0 \<Longrightarrow> api_code b \<noteq> 20004 \<Longrightarrow> \<exists>msg. query_outcome lib md5 b =
     Inl (NewError (lib_errorf lib) (lib_addr lib) (api_code b) msg [])"
  by (auto simp: query_outcome_def Let_def)

lemma NotFoundError_is_not_found: "IsNotFount new nf (NotFoundError new)"
  by (simp add: IsNotFount.simps error_Is_def NotFoundError_def NewError_def)

text \<open>
  C11: With a token that is still good for a minute, \<open>QueryConfig\<close> sends one authorised request and
  returns, however the body is cut into chunks: the configuration with the header's checksum for
  the code 0, an error that \<open>IsNotFount\<close> accepts for 20004, an error with the code as its status
  otherwise, and the first 1024 bytes of a body that is no JSON and no success.
\<close>

theorem QueryConfig_answers:
  fixes lib :: "('w, bytes list, 'x) nacos_lib"
  assumes "60 * second \<le> tokenExpireAt c - lib_now lib w" "lib_bad_url lib (nacos_url (cfg c) ''/v2/cs/config'') = None"
    and "lib_do lib (query_request c param) w = (Inr resp, w')"
    and "lib_read lib = body_read" "[] \<notin> set (Body resp)" "lib_query lib = (\<lambda>r. d (stream_bytes r))"
  shows "\<exists>r. QueryConfig lib c param w = Some (r, w') \<and>
    (case d (concat (Body resp)) of
       Inr b \<Rightarrow>
         if api_code b = 0 then r = Inr (api_body.extend b \<lparr>ContentMd5 = Header resp ''Content-MD5'', ConfigType = []\<rparr>)
         else (\<exists>e. r = Inl e \<and> (if api_code b = 20004 then IsNotFount (lib_errorf lib) nf e
                                 else Errors.StatusCode e = Ret (api_code b)))
     | Inl err \<Rightarrow> StatusCode resp = 200 \<or> r = Inl (Foreign (lib_errorf lib
         (''query failed: body='' @ string_of (take 1024 (concat (Body resp))) @ '',err='' @ lib_show lib err))))"
proof -
  note Q = QueryConfig_fresh [OF assms(1,2), of param, unfolded assms(3) prod.case sum.case]
  have R: "read_json lib ''query failed'' (lib_query lib) resp = Some
    (case d (concat (Body resp)) of
       Inl err \<Rightarrow> Inl (failf lib
         (if StatusCode resp = 200 then ''query failed'' @ '': failed to decode response body: '' @ lib_show lib err
          else ''query failed'' @ '': body='' @ string_of (take 1024 (concat (Body resp))) @ '',err='' @ lib_show lib err))
     | Inr v \<Rightarrow> Inr v)"
    by (rule read_json_chunks [OF assms(4,5)]) (simp only: assms(6))
  show ?thesis
  proof (cases "d (concat (Body resp))")
    case (Inl e)
    then show ?thesis by (simp add: Q R failf_def)
  next
    case (Inr b)
    then have q: "QueryConfig lib c param w = Some (query_outcome lib (Header resp ''Content-MD5'') b, w')"
      by (simp add: Q R)
    show ?thesis
    proof (cases "api_code b = 0 \<or> api_code b = 20004")
      case True
      then show ?thesis using q Inr by (auto simp: query_outcome_cases(1,2) NotFoundError_is_not_found)
    next
      case False
      then obtain msg where "query_outcome lib (Header resp ''Content-MD5'') b =
          Inl (NewError (lib_errorf lib) (lib_addr lib) (api_code b) msg [])"
        using query_outcome_cases(3) by blast
      then show ?thesis using q Inr False by (simp add: NewError_def Errors.StatusCode_def)
    qed
  qed
qed

text \<open>A server for the witnesses: it answers every request and remembers them all.\<close>

definition sample_lib :: "(http_request list, bytes list, unit) nacos_lib" where
  "sample_lib = \<lparr>
     lib_do = (\<lambda>rq w. (Inr \<lparr>StatusCode = 200,
        Header = (\<lambda>h. if h = ''Content-Type'' then ''application/json'' else ''0cc1''), Body = [[123], [125]]\<rparr>, w @ [rq])),
     lib_now = (\<lambda>w. 1000 * second * int (length w)),
     lib_bad_url = (\<lambda>_. None),
     lib_read = body_read,
     lib_login = (\<lambda>r. Inr \<lparr>AccessToken = ''t'', TokenTTL = 100, login_error = [], login_message = []\<rparr>),
     lib_query = (\<lambda>r. (\<lambda>bs. Inr \<lparr>api_error = [], api_message = [], api_code = (if length bs = 2 then 20004 else 0), api_data = ''v''\<rparr>) (stream_bytes r)),
     lib_done = (\<lambda>r. Inr \<lparr>api_error = [], api_message = [], api_code = 0, api_data = True\<rparr>),
     lib_show = (\<lambda>_. []), lib_errorf = (\<lambda>_. ()), lib_addr = 1\<rparr>"

definition sample_client :: "(unit, unit) nacos_client" where
  "sample_client = \<lparr>cfg = default_config, token = ''t'', tokenExpireAt = 100 * second\<rparr>"

definition sample_param :: config_param where
  "sample_param = \<lparr>DataId = ''d'', Group = ''g'', Content = [], Tag = [], AppName = [], Desc = [], Effect = [],
     BetaIps = [], CasMd5 = [], param_Type = [], param_Schema = [], SrcUser = [], ConfigTags = []\<rparr>"

theorem QueryConfig_answers_witness:
  "\<exists>e. QueryConfig sample_lib sample_client sample_param [] = Some (Inl e, [query_request sample_client sample_param]) \<and>
     IsNotFount (\<lambda>_. ()) () e"
  using QueryConfig_answers [of sample_client sample_lib "[]" sample_param
      "\<lparr>StatusCode = 200, Header = (\<lambda>h. if h = ''Content-Type'' then ''application/json'' else ''0cc1''), Body = [[123], [125]]\<rparr>"
      "[query_request sample_client sample_param]"
      "\<lambda>bs. Inr \<lparr>api_error = [], api_message = [], api_code = (if length bs = 2 then 20004 else 0), api_data = ''v''\<rparr>" "()"]
  by (auto simp: sample_lib_def sample_client_def second_def)

section \<open>Tokens\<close>

text \<open>A login touches the world by its one request, and changes only token and expiry.\<close>

lemma Authorization_world:
  "Authorization lib c w = Some (r, c', w') \<Longrightarrow> w' = snd (lib_do lib (login_request (cfg c)) w) \<and> cfg c' = cfg c"
  by (auto simp: Authorization_def split: prod.splits sum.splits option.splits)

lemma Authorization_token:
  "Authorization lib c w = Some (None, c', w') \<Longrightarrow>
     token c' \<noteq> [] \<and> (\<exists>ttl. tokenExpireAt c' = lib_now lib w' + wrap64 (ttl * second))"
  by (auto simp: Authorization_def login_outcome_def split: prod.splits sum.splits option.splits if_splits)

lemma build_request_auth: "build_request lib c method api data = Inr r \<Longrightarrow> rq_auth r = Some (''Bearer '' @ token c)"
  by (auto simp: build_request_def Let_def split: option.splits if_splits)

lemma login_request_auth: "rq_auth (login_request config) = None"
  by (simp add: login_request_def)

text \<open>
  A client that \<open>NewConfigClient\<close> returns has a token that is not empty, and the options it was
  given, in their order, over the defaults; a failed login returns no client.
\<close>

theorem NewConfigClient_token:
  assumes "NewConfigClient lib opts w = Some (r, w')"
  shows "(\<exists>err. r = Inl err) \<or> (\<exists>cc. r = Inr cc \<and> token cc \<noteq> [] \<and>
     cfg cc = foldl (\<lambda>config opt. opt config) default_config opts)"
  using assms
  by (auto simp: NewConfigClient_def Let_def foldl_conv_fold split: option.splits prod.splits)
    (metis Authorization_token, metis Authorization_world nacos_client.select_convs(1))

theorem NewConfigClient_token_witness:
  "\<exists>cc w'. NewConfigClient sample_lib [WithUsername ''u'', WithProxy (\<lambda>_. ()) []] [] = Some (Inr (cc :: (unit, unit) nacos_client), w') \<and>
     token cc \<noteq> [] \<and> cfg cc = default_config\<lparr>Username := ''u''\<rparr>"
proof -
  obtain r where r: "NewPreReader (body_read :: (bytes list, unit) reader) [[123], [125]] 1024 = Some (r, None)"
    using body.NewPreReader_ok [of "[[123], [125]]" 1024] by auto
  then obtain cc w' where N: "NewConfigClient sample_lib [WithUsername ''u'', WithProxy (\<lambda>_. ()) []] [] =
      Some (Inr (cc :: (unit, unit) nacos_client), w')"
    by (simp add: NewConfigClient_def Authorization_def login_outcome_def sample_lib_def Let_def)
  from NewConfigClient_token [OF N] show ?thesis
    using N by (simp add: WithUsername_def WithProxy_def)
qed

text \<open>Several queries of one client, one after the other.\<close>

fun query_all ::
  "('w, 'r, 'x) nacos_lib \<Rightarrow> ('t, 'p) nacos_client \<Rightarrow> config_param list \<Rightarrow> 'w \<Rightarrow> (('x error + config_response) list \<times> 'w) option" where
  "query_all lib c [] w = Some ([], w)"
| "query_all lib c (p # ps) w =
     (case QueryConfig lib c p w of None \<Rightarrow> None
      | Some (r, w) \<Rightarrow> map_option (\<lambda>(rs, w). (r # rs, w)) (query_all lib c ps w))"

lemma doRequest_stale:
  assumes "tokenExpireAt c - lib_now lib w < 60 * second" "doRequest lib c method api data w = Some (r, c', w')"
    and "\<And>rq w. logins (snd (lib_do lib rq w)) = logins w + (if rq = login_request (cfg c) then 1 else 0)"
  shows "logins w' = logins w + (1 :: nat)"
proof -
  let ?w = "snd (lib_do lib (login_request (cfg c)) w)"
  have *: "logins ?w = logins w + 1" by (simp add: assms(3))
  obtain a c1 w1 where A: "Authorization lib c w = Some (a, c1, w1)"
    using assms(1,2) by (auto simp: doRequest_def split: option.splits)
  have w1: "w1 = ?w" "cfg c1 = cfg c" using Authorization_world [OF A] by auto
  show ?thesis
  proof (cases a)
    case (Some e)
    then have "w' = w1" using assms(1,2) A by (simp add: doRequest_def)
    then show ?thesis using * w1 by simp
  next
    case None
    then have D: "(case build_request lib c1 method api (filter (\<lambda>(name, v). v \<noteq> []) data) of
                Inl err \<Rightarrow> Some (Inl (Foreign err), c1, w1)
              | Inr r \<Rightarrow>
                  (case lib_do lib r w1 of
                     (Inl err, w) \<Rightarrow> Some (Inl (Foreign err), c1, w)
                   | (Inr resp, w) \<Rightarrow> Some (Inr resp, c1, w))) = Some (r, c', w')"
      using assms(1,2) A by (simp add: doRequest_def Let_def)
    show ?thesis
    proof (cases "build_request lib c1 method api (filter (\<lambda>(name, v). v \<noteq> []) data)")
      case (Inl e)
      then show ?thesis using D * w1 by simp
    next
      case (Inr q)
      then have "w' = snd (lib_do lib q w1)" using D by (auto split: prod.splits sum.splits)
      moreover have "q \<noteq> login_request (cfg c)"
        using build_request_auth [OF Inr] login_request_auth [of "cfg c"] by auto
      ultimately show ?thesis using * w1 by (simp add: assms(3))
    qed
  qed
qed

lemma QueryConfig_request:
  assumes "QueryConfig lib c p w = Some (r, w1)"
  shows "\<exists>data r' c'. doRequest lib c ''GET'' ''/v2/cs/config'' data w = Some (r', c', w1)"
proof -
  let ?D = "doRequest lib c ''GET'' ''/v2/cs/config''
        [(''namespaceId'', NamespaceId (cfg c)), (''tenant'', NamespaceId (cfg c)), (''group'', Group p),
         (''dataId'', DataId p), (''tag'', Tag p)] w"
  obtain r' c' w2 where D: "?D = Some (r', c', w2)"
    using assms by (cases ?D) (auto simp: QueryConfig_def)
  have "w2 = w1" using assms by (cases r') (auto simp: QueryConfig_def D)
  with D show ?thesis by blast
qed

text \<open>
  A token that a query renews is lost with the copy of the client the query works on: once
  the token of a client is due, each of its queries logs in again, exactly once.
\<close>

theorem QueryConfig_logs_in_every_time:
  assumes "\<And>w. tokenExpireAt c - lib_now lib w < 60 * second" "query_all lib c ps w = Some (rs, w')"
    and "\<And>rq w. logins (snd (lib_do lib rq w)) = logins w + (if rq = login_request (cfg c) then 1 else 0)"
  shows "logins w' = logins w + length ps"
  using assms(2)
proof (induction ps arbitrary: w rs)
  case (Cons p ps)
  then obtain r w1 rs1 where q: "QueryConfig lib c p w = Some (r, w1)" "query_all lib c ps w1 = Some (rs1, w')"
    by (auto split: option.splits)
  from QueryConfig_request [OF q(1)] obtain data r' c' where
    "doRequest lib c ''GET'' ''/v2/cs/config'' data w = Some (r', c', w1)" by blast
  from doRequest_stale [OF assms(1) this assms(3)] Cons.IH [OF q(2)] show ?case by simp
qed simp

definition count_logins :: "http_request list \<Rightarrow> nat" where
  "count_logins w = length (filter (\<lambda>rq. rq = login_request (cfg sample_client)) w)"

theorem QueryConfig_logs_in_every_time_witness:
  "\<exists>rs w'. query_all (sample_lib\<lparr>lib_now := \<lambda>_. 90 * second\<rparr>) sample_client [sample_param, sample_param] [] = Some (rs, w') \<and>
     count_logins w' = 2"
proof -
  let ?lib = "sample_lib\<lparr>lib_now := \<lambda>_. 90 * second\<rparr>"
  obtain r where r: "NewPreReader (body_read :: (bytes list, unit) reader) [[123], [125]] 1024 = Some (r, None)"
    using body.NewPreReader_ok [of "[[123], [125]]" 1024] by auto
  have A: "\<exists>c'. Authorization ?lib c w = Some (None, c', w @ [login_request (cfg c)])" for c :: "(unit, unit) nacos_client" and w
    using r by (simp add: Authorization_def login_outcome_def sample_lib_def)
  have stale: "tokenExpireAt sample_client - lib_now ?lib w < 60 * second" for w
    by (simp add: sample_client_def second_def)
  have D: "\<exists>resp c' w'. doRequest ?lib sample_client ''GET'' api data w = Some (Inr resp, c', w') \<and> Body resp = [[123], [125]]"
    for api data w
  proof -
    obtain c' where "Authorization ?lib sample_client w = Some (None, c', w @ [login_request (cfg sample_client)])"
      using A by blast
    then show ?thesis
      using stale [of w] by (simp add: doRequest_def build_request_def sample_lib_def Let_def)
  qed
  have R: "\<exists>b. read_json ?lib op (lib_query ?lib) resp = Some b" if "Body resp = [[123], [125]]" for op resp
    using r that by (simp add: read_json_def sample_lib_def)
  have "\<exists>r' w'. QueryConfig ?lib sample_client sample_param w = Some (r', w')" for w
  proof -
    obtain resp c' w' where d: "doRequest ?lib sample_client ''GET'' ''/v2/cs/config''
        [(''namespaceId'', NamespaceId (cfg sample_client)), (''tenant'', NamespaceId (cfg sample_client)), (''group'', Group sample_param),
         (''dataId'', DataId sample_param), (''tag'', Tag sample_param)] w = Some (Inr resp, c', w')" "Body resp = [[123], [125]]"
      using D by blast
    obtain b where "read_json ?lib ''query failed'' (lib_query ?lib) resp = Some b" using R [OF d(2)] by blast
    then show ?thesis by (simp add: QueryConfig_def d(1))
  qed
  note q = this
  obtain r1 w1 where q1: "QueryConfig ?lib sample_client sample_param [] = Some (r1, w1)" using q by blast
  obtain r2 w2 where q2: "QueryConfig ?lib sample_client sample_param w1 = Some (r2, w2)" using q by blast
  have Q: "query_all ?lib sample_client [sample_param, sample_param] [] = Some ([r1, r2], w2)"
    by (simp only: query_all.simps q1 q2 option.case prod.case option.map)
  have count: "count_logins (snd (lib_do ?lib rq w)) = count_logins w + (if rq = login_request (cfg sample_client) then 1 else 0)" for rq w
    by (simp add: count_logins_def sample_lib_def)
  have "count_logins w2 = count_logins [] + length [sample_param, sample_param]"
    by (rule QueryConfig_logs_in_every_time [OF stale Q count])
  then show ?thesis using Q by (auto simp: count_logins_def)
qed

text \<open>The check-and-set sum and the beta addresses of a publication are never sent.\<close>

lemma PublishConfig_ignores_CasMd5:
  "PublishConfig lib c (param\<lparr>CasMd5 := md5, BetaIps := ips\<rparr>) w = PublishConfig lib c param w"
  by (simp add: PublishConfig_def)

end
