(* ===== verification/Nacos_Watch.thy ===== *)
theory Nacos_Watch
  imports Nacos "HOL-Library.AList"
begin

unbundle bit_operations_syntax

text \<open>
  The watchdog of \<open>clients/nacos/client.go\<close>: registration of listeners under its read-write lock,
  polling with backoff, the two tickers. A watch item is what its pointer leads to; the callbacks
  of an item are a map, whose range order is the argument \<open>rng\<close>. A poll asks through
  \<open>QueryConfig\<close>; its answer and the time are passed on to the part under the lock.
\<close>

section \<open>Items and registration\<close>

record 'f watch_item =
  dataId :: string
  group_of :: string
  lastHash :: "string option"
  backoff :: int
  backoffStart :: int
  onChanges :: "(string \<times> 'f) list"

type_synonym 'f targets = "'f watch_item list"

definition matches :: "string \<Rightarrow> string \<Rightarrow> 'f watch_item \<Rightarrow> bool" where
  "matches d g t \<longleftrightarrow> dataId t = d \<and> group_of t = g"

definition add_callback :: "string \<Rightarrow> 'f \<Rightarrow> 'f watch_item \<Rightarrow> 'f watch_item" where
  "add_callback i f t = t\<lparr>onChanges := AList.update i f (onChanges t)\<rparr>"

text \<open>The scan both sections do: the first item of the key gets the callback.\<close>

fun register_scan :: "string \<Rightarrow> string \<Rightarrow> string \<Rightarrow> 'f \<Rightarrow> 'f targets \<Rightarrow> 'f targets option" where
  "register_scan d g i f [] = None"
| "register_scan d g i f (t # ts) =
     (if matches d g t then Some (add_callback i f t # ts)
      else map_option (Cons t) (register_scan d g i f ts))"

definition new_item :: "string \<Rightarrow> string \<Rightarrow> string \<Rightarrow> 'f \<Rightarrow> 'f watch_item" where
  "new_item d g i f = \<lparr>dataId = d, group_of = g, lastHash = None, backoff = 0, backoffStart = zero_time, onChanges = [(i, f)]\<rparr>"

definition register_slow :: "string \<Rightarrow> string \<Rightarrow> string \<Rightarrow> 'f \<Rightarrow> 'f targets \<Rightarrow> 'f targets" where
  "register_slow d g i f ts =
     (case register_scan d g i f ts of Some ts' \<Rightarrow> ts' | None \<Rightarrow> ts @ [new_item d g i f])"

definition Register :: "string \<Rightarrow> string \<Rightarrow> string \<Rightarrow> 'f \<Rightarrow> 'f targets \<Rightarrow> string \<times> 'f targets" where
  "Register i d g onChange ts =
     (i, case register_scan d g i onChange ts of Some ts' \<Rightarrow> ts' | None \<Rightarrow> register_slow d g i onChange ts)"

definition getWatchItems :: "'f targets \<Rightarrow> 'f targets" where
  "getWatchItems ts = ts"

section \<open>Polling\<close>

text \<open>\<open>2^8*time.Second\<close>: the circumflex is the bitwise exclusive or, and binds weaker than the star.\<close>

definition backoff_limit :: int where
  "backoff_limit = 2 XOR (8 * second)"

definition failed_answer :: "'x error + config_response \<Rightarrow> bool" where
  "failed_answer res = (case res of Inl err \<Rightarrow> True | Inr data \<Rightarrow> api_code data \<noteq> 0)"

definition back_off :: "int \<Rightarrow> 'f watch_item \<Rightarrow> 'f watch_item" where
  "back_off now t = t\<lparr>backoffStart := now,
     backoff := (if backoff t \<le> 0 then second
                 else if backoff t < backoff_limit then backoff t * 2 else backoff t)\<rparr>"

text \<open>The loop of \<open>queryItem\<close>: the new targets, and the index of the item that is returned.\<close>

fun answer_loop ::
  "'x error + config_response \<Rightarrow> int \<Rightarrow> string \<Rightarrow> string \<Rightarrow> 'f targets \<Rightarrow> 'f targets \<times> nat option" where
  "answer_loop res now d g [] = ([], None)"
| "answer_loop res now d g (t # ts) =
     (if matches d g t then
        (if failed_answer res then
           (case answer_loop res now d g ts of (ts', r) \<Rightarrow> (back_off now t # ts', map_option Suc r))
         else ((if backoff t > 0 then t\<lparr>backoff := 0\<rparr> else t) # ts, Some 0))
      else (case answer_loop res now d g ts of (ts', r) \<Rightarrow> (t # ts', map_option Suc r)))"

text \<open>\<open>queryItem\<close> with the answer of \<open>QueryConfig\<close>: the item and the data, or neither.\<close>

definition queryItem ::
  "'x error + config_response \<Rightarrow> int \<Rightarrow> string \<Rightarrow> string \<Rightarrow> 'f targets \<Rightarrow>
   'f targets \<times> (nat \<times> config_response) option" where
  "queryItem res now d g ts =
     (case answer_loop res now d g ts of (ts', r) \<Rightarrow>
        (ts', case (r, res) of (Some idx, Inr data) \<Rightarrow> Some (idx, data) | _ \<Rightarrow> None))"

text \<open>A call of a callback: its id, the function and what it is given.\<close>

type_synonym 'f call = "string \<times> 'f \<times> config_response"

definition runItemWatch ::
  "((string \<times> 'f) list \<Rightarrow> (string \<times> 'f) list) \<Rightarrow> 'x error + config_response \<Rightarrow> int \<Rightarrow> string \<Rightarrow> string \<Rightarrow>
   'f targets \<Rightarrow> 'f targets \<times> 'f call list \<times> config_response option" where
  "runItemWatch rng res now d g ts =
     (case queryItem res now d g ts of
        (ts, None) \<Rightarrow> (ts, [], None)
      | (ts, Some (idx, data)) \<Rightarrow>
          (case lastHash (ts ! idx) of
             None \<Rightarrow> (ts[idx := (ts ! idx)\<lparr>lastHash := Some (ContentMd5 data)\<rparr>], [], Some data)
           | Some h \<Rightarrow>
               if h \<noteq> ContentMd5 data then
                 (ts[idx := (ts ! idx)\<lparr>lastHash := Some (ContentMd5 data)\<rparr>],
                  map (\<lambda>(i, f). (i, f, data)) (rng (onChanges (ts ! idx))), Some data)
               else (ts, [], Some data)))"

text \<open>A poll with its query: \<open>None\<close> if the query does not return.\<close>

definition watch_param :: "string \<Rightarrow> string \<Rightarrow> config_param" where
  "watch_param d g = \<lparr>DataId = d, Group = g, Content = [], Tag = [], AppName = [], Desc = [], Effect = [],
     BetaIps = [], CasMd5 = [], param_Type = [], param_Schema = [], SrcUser = [], ConfigTags = []\<rparr>"

type_synonym ('w, 'x) asker = "string \<Rightarrow> string \<Rightarrow> 'w \<Rightarrow> (('x error + config_response) \<times> 'w) option"

definition ask_nacos :: "('w, 'r, 'x) nacos_lib \<Rightarrow> ('t, 'p) nacos_client \<Rightarrow> ('w, 'x) asker" where
  "ask_nacos lib c d g w = QueryConfig lib c (watch_param d g) w"

definition poll ::
  "((string \<times> 'f) list \<Rightarrow> (string \<times> 'f) list) \<Rightarrow> ('w, 'x) asker \<Rightarrow> ('w \<Rightarrow> int) \<Rightarrow> string \<Rightarrow> string \<Rightarrow> 'f targets \<Rightarrow> 'w \<Rightarrow>
   ('f targets \<times> 'f call list \<times> config_response option \<times> 'w) option" where
  "poll rng ask now d g ts w =
     (case ask d g w of
        None \<Rightarrow> None
      | Some (res, w) \<Rightarrow>
          (case runItemWatch rng res (now w) d g ts of (ts, calls, data) \<Rightarrow> Some (ts, calls, data, w)))"

definition ListenConfig ::
  "((string \<times> 'f) list \<Rightarrow> (string \<times> 'f) list) \<Rightarrow> ('w, 'x) asker \<Rightarrow> ('w \<Rightarrow> int) \<Rightarrow> string \<Rightarrow> string \<Rightarrow> string \<Rightarrow> 'f \<Rightarrow>
   'f targets \<Rightarrow> 'w \<Rightarrow> (string \<times> 'f targets \<times> 'f call list \<times> config_response option \<times> 'w) option" where
  "ListenConfig rng ask now i d g onChange ts w =
     (case Register i d g onChange ts of (listenId, ts) \<Rightarrow>
        map_option (\<lambda>(ts, calls, data, w). (listenId, ts, calls, data, w)) (poll rng ask now d g ts w))"

text \<open>
  One tick of \<open>loopWatch\<close>: the items of the snapshot, by index, are polled when they are due. The
  first ticker takes the healthy items, the second one those whose backoff is over.
\<close>

fun tick ::
  "('f watch_item \<Rightarrow> int \<Rightarrow> bool) \<Rightarrow> ((string \<times> 'f) list \<Rightarrow> (string \<times> 'f) list) \<Rightarrow> ('w, 'x) asker \<Rightarrow> ('w \<Rightarrow> int) \<Rightarrow>
   nat list \<Rightarrow> 'f targets \<Rightarrow> 'w \<Rightarrow> ('f targets \<times> 'f call list \<times> 'w) option" where
  "tick due rng ask now [] ts w = Some (ts, [], w)"
| "tick due rng ask now (idx # items) ts w =
     (if due (ts ! idx) (now w) then
        (case poll rng ask now (dataId (ts ! idx)) (group_of (ts ! idx)) ts w of
           None \<Rightarrow> None
         | Some (ts, calls, _, w) \<Rightarrow>
             map_option (\<lambda>(ts, calls', w). (ts, calls @ calls', w)) (tick due rng ask now items ts w))
      else tick due rng ask now items ts w)"

definition healthy :: "'f watch_item \<Rightarrow> int \<Rightarrow> bool" where
  "healthy item now = (backoff item \<le> 0)"

definition backoff_over :: "'f watch_item \<Rightarrow> int \<Rightarrow> bool" where
  "backoff_over item now = (backoff item > 0 \<and> now > backoffStart item + backoff item)"

definition ticker_step ::
  "((string \<times> 'f) list \<Rightarrow> (string \<times> 'f) list) \<Rightarrow> ('w, 'x) asker \<Rightarrow> ('w \<Rightarrow> int) \<Rightarrow> 'f targets \<Rightarrow> 'w \<Rightarrow>
   ('f targets \<times> 'f call list \<times> 'w) option" where
  "ticker_step rng ask now ts w = tick healthy rng ask now [0..<length (getWatchItems ts)] ts w"

definition backoff_ticker_step ::
  "((string \<times> 'f) list \<Rightarrow> (string \<times> 'f) list) \<Rightarrow> ('w, 'x) asker \<Rightarrow> ('w \<Rightarrow> int) \<Rightarrow> 'f targets \<Rightarrow> 'w \<Rightarrow>
   ('f targets \<times> 'f call list \<times> 'w) option" where
  "backoff_ticker_step rng ask now ts w = tick backoff_over rng ask now [0..<length (getWatchItems ts)] ts w"

section \<open>Registration under interleaving\<close>

text \<open>
  A goroutine that registers: before the section under the read lock, between the two sections, or
  after. Each section is one step.
\<close>

datatype 'f registrant =
    Starting string string string 'f
  | Between string string string 'f
  | Registered string string string 'f

inductive register_step :: "'f targets \<times> 'f registrant list \<Rightarrow> 'f targets \<times> 'f registrant list \<Rightarrow> bool" where
  fast_hit: "k < length gs \<Longrightarrow> gs ! k = Starting d g i f \<Longrightarrow> register_scan d g i f ts = Some ts' \<Longrightarrow>
    register_step (ts, gs) (ts', gs[k := Registered d g i f])"
| fast_miss: "k < length gs \<Longrightarrow> gs ! k = Starting d g i f \<Longrightarrow> register_scan d g i f ts = None \<Longrightarrow>
    register_step (ts, gs) (ts, gs[k := Between d g i f])"
| slow: "k < length gs \<Longrightarrow> gs ! k = Between d g i f \<Longrightarrow>
    register_step (ts, gs) (register_slow d g i f ts, gs[k := Registered d g i f])"

definition keys_distinct :: "'f targets \<Rightarrow> bool" where
  "keys_distinct ts \<longleftrightarrow> distinct (map (\<lambda>t. (dataId t, group_of t)) ts)"

definition listens :: "'f targets \<Rightarrow> string \<Rightarrow> string \<Rightarrow> string \<Rightarrow> 'f \<Rightarrow> bool" where
  "listens ts d g i f \<longleftrightarrow> (\<exists>t \<in> set ts. matches d g t \<and> map_of (onChanges t) i = Some f)"

lemma register_scan_None: "register_scan d g i f ts = None \<longleftrightarrow> (\<forall>t \<in> set ts. \<not> matches d g t)"
  by (induction ts) auto

lemma matches_add [simp]: "matches d g (add_callback i f t) = matches d g t"
  by (simp add: matches_def add_callback_def)

lemma register_scan_keys:
  "register_scan d g i f ts = Some ts' \<Longrightarrow> map (\<lambda>t. (dataId t, group_of t)) ts' = map (\<lambda>t. (dataId t, group_of t)) ts"
  by (induction ts arbitrary: ts') (auto simp: add_callback_def split: if_splits)

lemma register_scan_listens:
  assumes "register_scan d g i f ts = Some ts'" "keys_distinct ts"
  shows "listens ts' d g i f"
    and "listens ts d' g' i' f' \<Longrightarrow> (d', g', i') \<noteq> (d, g, i) \<Longrightarrow> listens ts' d' g' i' f'"
proof -
  show "listens ts' d g i f"
    using assms(1) by (induction ts arbitrary: ts')
      (auto simp: listens_def add_callback_def matches_def update_conv split: if_splits)
  show "listens ts' d' g' i' f'" if "listens ts d' g' i' f'" "(d', g', i') \<noteq> (d, g, i)"
    using that assms(1)
  proof (induction ts arbitrary: ts')
    case (Cons t ts)
    show ?case
    proof (cases "matches d g t")
      case True
      then show ?thesis
        using Cons.prems by (auto simp: listens_def add_callback_def matches_def update_conv)
    next
      case False
      then obtain us where us: "register_scan d g i f ts = Some us" "ts' = t # us"
        using Cons.prems(3) by auto
      show ?thesis
        using Cons.IH [OF _ Cons.prems(2) us(1)] Cons.prems(1) us(2) by (auto simp: listens_def)
    qed
  qed (simp add: listens_def)
qed

lemma register_slow_cases:
  "(\<exists>ts'. register_scan d g i f ts = Some ts' \<and> register_slow d g i f ts = ts') \<or>
   (\<forall>t \<in> set ts. \<not> matches d g t) \<and> register_slow d g i f ts = ts @ [new_item d g i f]"
proof (cases "register_scan d g i f ts")
  case None
  then show ?thesis using register_scan_None [of d g i f ts] by (simp add: register_slow_def)
qed (simp add: register_slow_def)

lemma register_slow_keys: "keys_distinct ts \<Longrightarrow> keys_distinct (register_slow d g i f ts)"
  using register_slow_cases [of d g i f ts]
  by (auto simp: keys_distinct_def matches_def new_item_def dest: register_scan_keys)

lemma register_slow_listens:
  assumes "keys_distinct ts"
  shows "listens (register_slow d g i f ts) d g i f"
    and "listens ts d' g' i' f' \<Longrightarrow> (d', g', i') \<noteq> (d, g, i) \<Longrightarrow> listens (register_slow d g i f ts) d' g' i' f'"
proof -
  consider ts' where "register_scan d g i f ts = Some ts'" "register_slow d g i f ts = ts'"
    | "register_slow d g i f ts = ts @ [new_item d g i f]"
    using register_slow_cases [of d g i f ts] by blast
  note C = this
  show "listens (register_slow d g i f ts) d g i f"
    using C by cases (auto simp: register_scan_listens(1) [OF _ assms], auto simp: listens_def matches_def new_item_def)
  show "listens (register_slow d g i f ts) d' g' i' f'" if "listens ts d' g' i' f'" "(d', g', i') \<noteq> (d, g, i)"
    using C
  proof cases
    case 1
    then show ?thesis using register_scan_listens(2) [OF 1(1) assms that] by simp
  next
    case 2
    then show ?thesis using that(1) by (auto simp: listens_def)
  qed
qed

fun uuid_of :: "'f registrant \<Rightarrow> string" where
  "uuid_of (Starting d g i f) = i"
| "uuid_of (Between d g i f) = i"
| "uuid_of (Registered d g i f) = i"

definition register_inv :: "'f targets \<times> 'f registrant list \<Rightarrow> bool" where
  "register_inv s \<longleftrightarrow> keys_distinct (fst s) \<and> distinct (map uuid_of (snd s)) \<and>
     (\<forall>d g i f. Registered d g i f \<in> set (snd s) \<longrightarrow> listens (fst s) d g i f)"

lemma register_inv_finish:
  assumes "register_inv (ts, gs)" "k < length gs" "uuid_of (gs ! k) = i" "keys_distinct ts'"
    and "listens ts' d g i f" "\<And>d' g' i' f'. listens ts d' g' i' f' \<Longrightarrow> (d', g', i') \<noteq> (d, g, i) \<Longrightarrow> listens ts' d' g' i' f'"
  shows "register_inv (ts', gs[k := Registered d g i f])"
proof -
  have dis: "distinct (map uuid_of gs)" using assms(1) by (simp add: register_inv_def)
  have "map uuid_of (gs[k := Registered d g i f]) = map uuid_of gs"
    using assms(2,3) by (metis list_update_id map_update uuid_of.simps(3) nth_map)
  moreover have "listens ts' d' g' i' f'" if mem: "Registered d' g' i' f' \<in> set (gs[k := Registered d g i f])" for d' g' i' f'
  proof -
    from mem obtain j where j: "j < length gs" "gs[k := Registered d g i f] ! j = Registered d' g' i' f'"
      by (metis in_set_conv_nth length_list_update)
    show ?thesis
    proof (cases "j = k")
      case True
      then show ?thesis using j assms(2,5) by simp
    next
      case False
      then have r: "gs ! j = Registered d' g' i' f'" using j by simp
      then have "i' \<noteq> i"
        using dis False j(1) assms(2,3) by (metis distinct_conv_nth length_map nth_map uuid_of.simps(3))
      moreover have "listens ts d' g' i' f'"
        using assms(1) r j(1) by (auto simp: register_inv_def) (metis nth_mem)
      ultimately show ?thesis using assms(6) by simp
    qed
  qed
  ultimately show ?thesis using dis assms(4) by (simp add: register_inv_def)
qed

lemma register_inv_step: "register_step s s' \<Longrightarrow> register_inv s \<Longrightarrow> register_inv s'"
proof (induction rule: register_step.induct)
  case (fast_hit k gs d g i f ts ts')
  have kd: "keys_distinct ts" using fast_hit.prems by (simp add: register_inv_def)
  show ?case
    by (rule register_inv_finish [OF fast_hit.prems fast_hit.hyps(1)])
      (use fast_hit.hyps kd register_scan_keys [OF fast_hit.hyps(3)] register_scan_listens [OF fast_hit.hyps(3) kd] in
        \<open>auto simp: keys_distinct_def\<close>)
next
  case (fast_miss k gs d g i f ts)
  have "map uuid_of (gs[k := Between d g i f]) = map uuid_of gs"
    using fast_miss.hyps by (metis list_update_id map_update uuid_of.simps(1,2))
  moreover have "Registered d' g' i' f' \<in> set gs" if "Registered d' g' i' f' \<in> set (gs[k := Between d g i f])" for d' g' i' f'
    using that set_update_subset_insert [of gs k "Between d g i f"] by auto
  ultimately show ?case using fast_miss.prems by (auto simp: register_inv_def)
next
  case (slow k gs d g i f ts)
  have kd: "keys_distinct ts" using slow.prems by (simp add: register_inv_def)
  show ?case
    by (rule register_inv_finish [OF slow.prems slow.hyps(1)])
      (use slow.hyps kd register_slow_keys register_slow_listens [OF kd] in auto)
qed



section \<open>What a poll does to its item\<close>

definition recover :: "'f watch_item \<Rightarrow> 'f watch_item" where
  "recover t = (if backoff t > 0 then t\<lparr>backoff := 0\<rparr> else t)"

lemma answer_loop_nomatch: "\<forall>t \<in> set ts. \<not> matches d g t \<Longrightarrow> answer_loop res now d g ts = (ts, None)"
  by (induction ts) auto

lemma keys_distinct_Cons:
  "keys_distinct (t # ts) \<longleftrightarrow> (\<forall>u \<in> set ts. \<not> matches (dataId t) (group_of t) u) \<and> keys_distinct ts"
  by (auto simp: keys_distinct_def matches_def image_iff)

lemma answer_loop_item:
  assumes "keys_distinct ts" "idx < length ts" "matches d g (ts ! idx)"
  shows "answer_loop res now d g ts =
    (ts[idx := (if failed_answer res then back_off now (ts ! idx) else recover (ts ! idx))],
     if failed_answer res then None else Some idx)"
  using assms
proof (induction ts arbitrary: idx)
  case (Cons t ts)
  show ?case
  proof (cases idx)
    case 0
    then have "\<forall>u \<in> set ts. \<not> matches d g u"
      using Cons.prems by (auto simp: keys_distinct_Cons matches_def)
    then show ?thesis using 0 Cons.prems(3) by (simp add: answer_loop_nomatch recover_def)
  next
    case (Suc k)
    then have "k < length ts" "matches d g (ts ! k)" using Cons.prems by auto
    then have "\<not> matches d g t"
      using Cons.prems(1) by (auto simp: keys_distinct_Cons matches_def dest: nth_mem)
    then show ?thesis
      using Cons.IH [of k] Cons.prems Suc by (simp add: keys_distinct_Cons)
  qed
qed simp

definition seen :: "config_response \<Rightarrow> 'f watch_item \<Rightarrow> 'f watch_item" where
  "seen data t = (recover t)\<lparr>lastHash := Some (ContentMd5 data)\<rparr>"

definition notified :: "((string \<times> 'f) list \<Rightarrow> (string \<times> 'f) list) \<Rightarrow> config_response \<Rightarrow> 'f watch_item \<Rightarrow> 'f call list" where
  "notified rng data t =
     (if lastHash t = None \<or> lastHash t = Some (ContentMd5 data) then []
      else map (\<lambda>(i, f). (i, f, data)) (rng (onChanges t)))"

lemma recover_fields [simp]:
  "dataId (recover t) = dataId t" "group_of (recover t) = group_of t" "lastHash (recover t) = lastHash t"
  "onChanges (recover t) = onChanges t"
  by (simp_all add: recover_def)

lemma back_off_fields [simp]:
  "dataId (back_off now t) = dataId t" "group_of (back_off now t) = group_of t"
  "lastHash (back_off now t) = lastHash t" "onChanges (back_off now t) = onChanges t"
  by (simp_all add: back_off_def)

lemma seen_fields [simp]:
  "dataId (seen data t) = dataId t" "group_of (seen data t) = group_of t"
  "lastHash (seen data t) = Some (ContentMd5 data)" "onChanges (seen data t) = onChanges t"
  "backoff (seen data t) = backoff (recover t)"
  by (simp_all add: seen_def)

lemma runItemWatch_failed:
  assumes "keys_distinct ts" "idx < length ts" "matches d g (ts ! idx)" "failed_answer res"
  shows "runItemWatch rng res now d g ts = (ts[idx := back_off now (ts ! idx)], [], None)"
  using assms(4) by (simp add: runItemWatch_def queryItem_def answer_loop_item [OF assms(1-3)])

lemma runItemWatch_success:
  assumes "keys_distinct ts" "idx < length ts" "matches d g (ts ! idx)" "res = Inr data" "api_code data = 0"
  shows "runItemWatch rng res now d g ts = (ts[idx := seen data (ts ! idx)], notified rng data (ts ! idx), Some data)"
proof -
  let ?t = "ts ! idx"
  have ok: "\<not> failed_answer res" using assms(4,5) by (simp add: failed_answer_def)
  then have q: "queryItem res now d g ts = (ts[idx := recover ?t], Some (idx, data))"
    using assms(4) by (simp add: queryItem_def answer_loop_item [OF assms(1-3)])
  have idem: "(recover ?t)\<lparr>lastHash := Some h\<rparr> = recover ?t" if "lastHash ?t = Some h" for h
    using that by (simp add: recover_def)
  show ?thesis
    using assms(2) by (auto simp: runItemWatch_def q seen_def notified_def idem split: option.split)
qed

lemma keys_distinct_update:
  assumes "keys_distinct ts" "idx < length ts" "dataId t = dataId (ts ! idx)" "group_of t = group_of (ts ! idx)"
  shows "keys_distinct (ts[idx := t])"
proof -
  have "map (\<lambda>t. (dataId t, group_of t)) (ts[idx := t]) = map (\<lambda>t. (dataId t, group_of t)) ts"
    using assms(2-4) by (metis (mono_tags, lifting) list_update_id map_update nth_map)
  with assms(1) show ?thesis by (simp add: keys_distinct_def)
qed

text \<open>A sequence of answers to the polls of one item.\<close>

fun run_answers ::
  "((string \<times> 'f) list \<Rightarrow> (string \<times> 'f) list) \<Rightarrow> string \<Rightarrow> string \<Rightarrow> (('x error + config_response) \<times> int) list \<Rightarrow>
   'f targets \<Rightarrow> 'f targets \<times> 'f call list" where
  "run_answers rng d g [] ts = (ts, [])"
| "run_answers rng d g ((res, now) # as) ts =
     (case runItemWatch rng res now d g ts of (ts, calls, _) \<Rightarrow>
        (case run_answers rng d g as ts of (ts, calls') \<Rightarrow> (ts, calls @ calls')))"

text \<open>The reference: the successful answers, and those whose checksum is not the one before.\<close>

fun successes :: "(('x error + config_response) \<times> int) list \<Rightarrow> config_response list" where
  "successes [] = []"
| "successes ((res, now) # as) =
     (case res of Inl err \<Rightarrow> successes as | Inr data \<Rightarrow> if api_code data = 0 then data # successes as else successes as)"

fun changed :: "string option \<Rightarrow> config_response list \<Rightarrow> config_response list" where
  "changed h [] = []"
| "changed h (data # ds) =
     (if h = None \<or> h = Some (ContentMd5 data) then changed (Some (ContentMd5 data)) ds
      else data # changed (Some (ContentMd5 data)) ds)"

lemma answer_cases:
  obtains (failed) "failed_answer res" "successes ((res, now) # as) = successes as"
  | (success) data where "res = Inr data" "api_code data = 0" "successes ((res, now) # as) = data # successes as"
  by (cases res) (auto simp: failed_answer_def)

lemma run_answers_notify:
  assumes "keys_distinct ts" "idx < length ts" "matches d g (ts ! idx)"
  shows "snd (run_answers rng d g as ts) =
    concat (map (\<lambda>data. map (\<lambda>(i, f). (i, f, data)) (rng (onChanges (ts ! idx)))) (changed (lastHash (ts ! idx)) (successes as)))"
  using assms
proof (induction as arbitrary: ts)
  case (Cons a as)
  obtain res now where a: "a = (res, now)" by (cases a)
  let ?t = "ts ! idx"
  show ?case
  proof (cases rule: answer_cases [of res now as])
    case failed
    let ?ts = "ts[idx := back_off now ?t]"
    have "keys_distinct ?ts" using Cons.prems by (simp add: keys_distinct_update)
    moreover have "matches d g (?ts ! idx)" using Cons.prems by (simp add: matches_def)
    ultimately have "snd (run_answers rng d g as ?ts) =
        concat (map (\<lambda>data. map (\<lambda>(i, f). (i, f, data)) (rng (onChanges ?t))) (changed (lastHash ?t) (successes as)))"
      using Cons.IH [of ?ts] Cons.prems(2) by simp
    then show ?thesis
      by (cases "run_answers rng d g as ?ts")
        (simp add: a runItemWatch_failed [OF Cons.prems failed(1)] failed(2) del: successes.simps)
  next
    case (success data)
    let ?ts = "ts[idx := seen data ?t]"
    have "keys_distinct ?ts" using Cons.prems by (simp add: keys_distinct_update)
    moreover have "matches d g (?ts ! idx)" using Cons.prems by (simp add: matches_def)
    ultimately have "snd (run_answers rng d g as ?ts) =
        concat (map (\<lambda>data. map (\<lambda>(i, f). (i, f, data)) (rng (onChanges ?t))) (changed (Some (ContentMd5 data)) (successes as)))"
      using Cons.IH [of ?ts] Cons.prems(2) by simp
    then show ?thesis
      by (cases "run_answers rng d g as ?ts")
        (simp add: a runItemWatch_success [OF Cons.prems success(1,2)] success(3) notified_def del: successes.simps)
  qed
qed simp

text \<open>
  C13: Over any sequence of answers, failures included, the listeners of an item are called exactly
  for the successful answers whose checksum differs from the successful one before, in order; the
  first success calls nobody.
\<close>

theorem Watch_notifies_changes:
  assumes "keys_distinct ts" "idx < length ts" "matches d g (ts ! idx)"
  shows "snd (run_answers rng d g as ts) =
    concat (map (\<lambda>data. map (\<lambda>(i, f). (i, f, data)) (rng (onChanges (ts ! idx)))) (changed (lastHash (ts ! idx)) (successes as)))"
  by (rule run_answers_notify [OF assms])

definition sample_answer :: "string \<Rightarrow> unit error + config_response" where
  "sample_answer h = Inr \<lparr>api_error = [], api_message = [], api_code = 0, api_data = h, ContentMd5 = h, ConfigType = []\<rparr>"

theorem Watch_notifies_changes_witness:
  "snd (run_answers (\<lambda>m. m) ''d'' ''g'' [(sample_answer ''1'', 0), (sample_answer ''1'', 5), (Inl (Foreign ()), 10), (sample_answer ''2'', 15)]
     [new_item ''d'' ''g'' ''id'' ()]) = [(''id'', (), projr (sample_answer ''2''))]"
  using Watch_notifies_changes [of "[new_item ''d'' ''g'' ''id'' ()]" 0 "''d''" "''g''" "\<lambda>m. m"
      "[(sample_answer ''1'', 0), (sample_answer ''1'', 5), (Inl (Foreign ()), 10), (sample_answer ''2'', 15)]"]
  by (simp add: keys_distinct_def new_item_def matches_def sample_answer_def)

section \<open>Backoff\<close>

text \<open>The backoff after \<open>n\<close> failures in a row.\<close>

definition ladder :: "nat \<Rightarrow> int" where
  "ladder n = (if n = 0 then 0 else min (2 ^ (n - 1)) 16 * second)"

definition next_backoff :: "int \<Rightarrow> int" where
  "next_backoff b = (if b \<le> 0 then second else if b < backoff_limit then b * 2 else b)"

lemma backoff_back_off: "backoff (back_off now t) = next_backoff (backoff t)"
  by (simp add: back_off_def next_backoff_def)

lemma backoff_limit_val: "backoff_limit = 8 * second + 2"
  unfolding backoff_limit_def second_def by simp

lemma ladder_bounds: "0 \<le> ladder n" "ladder n \<le> 16 * second"
  by (simp_all add: ladder_def second_def)

lemma ladder_step: "next_backoff (ladder n) = ladder (Suc n)"
proof (cases "n \<le> 4")
  case True
  then consider "n = 0" | "n = 1" | "n = 2" | "n = 3" | "n = 4" by linarith
  then show ?thesis by cases (auto simp: ladder_def next_backoff_def min_def second_def backoff_limit_val)
next
  case False
  then have "(16 :: int) \<le> 2 ^ (n - 1)" "(16 :: int) \<le> 2 ^ n"
    using power_increasing [of 4 "n - 1" "2 :: int"] power_increasing [of 4 n "2 :: int"] by simp_all
  then have "ladder n = 16 * second" "ladder (Suc n) = 16 * second"
    using False by (auto simp: ladder_def min_def)
  then show ?thesis by (simp add: next_backoff_def backoff_limit_val second_def)
qed

definition failures_in_row :: "(('x error + config_response) \<times> int) list \<Rightarrow> nat" where
  "failures_in_row as = length (takeWhile (\<lambda>(res, now). failed_answer res) (rev as))"

lemma run_answers_append:
  "run_answers rng d g (as @ bs) ts =
    (case run_answers rng d g as ts of (ts, calls) \<Rightarrow>
      (case run_answers rng d g bs ts of (ts, calls') \<Rightarrow> (ts, calls @ calls')))"
  by (induction as arbitrary: ts) (auto split: prod.split)

lemma run_answers_frame:
  assumes "keys_distinct ts" "idx < length ts" "matches d g (ts ! idx)"
  shows "keys_distinct (fst (run_answers rng d g as ts)) \<and> length (fst (run_answers rng d g as ts)) = length ts \<and>
    matches d g (fst (run_answers rng d g as ts) ! idx)"
  using assms
proof (induction as arbitrary: ts)
  case (Cons a as)
  obtain res now where a: "a = (res, now)" by (cases a)
  let ?t = "ts ! idx"
  obtain t' calls data where r: "runItemWatch rng res now d g ts = (ts[idx := t'], calls, data)"
    "dataId t' = dataId ?t" "group_of t' = group_of ?t"
  proof (cases rule: answer_cases [of res now as])
    case failed
    show ?thesis by (rule that [OF runItemWatch_failed [OF Cons.prems failed(1)]]) simp_all
  next
    case (success data)
    show ?thesis by (rule that [OF runItemWatch_success [OF Cons.prems success(1,2)]]) simp_all
  qed
  have "keys_distinct (ts[idx := t'])" "matches d g (ts[idx := t'] ! idx)"
    using Cons.prems r by (auto simp: keys_distinct_update matches_def)
  with Cons.IH [of "ts[idx := t']"] Cons.prems(2) show ?case
    by (cases "run_answers rng d g as (ts[idx := t'])") (simp add: a r)
qed simp

text \<open>
  C14: The backoff of an item depends only on the failures since its last success: 1, 2, 4, 8 and
  then 16 seconds, never the 256 seconds of the limit that the code spells \<open>2^8*time.Second\<close>.
\<close>

theorem Watch_backoff_ladder:
  assumes "keys_distinct ts" "idx < length ts" "matches d g (ts ! idx)" "backoff (ts ! idx) = 0"
  shows "backoff (fst (run_answers rng d g as ts) ! idx) = ladder (failures_in_row as) \<and>
    ladder (failures_in_row as) \<le> 16 * second"
proof
  show "backoff (fst (run_answers rng d g as ts) ! idx) = ladder (failures_in_row as)"
  proof (induction as rule: rev_induct)
    case Nil
    then show ?case using assms(4) by (simp add: failures_in_row_def ladder_def)
  next
    case (snoc a as)
    obtain res now where a: "a = (res, now)" by (cases a)
    obtain ts1 calls where r1: "run_answers rng d g as ts = (ts1, calls)" by (cases "run_answers rng d g as ts")
    have F: "keys_distinct ts1" "idx < length ts1" "matches d g (ts1 ! idx)"
      using run_answers_frame [OF assms(1-3), of rng as] assms(2) by (simp_all add: r1)
    have IH: "backoff (ts1 ! idx) = ladder (failures_in_row as)" using snoc.IH by (simp add: r1)
    show ?case
    proof (cases rule: answer_cases [of res now as])
      case failed
      then have "failures_in_row (as @ [a]) = Suc (failures_in_row as)" by (simp add: a failures_in_row_def)
      then show ?thesis
        using F(2)
        by (simp add: a r1 run_answers_append runItemWatch_failed [OF F failed(1)] backoff_back_off IH ladder_step)
    next
      case (success data)
      then have "\<not> failed_answer res" by (simp add: failed_answer_def)
      then have "failures_in_row (as @ [a]) = 0" by (simp add: a failures_in_row_def)
      then show ?thesis
        using F(2) ladder_bounds(1) [of "failures_in_row as"]
        by (simp add: a r1 run_answers_append runItemWatch_success [OF F success(1,2)] recover_def IH ladder_def)
    qed
  qed
  show "ladder (failures_in_row as) \<le> 16 * second"
    by (rule ladder_bounds)
qed

theorem Watch_backoff_ladder_witness:
  "backoff (fst (run_answers (\<lambda>m. m) ''d'' ''g'' (replicate 9 (Inl (Foreign ()), 0)) [new_item ''d'' ''g'' ''id'' ()]) ! 0) = 16 * second"
proof -
  have "failures_in_row (replicate 9 (Inl (Foreign ()) :: unit error + config_response, 0)) = Suc 8"
    by (simp add: failures_in_row_def failed_answer_def)
  then show ?thesis
    using Watch_backoff_ladder [of "[new_item ''d'' ''g'' ''id'' ()]" 0 "''d''" "''g''" "\<lambda>m. m" "replicate 9 (Inl (Foreign ()), 0)"]
    by (simp add: keys_distinct_def new_item_def matches_def ladder_def)
qed

section \<open>Ticks\<close>

lemma poll_one_item:
  assumes "keys_distinct ts" "idx < length ts" "matches d g (ts ! idx)" "poll rng ask now d g ts w = Some (ts', calls, data, w')"
  shows "(\<exists>t. ts' = ts[idx := t] \<and> dataId t = dataId (ts ! idx) \<and> group_of t = group_of (ts ! idx)) \<and> (\<exists>r. ask d g w = Some (r, w'))"
proof -
  obtain res w1 where r: "ask d g w = Some (res, w1)" "runItemWatch rng res (now w1) d g ts = (ts', calls, data)" "w' = w1"
    using assms(4) by (auto simp: poll_def split: option.splits prod.splits)
  show ?thesis
  proof (cases rule: answer_cases [of res "now w1" "[]"])
    case failed
    then show ?thesis using runItemWatch_failed [OF assms(1-3) failed(1), of rng "now w1"] r
      by (auto intro!: exI [of _ "back_off (now w1) (ts ! idx)"])
  next
    case (success data')
    then show ?thesis using runItemWatch_success [OF assms(1-3) success(1,2), of rng "now w1"] r
      by (auto intro!: exI [of _ "seen data' (ts ! idx)"])
  qed
qed

text \<open>Ticks return when every query does.\<close>

lemma poll_returns:
  assumes "ask d g w \<noteq> None" shows "poll rng ask now d g ts w \<noteq> None"
proof -
  obtain res w' where "ask d g w = Some (res, w')" using assms by auto
  then show ?thesis by (simp add: poll_def split: prod.split)
qed

lemma tick_returns:
  assumes "\<And>d g w. ask d g w \<noteq> None"
  shows "tick due rng ask now items ts w \<noteq> None"
proof (induction items arbitrary: ts w)
  case (Cons i items)
  show ?case
  proof (cases "due (ts ! i) (now w)")
    case True
    obtain ts' calls data w' where p: "poll rng ask now (dataId (ts ! i)) (group_of (ts ! i)) ts w = Some (ts', calls, data, w')"
      using poll_returns [of ask _ _ w rng now ts] assms by (metis not_Some_eq prod_cases4)
    show ?thesis using Cons.IH [of ts' w'] True by (simp add: p)
  qed (use Cons.IH [of ts w] in simp)
qed simp

lemma tick_asks:
  assumes "tick due rng ask now items ts1 w = Some (ts', calls, w')"
    and "keys_distinct ts1" "length ts1 = length ts" "distinct items" "\<forall>i \<in> set items. i < length ts \<and> ts1 ! i = ts ! i"
    and "\<And>i w. i < length ts \<Longrightarrow> due (ts ! i) (now w) = D i"
    and "\<And>d g w r w'. ask d g w = Some (r, w') \<Longrightarrow> asked w' = asked w @ [(d, g)]"
  shows "asked w' = asked w @ map (\<lambda>i. (dataId (ts ! i), group_of (ts ! i))) (filter D items)"
  using assms(1-5)
proof (induction items arbitrary: ts1 w calls)
  case (Cons i items)
  have i: "i < length ts1" "ts1 ! i = ts ! i" "due (ts1 ! i) (now w) = D i"
    using Cons.prems(3,5) assms(6) [of i w] by auto
  show ?case
  proof (cases "D i")
    case False
    then have "tick due rng ask now items ts1 w = Some (ts', calls, w')" using Cons.prems(1) i(3) by simp
    from Cons.IH [OF this Cons.prems(2,3)] False Cons.prems(4,5) show ?thesis by simp
  next
    case True
    let ?d = "dataId (ts ! i)" and ?g = "group_of (ts ! i)"
    obtain ts2 c2 data w2 where p: "poll rng ask now ?d ?g ts1 w = Some (ts2, c2, data, w2)"
      using Cons.prems(1) i True by (cases "poll rng ask now ?d ?g ts1 w") auto
    then obtain c3 where t: "tick due rng ask now items ts2 w2 = Some (ts', c3, w')"
      using Cons.prems(1) i True by auto
    have "matches ?d ?g (ts1 ! i)" by (simp add: i matches_def)
    from poll_one_item [OF Cons.prems(2) i(1) this p] obtain u r where
      u: "ts2 = ts1[i := u]" "dataId u = dataId (ts1 ! i)" "group_of u = group_of (ts1 ! i)" "ask ?d ?g w = Some (r, w2)"
      by blast
    have "keys_distinct ts2" "length ts2 = length ts" "\<forall>j \<in> set items. j < length ts \<and> ts2 ! j = ts ! j"
      using u Cons.prems(2-5) i(1) by (auto simp: keys_distinct_update nth_list_update)
    from Cons.IH [OF t this(1,2) _ this(3)] Cons.prems(4) True assms(7) [OF u(4)] show ?thesis by simp
  qed
qed simp

text \<open>
  C15: A tick of the first ticker polls every healthy item once and no other; a tick of the second one
  at time \<open>n\<close> polls every item whose backoff is over once and no other.
\<close>

theorem Ticks_poll_due_items:
  assumes "keys_distinct ts" "\<And>d g w r w'. ask d g w = Some (r, w') \<Longrightarrow> asked w' = asked w @ [(d, g)]"
  shows "(ticker_step rng ask now ts w = Some (ts1, calls1, w1) \<longrightarrow>
      asked w1 = asked w @ map (\<lambda>t. (dataId t, group_of t)) (filter (\<lambda>t. backoff t \<le> 0) ts)) \<and>
    (backoff_ticker_step rng ask (\<lambda>_. n) ts w = Some (ts2, calls2, w2) \<longrightarrow>
      asked w2 = asked w @ map (\<lambda>t. (dataId t, group_of t)) (filter (\<lambda>t. backoff t > 0 \<and> n > backoffStart t + backoff t) ts))"
proof -
  have sel: "map (\<lambda>i. (dataId (ts ! i), group_of (ts ! i))) (filter (\<lambda>i. P (ts ! i)) [0..<length ts]) =
      map (\<lambda>t. (dataId t, group_of t)) (filter P ts)" for P
  proof -
    have "filter P ts = map ((!) ts) (filter (\<lambda>i. P (ts ! i)) [0..<length ts])"
      by (metis (no_types, lifting) comp_def filter_cong filter_map map_nth)
    then show ?thesis by simp
  qed
  have "asked w1 = asked w @ map (\<lambda>t. (dataId t, group_of t)) (filter (\<lambda>t. backoff t \<le> 0) ts)"
    if "ticker_step rng ask now ts w = Some (ts1, calls1, w1)"
    using tick_asks [OF that [unfolded ticker_step_def getWatchItems_def] assms(1) refl _ _ _ assms(2),
        of "\<lambda>i. backoff (ts ! i) \<le> 0"] sel [of "\<lambda>t. backoff t \<le> 0"] by (simp add: healthy_def)
  moreover have "asked w2 = asked w @ map (\<lambda>t. (dataId t, group_of t)) (filter (\<lambda>t. backoff t > 0 \<and> n > backoffStart t + backoff t) ts)"
    if "backoff_ticker_step rng ask (\<lambda>_. n) ts w = Some (ts2, calls2, w2)"
    using tick_asks [OF that [unfolded backoff_ticker_step_def getWatchItems_def] assms(1) refl _ _ _ assms(2),
        of "\<lambda>i. backoff (ts ! i) > 0 \<and> n > backoffStart (ts ! i) + backoff (ts ! i)"]
      sel [of "\<lambda>t. backoff t > 0 \<and> n > backoffStart t + backoff t"] by (simp add: backoff_over_def)
  ultimately show ?thesis by blast
qed

definition sample_asker :: "((string \<times> string) list, unit) asker" where
  "sample_asker d g w = Some (sample_answer ''1'', w @ [(d, g)])"

definition sample_targets :: "unit targets" where
  "sample_targets = [new_item ''a'' ''g'' ''1'' (), back_off 0 (new_item ''b'' ''g'' ''2'' ())]"

theorem Ticks_poll_due_items_witness:
  "map_option (\<lambda>(ts, calls, w). w) (ticker_step (\<lambda>m. m) sample_asker (\<lambda>_. 7) sample_targets []) = Some [(''a'', ''g'')] \<and>
   map_option (\<lambda>(ts, calls, w). w) (backoff_ticker_step (\<lambda>m. m) sample_asker (\<lambda>_. 2 * second) sample_targets []) = Some [(''b'', ''g'')]"
proof -
  let ?T = "ticker_step (\<lambda>m. m) sample_asker (\<lambda>_. 7) sample_targets []"
  let ?B = "backoff_ticker_step (\<lambda>m. m) sample_asker (\<lambda>_. 2 * second) sample_targets []"
  have kd: "keys_distinct sample_targets" by (simp add: keys_distinct_def sample_targets_def new_item_def)
  have ask: "id w' = id w @ [(d, g)]" if "sample_asker d g w = Some (r, w')" for d g w r w'
    using that by (simp add: sample_asker_def)
  have tick: "tick due rng sample_asker now items ts w \<noteq> None"
    for due and rng :: "(string \<times> unit) list \<Rightarrow> (string \<times> unit) list" and now items ts w
    by (rule tick_returns) (simp add: sample_asker_def)
  obtain t1 c1 w1 t2 c2 w2 where R: "?T = Some (t1, c1, w1)" "?B = Some (t2, c2, w2)"
    using tick unfolding ticker_step_def backoff_ticker_step_def by (metis not_Some_eq prod.exhaust)
  show ?thesis
    using Ticks_poll_due_items [where ts = sample_targets and ask = sample_asker and asked = id and rng = "\<lambda>m. m" and
        now = "\<lambda>_. 7" and w = "[]" and n = "2 * second" and ?ts1.0 = t1 and ?calls1.0 = c1 and ?w1.0 = w1 and
        ?ts2.0 = t2 and ?calls2.0 = c2 and ?w2.0 = w2, OF kd ask] R
    by (simp add: sample_targets_def new_item_def back_off_def second_def)
qed

end
