(* ===== verification/Nacos_Loop.thy ===== *)
theory Nacos_Loop
  imports Nacos_Watch
begin

text \<open>
  \<open>loopWatch\<close> of \<open>clients/nacos/client.go\<close> together with the listeners that come while it runs: a life of the
  watchdog is a sequence of ticks and of calls of \<open>ListenConfig\<close>. The loop has no way out: it does not look at
  its context.
\<close>

datatype 'f watch_event = Tick | Backoff_tick | Listen string string string 'f

text \<open>One event; the calls of listeners it makes come with the state after it.\<close>

definition watch_event ::
  "((string \<times> 'f) list \<Rightarrow> (string \<times> 'f) list) \<Rightarrow> ('w, 'x) asker \<Rightarrow> ('w \<Rightarrow> int) \<Rightarrow> 'f watch_event \<Rightarrow> 'f targets \<Rightarrow> 'w \<Rightarrow>
   ('f targets \<times> 'f call list \<times> 'w) option" where
  "watch_event rng ask now e ts w = (case e of
     Tick \<Rightarrow> ticker_step rng ask now ts w
   | Backoff_tick \<Rightarrow> backoff_ticker_step rng ask now ts w
   | Listen i d g f \<Rightarrow> map_option (\<lambda>(i, ts, calls, data, w). (ts, calls, w)) (ListenConfig rng ask now i d g f ts w))"

fun loopWatch ::
  "((string \<times> 'f) list \<Rightarrow> (string \<times> 'f) list) \<Rightarrow> ('w, 'x) asker \<Rightarrow> ('w \<Rightarrow> int) \<Rightarrow> 'f watch_event list \<Rightarrow> 'f targets \<Rightarrow> 'w \<Rightarrow>
   ('f targets \<times> 'f call list \<times> 'w) option" where
  "loopWatch rng ask now [] ts w = Some (ts, [], w)"
| "loopWatch rng ask now (e # es) ts w =
     (case watch_event rng ask now e ts w of
        None \<Rightarrow> None
      | Some (ts, calls, w) \<Rightarrow> map_option (\<lambda>(ts, calls', w). (ts, calls @ calls', w)) (loopWatch rng ask now es ts w))"

section \<open>The invariant of the watchdog\<close>

definition item_ok :: "'f watch_item \<Rightarrow> bool" where
  "item_ok t \<longleftrightarrow> (\<exists>n. backoff t = ladder n)"

definition watch_inv :: "'f targets \<Rightarrow> bool" where
  "watch_inv ts \<longleftrightarrow> keys_distinct ts \<and> (\<forall>t \<in> set ts. item_ok t)"

text \<open>What no poll changes: the keys and the listeners.\<close>

definition listeners :: "'f targets \<Rightarrow> (string \<times> string \<times> (string \<times> 'f) list) list" where
  "listeners ts = map (\<lambda>t. (dataId t, group_of t, onChanges t)) ts"

lemma length_listeners: "length (listeners ts) = length ts"
  by (simp add: listeners_def)

lemma item_ok_steps [intro]: "item_ok t \<Longrightarrow> item_ok (back_off now t)" "item_ok t \<Longrightarrow> item_ok (seen data t)"
  "item_ok (new_item d g i f)" "item_ok t \<Longrightarrow> item_ok (add_callback i f t)"
proof -
  have zero: "\<exists>n. (0 :: int) = ladder n" by (rule exI [of _ 0]) (simp add: ladder_def)
  then show "item_ok (new_item d g i f)" by (simp add: item_ok_def new_item_def)
  show "item_ok t \<Longrightarrow> item_ok (back_off now t)"
    by (auto simp: item_ok_def backoff_back_off ladder_step)
  show "item_ok t \<Longrightarrow> item_ok (seen data t)"
    using zero by (auto simp: item_ok_def seen_def recover_def)
  show "item_ok t \<Longrightarrow> item_ok (add_callback i f t)" by (simp add: item_ok_def add_callback_def)
qed

lemma onChanges_kept: "onChanges (back_off now t) = onChanges t" "onChanges (seen data t) = onChanges t"
  by (simp_all add: back_off_def seen_def)

lemma poll_keeps:
  assumes "watch_inv ts" "idx < length ts" "matches d g (ts ! idx)" "poll rng ask now d g ts w = Some (ts', calls, data, w')"
  shows "watch_inv ts' \<and> listeners ts' = listeners ts"
proof -
  have kd: "keys_distinct ts" and ok: "item_ok (ts ! idx)" using assms(1,2) by (simp_all add: watch_inv_def)
  obtain res w1 where r: "ask d g w = Some (res, w1)" "runItemWatch rng res (now w1) d g ts = (ts', calls, data)"
    using assms(4) by (auto simp: poll_def split: option.splits prod.splits)
  obtain t where t: "ts' = ts[idx := t]" "item_ok t" "dataId t = dataId (ts ! idx)" "group_of t = group_of (ts ! idx)"
      "onChanges t = onChanges (ts ! idx)"
  proof (cases rule: answer_cases [of res "now w1" "[]"])
    case failed
    show ?thesis
      by (rule that [of "back_off (now w1) (ts ! idx)"])
        (use runItemWatch_failed [OF kd assms(2,3) failed(1), of rng "now w1"] r ok in \<open>simp_all add: onChanges_kept item_ok_steps\<close>)
  next
    case (success data')
    show ?thesis
      by (rule that [of "seen data' (ts ! idx)"])
        (use runItemWatch_success [OF kd assms(2,3) success(1,2), of rng "now w1"] r ok in \<open>simp_all add: onChanges_kept item_ok_steps\<close>)
  qed
  have "listeners ts' = listeners ts"
    unfolding listeners_def t(1) using assms(2) t(3-5) by (intro nth_equalityI) (auto simp: nth_list_update)
  moreover have "watch_inv ts'"
    using assms(1,2) t keys_distinct_update [OF kd assms(2) t(3,4)] set_update_subset_insert [of ts idx t]
    by (auto simp: watch_inv_def)
  ultimately show ?thesis by simp
qed

lemma tick_keeps:
  assumes "tick due rng ask now items ts w = Some (ts', calls, w')" "watch_inv ts" "\<forall>i \<in> set items. i < length ts"
  shows "watch_inv ts' \<and> listeners ts' = listeners ts"
  using assms
proof (induction items arbitrary: ts w calls)
  case (Cons i items)
  show ?case
  proof (cases "due (ts ! i) (now w)")
    case True
    obtain ts1 c1 data w1 where p: "poll rng ask now (dataId (ts ! i)) (group_of (ts ! i)) ts w = Some (ts1, c1, data, w1)"
      using Cons.prems(1) True by (cases "poll rng ask now (dataId (ts ! i)) (group_of (ts ! i)) ts w") auto
    then obtain c2 where t: "tick due rng ask now items ts1 w1 = Some (ts', c2, w')" using Cons.prems(1) True by auto
    have k: "watch_inv ts1 \<and> listeners ts1 = listeners ts"
      by (rule poll_keeps [OF Cons.prems(2) _ _ p, of i]) (use Cons.prems(3) in \<open>simp_all add: matches_def\<close>)
    then have "length ts1 = length ts" using arg_cong [of _ _ length] length_listeners by metis
    with Cons.IH [OF t] k Cons.prems(3) show ?thesis by simp
  qed (use Cons in simp)
qed simp

lemma listens_listeners: "listens ts d g i f \<longleftrightarrow> (\<exists>m. (d, g, m) \<in> set (listeners ts) \<and> map_of m i = Some f)"
  by (auto simp: listens_def listeners_def matches_def image_iff)

lemma Register_slow: "snd (Register i d g f ts) = register_slow d g i f ts"
  by (simp add: Register_def register_slow_def split: option.split)

lemma watch_inv_register: "watch_inv ts \<Longrightarrow> watch_inv (register_slow d g i f ts)"
proof -
  assume inv: "watch_inv ts"
  have "\<forall>t \<in> set ts'. item_ok t" if "register_scan d g i f ts = Some ts'" "\<forall>t \<in> set ts. item_ok t" for ts'
    using that by (induction ts arbitrary: ts') (auto split: if_splits)
  then show ?thesis
    using inv register_slow_cases [of d g i f ts] register_slow_keys [of ts d g i f] by (auto simp: watch_inv_def)
qed

lemma register_slow_has: "\<exists>idx < length (register_slow d g i f ts). matches d g (register_slow d g i f ts ! idx)"
proof -
  have "\<exists>t \<in> set ts'. matches d g t" if "register_scan d g i f ts = Some ts'" for ts'
    using that by (induction ts arbitrary: ts') (auto split: if_splits)
  then have "\<exists>t \<in> set (register_slow d g i f ts). matches d g t"
    using register_slow_cases [of d g i f ts] by (auto simp: matches_def new_item_def)
  then show ?thesis by (metis in_set_conv_nth)
qed

fun event_listens :: "'f watch_event \<Rightarrow> (string \<times> string \<times> string \<times> 'f) set" where
  "event_listens (Listen i d g f) = {(d, g, i, f)}"
| "event_listens _ = {}"

fun event_ids :: "'f watch_event list \<Rightarrow> string list" where
  "event_ids [] = []"
| "event_ids (Listen i d g f # es) = i # event_ids es"
| "event_ids (_ # es) = event_ids es"

lemma watch_event_keeps:
  assumes "watch_event rng ask now e ts w = Some (ts', calls, w')" "watch_inv ts"
  shows "watch_inv ts'"
    and "(d, g, i, f) \<in> event_listens e \<Longrightarrow> listens ts' d g i f"
    and "listens ts d g i f \<Longrightarrow> i \<notin> set (event_ids [e]) \<Longrightarrow> listens ts' d g i f"
proof -
  have T: "watch_inv ts' \<and> listeners ts' = listeners ts" if "e = Tick \<or> e = Backoff_tick"
    using that assms tick_keeps [of _ rng ask now "[0..<length ts]" ts w ts' calls w']
    by (auto simp: watch_event_def ticker_step_def backoff_ticker_step_def getWatchItems_def)
  have L: "watch_inv ts' \<and> listeners ts' = listeners (register_slow d g i f ts)" if e: "e = Listen i d g f" for d g i f
  proof -
    let ?ts = "register_slow d g i f ts"
    obtain data where p: "poll rng ask now d g ?ts w = Some (ts', calls, data, w')"
      using assms(1) Register_slow [of i d g f ts] by (auto simp: e watch_event_def ListenConfig_def Register_def register_slow_def)
    obtain idx where "idx < length ?ts" "matches d g (?ts ! idx)" using register_slow_has [of d g i f ts] by blast
    from poll_keeps [OF watch_inv_register [OF assms(2)] this p] show ?thesis .
  qed
  have kd: "keys_distinct ts" using assms(2) by (simp add: watch_inv_def)
  show "watch_inv ts'" using T L by (cases e) auto
  show "listens ts' d g i f" if "(d, g, i, f) \<in> event_listens e"
    using that L register_slow_listens(1) [OF kd] by (cases e) (auto simp: listens_listeners)
  show "listens ts' d g i f" if "listens ts d g i f" "i \<notin> set (event_ids [e])"
    using that T L register_slow_listens(2) [OF kd, of d g i f] by (cases e) (auto simp: listens_listeners)
qed

lemma watch_event_returns:
  assumes "\<And>d g w. ask d g w \<noteq> None"
  shows "watch_event rng ask now e ts w \<noteq> None"
  using tick_returns [of ask] poll_returns [of ask] assms
  by (cases e) (auto simp: watch_event_def ticker_step_def backoff_ticker_step_def ListenConfig_def split: prod.splits)

text \<open>
  C34: In every life of the watchdog whose queries return, the loop goes on: there is one item for each data id and
  group, the backoff of an item is 0, 1, 2, 4, 8 or 16 seconds, and every listener that was added, at the
  beginning or in between, is still there at the end, under its own id.
\<close>

theorem Watchdog_keeps_listeners:
  assumes "watch_inv ts" "\<And>d g w. ask d g w \<noteq> None" "distinct (event_ids es)"
    and "\<forall>d g i f. listens ts d g i f \<longrightarrow> i \<notin> set (event_ids es)"
  shows "\<exists>ts' calls w'. loopWatch rng ask now es ts w = Some (ts', calls, w') \<and> keys_distinct ts' \<and>
    (\<forall>t \<in> set ts'. backoff t \<in> {0, second, 2 * second, 4 * second, 8 * second, 16 * second}) \<and>
    (\<forall>d g i f. listens ts d g i f \<or> (\<exists>e \<in> set es. (d, g, i, f) \<in> event_listens e) \<longrightarrow> listens ts' d g i f)"
proof -
  have ladder: "ladder n \<in> {0, second, 2 * second, 4 * second, 8 * second, 16 * second}" for n
  proof (cases "n \<le> 4")
    case True
    then consider "n = 0" | "n = 1" | "n = 2" | "n = 3" | "n = 4" by linarith
    then show ?thesis by cases (simp_all add: ladder_def)
  next
    case False
    then have "(16 :: int) \<le> 2 ^ (n - 1)" using power_increasing [of 4 "n - 1" "2 :: int"] by simp
    then show ?thesis using False by (simp add: ladder_def min_def)
  qed
  have "\<exists>ts' calls w'. loopWatch rng ask now es ts w = Some (ts', calls, w') \<and> watch_inv ts' \<and>
      (\<forall>d g i f. listens ts d g i f \<and> i \<notin> set (event_ids es) \<or> (\<exists>e \<in> set es. (d, g, i, f) \<in> event_listens e) \<longrightarrow> listens ts' d g i f)"
    using assms(1,3)
  proof (induction es arbitrary: ts w)
    case (Cons e es)
    obtain ts1 c1 w1 where s: "watch_event rng ask now e ts w = Some (ts1, c1, w1)"
      using watch_event_returns [of ask rng now e ts w, OF assms(2)] by (cases "watch_event rng ask now e ts w") auto
    note K = watch_event_keeps [OF s Cons.prems(1)]
    have "distinct (event_ids es)" using Cons.prems(2) by (cases e) auto
    from Cons.IH [OF K(1) this, of w1] obtain ts' c2 w' where r: "loopWatch rng ask now es ts1 w1 = Some (ts', c2, w')" "watch_inv ts'"
        "\<And>d g i f. listens ts1 d g i f \<and> i \<notin> set (event_ids es) \<or> (\<exists>e \<in> set es. (d, g, i, f) \<in> event_listens e) \<Longrightarrow> listens ts' d g i f"
      by metis
    have ids: "event_ids (e # es) = event_ids [e] @ event_ids es" by (cases e) auto
    have new: "i \<notin> set (event_ids es)" if "(d, g, i, f) \<in> event_listens e" for d g i f
      using that Cons.prems(2) by (cases e) auto
    have "listens ts' d g i f" if "listens ts d g i f \<and> i \<notin> set (event_ids (e # es)) \<or> (\<exists>e' \<in> set (e # es). (d, g, i, f) \<in> event_listens e')" for d g i f
    proof (cases "(\<exists>e' \<in> set es. (d, g, i, f) \<in> event_listens e') \<or> (d, g, i, f) \<notin> event_listens e")
      case True
      then have "listens ts1 d g i f \<and> i \<notin> set (event_ids es) \<or> (\<exists>e' \<in> set es. (d, g, i, f) \<in> event_listens e')"
        using that K(3) [of d g i f] by (auto simp: ids)
      then show ?thesis by (rule r(3))
    next
      case False
      then show ?thesis using K(2) [of d g i f] new [of d g i f] r(3) [of d g i f] by blast
    qed
    with r(1,2) s show ?case by simp
  qed simp
  then show ?thesis
    using assms(4) ladder by (fastforce simp: watch_inv_def item_ok_def)
qed

lemma Watchdog_keeps_listeners_witness:
  "\<exists>ts' calls w'. loopWatch (\<lambda>m. m) sample_asker (\<lambda>w. int (length w)) [Listen ''3'' ''a'' ''g'' (), Tick, Backoff_tick] sample_targets [] = Some (ts', calls, w') \<and>
    listens ts' ''a'' ''g'' ''3'' () \<and> listens ts' ''a'' ''g'' ''1'' ()"
proof -
  let ?es = "[Listen ''3'' ''a'' ''g'' (), Tick, Backoff_tick]"
  have "watch_inv sample_targets"
    unfolding watch_inv_def sample_targets_def using item_ok_steps(3) item_ok_steps(1) [OF item_ok_steps(3)]
    by (auto simp: keys_distinct_def new_item_def back_off_def)
  moreover have "\<And>d g w. sample_asker d g w \<noteq> None" by (simp add: sample_asker_def)
  moreover have "\<forall>d g i f. listens sample_targets d g i f \<longrightarrow> i \<notin> set (event_ids ?es)"
    by (auto simp: listens_def sample_targets_def new_item_def back_off_def split: if_splits)
  moreover have "distinct (event_ids ?es)" by simp
  ultimately obtain ts' calls w' where r: "loopWatch (\<lambda>m. m) sample_asker (\<lambda>w. int (length w)) ?es sample_targets [] = Some (ts', calls, w')"
      "\<And>d g i f. listens sample_targets d g i f \<or> (\<exists>e \<in> set ?es. (d, g, i, f) \<in> event_listens e) \<Longrightarrow> listens ts' d g i f"
    using Watchdog_keeps_listeners [of sample_targets sample_asker ?es "\<lambda>m. m" "\<lambda>w. int (length w)" "[]"] by blast
  have "listens sample_targets ''a'' ''g'' ''1'' ()"
    by (simp add: listens_def sample_targets_def new_item_def matches_def)
  then have "listens ts' ''a'' ''g'' ''1'' ()" by (intro r(2)) simp
  moreover have "listens ts' ''a'' ''g'' ''3'' ()" by (intro r(2)) simp
  ultimately show ?thesis using r(1) by blast
qed

end
