(* ===== verification/Storage.thy ===== *)
theory Storage
  imports Prelude
begin

unbundle bit_operations_syntax

text \<open>
  \<open>clients/storage/storage.go\<close>: file modes from their text, objects and file infos, configuration
  providers (the package \<open>cast\<close> is the parameters \<open>to_string\<close> and \<open>to_int\<close>) and the registry of storage
  types; then what the backends share: the runes of a string, \<open>strconv.FormatInt\<close> in any base, and
  the interface of a paged listing.
\<close>

section \<open>Runes\<close>

text \<open>\<open>[]rune(s)\<close>: UTF-8 decoding; a byte that starts no valid sequence is U+FFFD.\<close>

definition cont_byte :: "nat \<Rightarrow> nat \<Rightarrow> nat \<Rightarrow> bool" where
  "cont_byte lo hi b \<longleftrightarrow> lo \<le> b \<and> b \<le> hi"

function utf8_runes :: "nat list \<Rightarrow> nat list" where
  "utf8_runes [] = []"
| "utf8_runes (b # bs) =
     (if b < 128 then b # utf8_runes bs
      else if 194 \<le> b \<and> b \<le> 223 \<and> 1 \<le> length bs \<and> cont_byte 128 191 (bs ! 0) then
        ((b - 192) * 64 + (bs ! 0 - 128)) # utf8_runes (drop 1 bs)
      else if 224 \<le> b \<and> b \<le> 239 \<and> 2 \<le> length bs \<and>
          cont_byte (if b = 224 then 160 else 128) (if b = 237 then 159 else 191) (bs ! 0) \<and> cont_byte 128 191 (bs ! 1) then
        ((b - 224) * 4096 + (bs ! 0 - 128) * 64 + (bs ! 1 - 128)) # utf8_runes (drop 2 bs)
      else if 240 \<le> b \<and> b \<le> 244 \<and> 3 \<le> length bs \<and>
          cont_byte (if b = 240 then 144 else 128) (if b = 244 then 143 else 191) (bs ! 0) \<and>
          cont_byte 128 191 (bs ! 1) \<and> cont_byte 128 191 (bs ! 2) then
        ((b - 240) * 262144 + (bs ! 0 - 128) * 4096 + (bs ! 1 - 128) * 64 + (bs ! 2 - 128)) # utf8_runes (drop 3 bs)
      else 65533 # utf8_runes bs)"
  by pat_completeness auto
termination by (relation "measure length") auto

definition runes :: "string \<Rightarrow> nat list" where
  "runes s = utf8_runes (map of_char s)"

lemma utf8_runes_ascii: "\<forall>b \<in> set bs. b < 128 \<Longrightarrow> utf8_runes bs = bs"
  by (induction bs) auto

lemma runes_ascii: "\<forall>c \<in> set s. (of_char c :: nat) < 128 \<Longrightarrow> runes s = map of_char s"
  by (simp add: runes_def utf8_runes_ascii)

lemma length_utf8_runes: "length (utf8_runes bs) \<le> length bs"
  by (induction bs rule: utf8_runes.induct) auto

section \<open>File modes\<close>

definition mode_letters :: string where "mode_letters = ''dalTLDpSugct?''"
definition rwx_letters :: string where "rwx_letters = ''rwxrwxrwx''"

text \<open>One loop of \<open>RawPermissionsToMode\<close>: the bits of the positions where the letters agree.\<close>

fun set_bits :: "nat \<Rightarrow> nat list \<Rightarrow> nat list \<Rightarrow> u32 \<Rightarrow> u32" where
  "set_bits hi (x # xs) (y # ys) mode =
     set_bits (hi - 1) xs ys (if x = y then mode OR push_bit hi 1 else mode)"
| "set_bits hi _ _ mode = mode"

definition RawPermissionsToMode :: "string \<Rightarrow> u32" where
  "RawPermissionsToMode raw =
     (let raw = (if length raw = 9 then CHR ''-'' # raw else raw)
      in if length raw \<noteq> 10 then 511
         else let permissions = runes raw;
                  mode = (if hd raw \<noteq> CHR ''-'' then
                     set_bits 31 (replicate 13 (hd permissions)) (map of_char mode_letters) 0 else 0)
              in set_bits 8 (map of_char rwx_letters) (tl permissions) mode)"

text \<open>What \<open>fs.FileMode.String\<close> prints: the letters of the type bits, or a dash, and nine letters.\<close>

definition bit_letters :: "nat \<Rightarrow> string \<Rightarrow> u32 \<Rightarrow> string" where
  "bit_letters hi letters m =
     concat (map (\<lambda>i. if bit m (hi - i) then [letters ! i] else []) [0..<length letters])"

definition mode_String :: "u32 \<Rightarrow> string" where
  "mode_String m =
     (let t = bit_letters 31 mode_letters m
      in (if t = [] then ''-'' else t) @
         map (\<lambda>i. if bit m (8 - i) then rwx_letters ! i else CHR ''-'') [0..<9])"

lemma set_bits_bit:
  assumes "length xs \<le> Suc hi" "length ys = length xs" "hi < 32" "n < 32"
  shows "bit (set_bits hi xs ys mode) n \<longleftrightarrow>
    bit mode n \<or> (\<exists>i < length xs. n = hi - i \<and> xs ! i = ys ! i)"
  using assms
proof (induction hi xs ys mode rule: set_bits.induct)
  case (1 hi x xs y ys mode)
  show ?case
  proof (cases "xs = []")
    case True
    with 1 show ?thesis by (auto simp: bit_or_iff bit_exp_iff)
  next
    case False
    then have hi: "0 < hi" "length xs \<le> Suc (hi - 1)" using 1(2) by (cases xs; auto)+
    have "bit (set_bits (hi - 1) xs ys (if x = y then mode OR push_bit hi 1 else mode)) n \<longleftrightarrow>
        bit (if x = y then mode OR push_bit hi 1 else mode) n \<or> (\<exists>i < length xs. n = hi - 1 - i \<and> xs ! i = ys ! i)"
      using 1 hi by (intro "1.IH") auto
    moreover have "bit (if x = y then mode OR push_bit hi 1 else mode) n \<longleftrightarrow> bit mode n \<or> (n = hi \<and> x = y)"
      using 1(4,5) by (auto simp: bit_or_iff bit_exp_iff)
    moreover have "(\<exists>i < Suc (length xs). n = hi - i \<and> (x # xs) ! i = (y # ys) ! i) \<longleftrightarrow>
        (n = hi \<and> x = y) \<or> (\<exists>i < length xs. n = hi - 1 - i \<and> xs ! i = ys ! i)"
      by (simp add: Ex_less_Suc2)
    ultimately show ?thesis by simp
  qed
qed auto

definition perm_text :: "u32 \<Rightarrow> string" where
  "perm_text m = map (\<lambda>i. if bit m (8 - i) then rwx_letters ! i else CHR ''-'') [0..<9]"

lemma rwx_facts:
  "length rwx_letters = 9" "i < 9 \<Longrightarrow> rwx_letters ! i \<noteq> CHR ''-''" "\<forall>c \<in> set rwx_letters. (of_char c :: nat) < 128"
proof -
  show "length rwx_letters = 9" by (simp add: rwx_letters_def)
  have "list_all (\<lambda>c. c \<noteq> CHR ''-'') rwx_letters" by (simp add: rwx_letters_def)
  then show "rwx_letters ! i \<noteq> CHR ''-''" if "i < 9"
    using that by (simp add: list_all_length rwx_letters_def)
  show "\<forall>c \<in> set rwx_letters. (of_char c :: nat) < 128" by (simp add: rwx_letters_def)
qed

lemma mode_letters_facts:
  "length mode_letters = 13" "distinct mode_letters" "CHR ''-'' \<notin> set mode_letters"
  "\<forall>c \<in> set mode_letters. (of_char c :: nat) < 128"
  by (simp_all add: mode_letters_def)

lemma perm_text_ascii: "\<forall>c \<in> set (perm_text m). (of_char c :: nat) < 128"
proof
  fix c assume "c \<in> set (perm_text m)"
  then obtain i where "i < 9" "c = (if bit m (8 - i) then rwx_letters ! i else CHR ''-'')"
    by (auto simp: perm_text_def)
  then show "(of_char c :: nat) < 128" using rwx_facts(1,3) nth_mem [of i rwx_letters] by (auto split: if_splits)
qed

lemma set_bits_perm:
  assumes "n < 32"
  shows "bit (set_bits 8 (map of_char rwx_letters) (map of_char (perm_text m)) mode) n \<longleftrightarrow> bit mode n \<or> (n < 9 \<and> bit m n)"
proof -
  have eq: "(map of_char rwx_letters ! i = (map of_char (perm_text m) ! i :: nat)) = bit m (8 - i)" if "i < 9" for i
    using that rwx_facts(2) [OF that] by (simp add: perm_text_def rwx_facts(1))
  have "bit (set_bits 8 (map of_char rwx_letters) (map of_char (perm_text m)) mode) n \<longleftrightarrow>
      bit mode n \<or> (\<exists>i < 9. n = 8 - i \<and> bit m (8 - i))"
    using eq by (subst set_bits_bit [OF _ _ _ assms]) (auto simp: rwx_facts(1) perm_text_def)
  also have "(\<exists>i < 9. n = 8 - i \<and> bit m (8 - i)) \<longleftrightarrow> n < 9 \<and> bit m n"
  proof
    assume "n < 9 \<and> bit m n"
    then show "\<exists>i < 9. n = 8 - i \<and> bit m (8 - i)" by (intro exI [of _ "8 - n"]) simp
  qed auto
  finally show ?thesis .
qed

lemma set_bits_type:
  assumes "n < 32" "t \<in> {19..31}"
  shows "bit (set_bits 31 (replicate 13 (of_char (mode_letters ! (31 - t)))) (map of_char mode_letters) 0) n \<longleftrightarrow> n = t"
proof -
  have d: "mode_letters ! (31 - t) = mode_letters ! i \<longleftrightarrow> i = 31 - t" if "i < 13" for i
    using that assms(2) mode_letters_facts(1,2) by (subst nth_eq_iff_index_eq) auto
  have "bit (set_bits 31 (replicate 13 (of_char (mode_letters ! (31 - t)) :: nat)) (map of_char mode_letters) 0) n \<longleftrightarrow>
      (\<exists>i < 13. n = 31 - i \<and> mode_letters ! (31 - t) = mode_letters ! i)"
    by (subst set_bits_bit [OF _ _ _ assms(1)]) (auto simp: mode_letters_facts(1))
  also have "\<dots> \<longleftrightarrow> (\<exists>i < 13. n = 31 - i \<and> i = 31 - t)" using d by auto
  also have "\<dots> \<longleftrightarrow> n = t" using assms(2) by auto
  finally show ?thesis .
qed

lemma bit_letters_one:
  assumes "t \<in> {19..31}" "\<And>n. n \<in> {19..31} \<Longrightarrow> bit m n = (n = t \<and> on)"
  shows "bit_letters 31 mode_letters m = (if on then [mode_letters ! (31 - t)] else [])"
proof -
  have "bit_letters 31 mode_letters m = concat (map (\<lambda>i. if i = 31 - t \<and> on then [mode_letters ! i] else []) [0..<13])"
    unfolding bit_letters_def mode_letters_facts(1)
    by (intro arg_cong [where f = concat] map_cong refl) (use assms in auto)
  also have "\<dots> = (if on then [mode_letters ! (31 - t)] else [])"
  proof -
    have "concat (map (\<lambda>i. if i = k \<and> on then [f i] else []) [0..<n]) = (if on \<and> k < n then [f k] else [])"
      for k n and f :: "nat \<Rightarrow> char"
      by (induction n) auto
    moreover have "31 - t < 13" using assms(1) by auto
    ultimately show ?thesis by simp
  qed
  finally show ?thesis .
qed

lemma RawPermissions_text:
  assumes "(of_char c :: nat) < 128"
  shows "RawPermissionsToMode (c # perm_text m) =
    set_bits 8 (map of_char rwx_letters) (map of_char (perm_text m))
      (if c \<noteq> CHR ''-'' then set_bits 31 (replicate 13 (of_char c)) (map of_char mode_letters) 0 else 0)"
proof -
  have len: "length (c # perm_text m) = 10" by (simp add: perm_text_def)
  have "runes (c # perm_text m) = of_char c # map of_char (perm_text m)"
    using runes_ascii [of "c # perm_text m"] assms perm_text_ascii by simp
  then show ?thesis
    using len by (simp add: RawPermissionsToMode_def Let_def)
qed

text \<open>
  C21: \<open>RawPermissionsToMode\<close> reads back what \<open>fs.FileMode.String\<close> prints, for every mode with permission
  bits and at most one type bit.
\<close>

theorem RawPermissionsToMode_inverts_String:
  assumes "t \<in> {19..31}" "\<And>n. n < 32 \<Longrightarrow> bit m n \<Longrightarrow> n < 9 \<or> n = t"
  shows "RawPermissionsToMode (mode_String m) = m"
proof -
  have "bit m n = (n = t \<and> bit m t)" if "n \<in> {19..31}" for n
    using assms(2) [of n] assms(1) that by auto
  from bit_letters_one [OF assms(1) this]
  have L: "bit_letters 31 mode_letters m = (if bit m t then [mode_letters ! (31 - t)] else [])" .
  have c: "(of_char (mode_letters ! (31 - t)) :: nat) < 128" "mode_letters ! (31 - t) \<noteq> CHR ''-''"
    using mode_letters_facts nth_mem [of "31 - t" mode_letters, unfolded mode_letters_facts(1)] assms(1) by fastforce+
  have "mode_String m = (if bit m t then mode_letters ! (31 - t) else CHR ''-'') # perm_text m"
    by (simp add: mode_String_def L perm_text_def Let_def)
  moreover have "bit (RawPermissionsToMode ((if bit m t then mode_letters ! (31 - t) else CHR ''-'') # perm_text m)) n = bit m n"
    if "n < 32" for n
    using c assms that by (auto simp: RawPermissions_text set_bits_perm set_bits_type)
  ultimately show ?thesis by (intro bit_word_eqI) simp
qed

theorem RawPermissionsToMode_inverts_String_witness:
  "mode_String 2147484141 = ''drwxr-xr-x'' \<and> RawPermissionsToMode (mode_String 2147484141) = 2147484141"
proof
  show "mode_String 2147484141 = ''drwxr-xr-x''" by code_simp
  have "\<forall>n \<in> set [0..<32]. bit (2147484141 :: u32) n \<longrightarrow> n < 9 \<or> n = 31" by code_simp
  then have "n < 9 \<or> n = 31" if "n < 32" "bit (2147484141 :: u32) n" for n using that by simp
  then show "RawPermissionsToMode (mode_String 2147484141) = 2147484141"
    by (intro RawPermissionsToMode_inverts_String [of 31]) simp_all
qed

section \<open>Objects\<close>

type_synonym headers = "(string \<times> string list) list"

record storage_object =
  Key :: string
  LastModified :: int
  Size :: int
  ETag :: string
  StorageClass :: string
  Mode :: u32
  Headers :: headers
  Metadata :: "(string \<times> string) list"

definition empty_object :: storage_object where
  "empty_object = \<lparr>Key = [], LastModified = 0, Size = 0, ETag = [], StorageClass = [], Mode = 0, Headers = [], Metadata = []\<rparr>"

definition mode_IsDir :: "u32 \<Rightarrow> bool" where
  "mode_IsDir m = bit m 31"

record file_info =
  fi_name :: string
  fi_size :: int
  fi_mode :: u32
  fi_modTime :: int

definition object_Info :: "storage_object \<Rightarrow> file_info" where
  "object_Info ob = \<lparr>fi_name = Key ob, fi_size = Size ob, fi_mode = Mode ob, fi_modTime = LastModified ob\<rparr>"

definition object_IsDir :: "storage_object \<Rightarrow> bool" where
  "object_IsDir ob = mode_IsDir (Mode ob)"

section \<open>Configuration and registry\<close>

record config_provider =
  GetString :: "string \<Rightarrow> string"
  GetInt :: "string \<Rightarrow> int"

definition map_Get :: "(string \<times> 'v) list \<Rightarrow> string \<Rightarrow> 'v option" where
  "map_Get m key = map_of m key"

definition NewMapConfigProvider ::
  "('v option \<Rightarrow> string) \<Rightarrow> ('v option \<Rightarrow> int) \<Rightarrow> (string \<times> 'v) list \<Rightarrow> config_provider" where
  "NewMapConfigProvider to_string to_int m =
     \<lparr>GetString = (\<lambda>key. to_string (map_Get m key)), GetInt = (\<lambda>key. to_int (map_Get m key))\<rparr>"

type_synonym 'n registry = "(string \<times> 'n) list"

definition RegisterStorage :: "'n registry \<Rightarrow> string \<Rightarrow> 'n \<Rightarrow> 'n registry run" where
  "RegisterStorage reg storageType newFunc =
     (if map_of reg storageType \<noteq> None then Panic else Ret (reg @ [(storageType, newFunc)]))"

datatype 'x storage_error = TypeEmpty | UnknownBackend string | NewFailed 'x

definition NewStorage ::
  "(config_provider \<Rightarrow> ('x + 's) run) registry \<Rightarrow> config_provider \<Rightarrow> ('x storage_error + 's) run" where
  "NewStorage reg v =
     (let storageType = GetString v ''type''
      in if storageType = [] then Ret (Inl TypeEmpty)
         else case map_of reg storageType of
           Some newFunc \<Rightarrow> map_run (map_sum NewFailed id) (newFunc v)
         | None \<Rightarrow> Ret (Inl (UnknownBackend storageType)))"

fun RegisterAll :: "'n registry \<Rightarrow> (string \<times> 'n) list \<Rightarrow> 'n registry run" where
  "RegisterAll reg [] = Ret reg"
| "RegisterAll reg ((t, f) # fs) = bind_run (RegisterStorage reg t f) (\<lambda>reg. RegisterAll reg fs)"

lemma RegisterAll_distinct:
  "RegisterAll reg fs = (if distinct (map fst fs) \<and> set (map fst fs) \<inter> set (map fst reg) = {} then Ret (reg @ fs) else Panic)"
proof (induction fs arbitrary: reg)
  case (Cons p fs)
  obtain t f where p: "p = (t, f)" by (cases p)
  show ?case
    by (cases "t \<in> fst ` set reg")
      (auto simp: p RegisterStorage_def Cons.IH map_of_eq_None_iff simp del: not_None_eq)
qed simp

section \<open>Numbers in any base\<close>

definition base_digits :: string where "base_digits = ''0123456789abcdefghijklmnopqrstuvwxyz''"

function digits_in :: "nat \<Rightarrow> nat \<Rightarrow> string" where
  "digits_in b n = (if n < b \<or> b < 2 then [base_digits ! n] else digits_in b (n div b) @ [base_digits ! (n mod b)])"
  by auto
termination by (relation "measure snd") auto

declare digits_in.simps [simp del]

text \<open>\<open>strconv.FormatInt\<close> panics for a base outside 2 to 36.\<close>

definition FormatInt :: "int \<Rightarrow> nat \<Rightarrow> string run" where
  "FormatInt i base =
     (if base < 2 \<or> 36 < base then Panic
      else Ret (if i < 0 then CHR ''-'' # digits_in base (nat (- i)) else digits_in base (nat i)))"

end
