(* ===== verification/Bucket_Store.thy ===== *)
theory Bucket_Store
  imports Storage Safe_String
begin

text \<open>
  The two object stores over HTTP, \<open>clients/storage/s3/s3.go\<close> and \<open>clients/storage/oss/oss.go\<close>. The SDKs
  are the parameters \<open>s3_lib\<close> and \<open>oss_lib\<close> over a world \<open>'w\<close>; a callback changes a state \<open>'a\<close> of its
  own. Both listings follow continuation tokens and are written as they run; the locale
  \<open>paged_listing\<close> is what they share, and gives that a listing ends and misses nothing.
\<close>

datatype 'x store_error = PathEmpty string | BucketEmpty | KeyEmpty | Sdk 'x | ErrNotExist | Cancelled

text \<open>Values behind pointers of the SDKs: a nil pointer is the zero value.\<close>

definition ToString :: "string option \<Rightarrow> string" where
  "ToString p = (case p of None \<Rightarrow> [] | Some s \<Rightarrow> s)"

definition ToInt64 :: "int option \<Rightarrow> int" where
  "ToInt64 p = (case p of None \<Rightarrow> 0 | Some i \<Rightarrow> i)"

definition zero_instant :: int where "zero_instant = - 62135596800000000000"

definition ToTime :: "int option \<Rightarrow> int" where
  "ToTime p = (case p of None \<Rightarrow> zero_instant | Some t \<Rightarrow> t)"

definition trim_quotes :: "string \<Rightarrow> string" where
  "trim_quotes s = rev (dropWhile (\<lambda>c. c = CHR 0x22) (rev (dropWhile (\<lambda>c. c = CHR 0x22) s)))"

definition header_Get :: "headers \<Rightarrow> string \<Rightarrow> string" where
  "header_Get h name = (case map_of h name of Some (v # _) \<Rightarrow> v | _ \<Rightarrow> [])"

definition meta_get :: "(string \<times> string) list \<Rightarrow> string \<Rightarrow> string" where
  "meta_get m k = (case map_of m k of None \<Rightarrow> [] | Some v \<Rightarrow> v)"

record listed =
  li_Key :: "string option"
  li_LastModified :: "int option"
  li_Size :: "int option"
  li_ETag :: "string option"
  li_StorageClass :: "string option"

record list_page =
  Contents :: "listed list"
  NextToken :: "string option"

record list_input =
  in_Bucket :: string
  in_Prefix :: string
  in_MaxKeys :: int
  in_Token :: "string option"
  in_Delimiter :: "string option"

definition listed_object :: "listed \<Rightarrow> storage_object" where
  "listed_object ob = empty_object\<lparr>Key := ToString (li_Key ob), LastModified := ToTime (li_LastModified ob),
     Size := ToInt64 (li_Size ob), ETag := trim_quotes (ToString (li_ETag ob)), StorageClass := ToString (li_StorageClass ob)\<rparr>"

text \<open>The inner loop of a listing: the context is looked at before every object.\<close>

fun contents_loop ::
  "('a \<Rightarrow> 'e option) \<Rightarrow> (storage_object \<Rightarrow> 'a \<Rightarrow> 'a) \<Rightarrow> listed list \<Rightarrow> 'a \<Rightarrow> 'e option \<times> 'a" where
  "contents_loop ctx_err callback [] a = (None, a)"
| "contents_loop ctx_err callback (ob # obs) a =
     (case ctx_err a of
        Some e \<Rightarrow> (Some e, a)
      | None \<Rightarrow> contents_loop ctx_err callback obs (callback (listed_object ob) a))"

section \<open>S3\<close>

record 'b s3_output =
  out_Body :: 'b
  out_LastModified :: "int option"
  out_ContentLength :: "int option"
  out_ETag :: "string option"
  out_ContentType :: "string option"
  out_ContentEncoding :: "string option"
  out_ContentLanguage :: "string option"
  out_ContentDisposition :: "string option"
  out_CacheControl :: "string option"
  out_ExpiresString :: "string option"
  out_StorageClass :: string
  out_Metadata :: "(string \<times> string) list"

record s3_put_input =
  put_Bucket :: string
  put_Key :: string
  put_Body :: bytes
  put_Metadata :: "(string \<times> string) list"
  put_ContentType :: "string option"
  put_ContentEncoding :: "string option"
  put_ContentLanguage :: "string option"
  put_ContentDisposition :: "string option"
  put_CacheControl :: "string option"
  put_Expires :: "int option"

record ('w, 'b, 'x) s3_lib =
  s3_get :: "string \<Rightarrow> string \<Rightarrow> 'w \<Rightarrow> ('x + 'b s3_output) \<times> 'w"
  s3_head :: "string \<Rightarrow> string \<Rightarrow> 'w \<Rightarrow> ('x + 'b s3_output) \<times> 'w"
  s3_upload :: "s3_put_input \<Rightarrow> 'w \<Rightarrow> 'x option \<times> 'w"
  s3_list :: "list_input \<Rightarrow> 'w \<Rightarrow> ('x + list_page) \<times> 'w"
  s3_status :: "'x \<Rightarrow> int option"
  http_date :: "int \<Rightarrow> string"
  parse_date :: "string \<Rightarrow> int option"

definition s3_resolveObjectPath :: "string \<Rightarrow> string \<Rightarrow> 'x store_error + string \<times> string" where
  "s3_resolveObjectPath bucket0 objectPath =
     (case (if \<not> has_prefix objectPath ''s3://'' then (bucket0, objectPath, True)
            else str_cut CHR ''/'' (trim_prefix objectPath ''s3://'')) of
        (bucket, key, found) \<Rightarrow>
          if \<not> found then Inl (PathEmpty objectPath)
          else if length bucket = 0 then Inl BucketEmpty
          else Inr (key, bucket))"

definition s3_headers :: "('w, 'b, 'x) s3_lib \<Rightarrow> 'b s3_output \<Rightarrow> headers run" where
  "s3_headers lib ret = map_run (\<lambda>len.
     [(''Content-Type'', [ToString (out_ContentType ret)]), (''Content-Encoding'', [ToString (out_ContentEncoding ret)]),
      (''Content-Language'', [ToString (out_ContentLanguage ret)]), (''Content-Disposition'', [ToString (out_ContentDisposition ret)]),
      (''Cache-Control'', [ToString (out_CacheControl ret)]), (''Expires'', [ToString (out_ExpiresString ret)]),
      (''Content-Length'', [len]), (''Last-Modified'', [http_date lib (ToTime (out_LastModified ret))]),
      (''ETag'', [ToString (out_ETag ret)])])
     (FormatInt (ToInt64 (out_ContentLength ret)) 64)"

definition s3_GetObject ::
  "('w, 'b, 'x) s3_lib \<Rightarrow> string \<Rightarrow> string \<Rightarrow> 'w \<Rightarrow> (('x store_error + 'b \<times> storage_object) \<times> 'w) run" where
  "s3_GetObject lib bucket0 objectPath w =
     (case s3_resolveObjectPath bucket0 objectPath of
        Inl err \<Rightarrow> Ret (Inl err, w)
      | Inr (key, bucket) \<Rightarrow>
          if length key = 0 then Ret (Inl KeyEmpty, w)
          else (case s3_get lib bucket key w of
                  (Inl err, w) \<Rightarrow> Ret (Inl (Sdk err), w)
                | (Inr ret, w) \<Rightarrow> map_run (\<lambda>hs. (Inr (out_Body ret, empty_object\<lparr>
                    LastModified := ToTime (out_LastModified ret), Size := ToInt64 (out_ContentLength ret), Headers := hs,
                    Mode := RawPermissionsToMode (meta_get (out_Metadata ret) ''x-amz-meta-file-permissions''),
                    Metadata := out_Metadata ret\<rparr>), w)) (s3_headers lib ret)))"

definition s3_put_header :: "('w, 'b, 'x) s3_lib \<Rightarrow> headers \<Rightarrow> s3_put_input \<Rightarrow> string \<Rightarrow> s3_put_input" where
  "s3_put_header lib hs req name =
     (let v = header_Get hs name in
      if name = ''Content-Type'' then req\<lparr>put_ContentType := Some v\<rparr>
      else if name = ''Content-Encoding'' then req\<lparr>put_ContentEncoding := Some v\<rparr>
      else if name = ''Content-Language'' then req\<lparr>put_ContentLanguage := Some v\<rparr>
      else if name = ''Content-Disposition'' then req\<lparr>put_ContentDisposition := Some v\<rparr>
      else if name = ''Cache-Control'' then req\<lparr>put_CacheControl := Some v\<rparr>
      else if name = ''Expires'' then
        (case parse_date lib v of None \<Rightarrow> req | Some date \<Rightarrow> req\<lparr>put_Expires := Some date\<rparr>)
      else req)"

definition s3_PutObject ::
  "('w, 'b, 'x) s3_lib \<Rightarrow> string \<Rightarrow> string \<Rightarrow> bytes \<Rightarrow> headers \<Rightarrow> (string \<times> string) list \<Rightarrow> 'w \<Rightarrow> 'x store_error option \<times> 'w" where
  "s3_PutObject lib bucket0 objectPath obj hs metadata w =
     (case s3_resolveObjectPath bucket0 objectPath of
        Inl err \<Rightarrow> (Some err, w)
      | Inr (key, bucket) \<Rightarrow>
          if length key = 0 then (Some KeyEmpty, w)
          else let req = foldl (s3_put_header lib hs)
                 \<lparr>put_Bucket = bucket, put_Key = key, put_Body = obj, put_Metadata = metadata, put_ContentType = None,
                  put_ContentEncoding = None, put_ContentLanguage = None, put_ContentDisposition = None,
                  put_CacheControl = None, put_Expires = None\<rparr> (map fst hs)
               in (case s3_upload lib req w of (err, w) \<Rightarrow> (map_option Sdk err, w)))"

text \<open>A successful answer without a time or a length is a nil dereference.\<close>

definition s3_HeadObject ::
  "('w, 'b, 'x) s3_lib \<Rightarrow> string \<Rightarrow> string \<Rightarrow> 'w \<Rightarrow> (('x store_error + storage_object) \<times> 'w) run" where
  "s3_HeadObject lib bucket0 objectPath w =
     (case s3_resolveObjectPath bucket0 objectPath of
        Inl err \<Rightarrow> Ret (Inl err, w)
      | Inr (key, bucket) \<Rightarrow>
          if length key = 0 then Ret (Inl KeyEmpty, w)
          else (case s3_head lib bucket key w of
                  (Inr info, w) \<Rightarrow>
                    (case (out_LastModified info, out_ContentLength info) of
                       (Some t, Some n) \<Rightarrow> map_run (\<lambda>hs. (Inr (empty_object\<lparr>Key := key, LastModified := t, Size := n,
                           ETag := trim_quotes (ToString (out_ETag info)), StorageClass := out_StorageClass info, Headers := hs,
                           Mode := RawPermissionsToMode (meta_get (out_Metadata info) ''x-amz-meta-file-permissions''),
                           Metadata := out_Metadata info\<rparr>), w)) (s3_headers lib info)
                     | _ \<Rightarrow> Panic)
                | (Inl err, w) \<Rightarrow> Ret (Inl (if s3_status lib err = Some 404 then ErrNotExist else Sdk err), w)))"

partial_function (option) s3_list_loop ::
  "('w, 'b, 'x) s3_lib \<Rightarrow> ('a \<Rightarrow> 'x store_error option) \<Rightarrow> (storage_object \<Rightarrow> 'a \<Rightarrow> 'a) \<Rightarrow> list_input \<Rightarrow>
   string option \<Rightarrow> 'w \<Rightarrow> 'a \<Rightarrow> ('x store_error option \<times> 'w \<times> 'a) option" where
  "s3_list_loop lib ctx_err callback req tok w a =
     (case ctx_err a of
        Some e \<Rightarrow> Some (Some e, w, a)
      | None \<Rightarrow>
          (case s3_list lib (req\<lparr>in_Token := tok\<rparr>) w of
             (Inl err, w) \<Rightarrow> Some (Some (Sdk err), w, a)
           | (Inr result, w) \<Rightarrow>
               (case contents_loop ctx_err callback (Contents result) a of
                  (Some e, a) \<Rightarrow> Some (Some e, w, a)
                | (None, a) \<Rightarrow>
                    if NextToken result = None \<or> length (ToString (NextToken result)) = 0 then Some (None, w, a)
                    else s3_list_loop lib ctx_err callback req (NextToken result) w a)))"

definition s3_ListObject ::
  "('w, 'b, 'x) s3_lib \<Rightarrow> string \<Rightarrow> ('a \<Rightarrow> 'x store_error option) \<Rightarrow> (storage_object \<Rightarrow> 'a \<Rightarrow> 'a) \<Rightarrow> string \<Rightarrow> bool \<Rightarrow>
   'w \<Rightarrow> 'a \<Rightarrow> ('x store_error option \<times> 'w \<times> 'a) option" where
  "s3_ListObject lib bucket0 ctx_err callback objectPrefix recursion w a =
     (case s3_resolveObjectPath bucket0 objectPrefix of
        Inl err \<Rightarrow> Some (Some err, w, a)
      | Inr (pre, bucket) \<Rightarrow>
          s3_list_loop lib ctx_err callback
            \<lparr>in_Bucket = bucket, in_Prefix = pre, in_MaxKeys = 1000, in_Token = None,
             in_Delimiter = (if recursion then None else Some ''/'')\<rparr> None w a)"

definition s3_ReadDir ::
  "('w, 'b, 'x) s3_lib \<Rightarrow> string \<Rightarrow> string \<Rightarrow> 'w \<Rightarrow> (storage_object list \<times> 'x store_error option \<times> 'w) option" where
  "s3_ReadDir lib bucket0 name w =
     map_option (\<lambda>(err, w, entries). (entries, err, w))
       (s3_ListObject lib bucket0 (\<lambda>_. None) (\<lambda>ob entries. entries @ [ob]) name False w [])"

record s3_options =
  s3_Type :: string
  s3_Endpoint :: string
  s3_AccessKeyId :: string
  s3_SecretAccessKey :: safe_string
  s3_Bucket :: string
  s3_Region :: string
  s3_Worker :: int

record s3_client =
  s3_bucket :: string
  s3_o :: s3_options
  s3_base :: string
  s3_secret :: string

definition s3_endpoint :: "config_provider \<Rightarrow> string" where
  "s3_endpoint v =
     (let region = GetString v ''region''; endpoint = GetString v ''endpoint'';
          endpoint = (if endpoint = [] \<and> region \<noteq> [] then ''s3.'' @ region @ ''.amazonaws.com'' else endpoint)
      in if length endpoint > 0 \<and> \<not> (has_prefix endpoint ''http://'' \<or> has_prefix endpoint ''https://'')
         then ''http://'' @ endpoint else endpoint)"

text \<open>The secret of a client: what \<open>SetValue\<close> and \<open>UnsafeString\<close> make of the configured one.\<close>

definition load_secret :: "crypto \<Rightarrow> string \<Rightarrow> (crypt_error + safe_string \<times> string) run" where
  "load_secret cx v =
     bind_run (SetValue cx \<lparr>val_of = [], secret_of = []\<rparr> v) (\<lambda>r. case r of
       (Some err, _) \<Rightarrow> Ret (Inl err)
     | (None, s) \<Rightarrow> map_run (\<lambda>u. case u of Inl err \<Rightarrow> Inl err | Inr plain \<Rightarrow> Inr (s, plain)) (UnsafeString cx s))"

definition s3_NewClient :: "crypto \<Rightarrow> config_provider \<Rightarrow> (crypt_error + s3_client) run" where
  "s3_NewClient cx v = map_run (\<lambda>r. case r of
     Inl err \<Rightarrow> Inl err
   | Inr (safeSecretKey, accessKeySecret) \<Rightarrow> Inr
       \<lparr>s3_bucket = GetString v ''bucket'',
        s3_o = \<lparr>s3_Type = ''s3'', s3_Endpoint = s3_endpoint v, s3_AccessKeyId = GetString v ''access_key_id'',
          s3_SecretAccessKey = safeSecretKey, s3_Bucket = GetString v ''bucket'', s3_Region = GetString v ''region'', s3_Worker = 0\<rparr>,
        s3_base = s3_endpoint v, s3_secret = accessKeySecret\<rparr>)
     (load_secret cx (GetString v ''secret_access_key''))"

section \<open>OSS\<close>

record 'b oss_output =
  oss_Body :: 'b
  oss_LastModified :: "int option"
  oss_ContentLength :: int
  oss_ETag :: "string option"
  oss_Headers :: headers
  oss_Metadata :: "(string \<times> string) list"

record ('w, 'b, 'x) oss_lib =
  oss_get :: "string \<Rightarrow> string \<Rightarrow> 'w \<Rightarrow> ('x + 'b oss_output) \<times> 'w"
  oss_meta :: "string \<Rightarrow> string \<Rightarrow> 'w \<Rightarrow> ('x + 'b oss_output) \<times> 'w"
  oss_upload :: "string \<Rightarrow> string \<Rightarrow> (string \<times> string) list \<Rightarrow> bytes \<Rightarrow> 'w \<Rightarrow> 'x option \<times> 'w"
  oss_list :: "list_input \<Rightarrow> 'w \<Rightarrow> ('x + list_page) \<times> 'w"

text \<open>The beginning of the OSS operations: bucket and key, then the checks of bucket and path.\<close>

definition oss_path :: "string \<Rightarrow> string \<Rightarrow> 'x store_error + string \<times> string" where
  "oss_path bucket0 objectPath =
     (case (if \<not> has_prefix objectPath ''oss://'' then (bucket0, objectPath, True)
            else str_cut CHR ''/'' (trim_prefix objectPath ''oss://'')) of
        (bucket, key, found) \<Rightarrow>
          if \<not> found then Inl (PathEmpty objectPath)
          else if length bucket = 0 then Inl BucketEmpty
          else if length objectPath = 0 then Inl KeyEmpty
          else Inr (key, bucket))"

definition oss_GetObject ::
  "('w, 'b, 'x) oss_lib \<Rightarrow> string \<Rightarrow> string \<Rightarrow> 'w \<Rightarrow> ('x store_error + 'b \<times> storage_object) \<times> 'w" where
  "oss_GetObject lib bucket0 objectPath w =
     (case oss_path bucket0 objectPath of
        Inl err \<Rightarrow> (Inl err, w)
      | Inr (key, bucket) \<Rightarrow>
          (case oss_get lib bucket key w of
             (Inl err, w) \<Rightarrow> (Inl (Sdk err), w)
           | (Inr ob, w) \<Rightarrow> (Inr (oss_Body ob, empty_object\<lparr>Key := key, LastModified := ToTime (oss_LastModified ob),
               Size := oss_ContentLength ob, ETag := trim_quotes (ToString (oss_ETag ob)),
               StorageClass := header_Get (oss_Headers ob) ''X-Oss-Storage-Class'', Metadata := oss_Metadata ob,
               Headers := oss_Headers ob, Mode := RawPermissionsToMode (meta_get (oss_Metadata ob) ''x-oss-storage-perms'')\<rparr>), w)))"

text \<open>The request with the headers is built and left; the uploader gets another one.\<close>

definition oss_PutObject ::
  "('w, 'b, 'x) oss_lib \<Rightarrow> string \<Rightarrow> string \<Rightarrow> bytes \<Rightarrow> headers \<Rightarrow> (string \<times> string) list \<Rightarrow> 'w \<Rightarrow> 'x store_error option \<times> 'w" where
  "oss_PutObject lib bucket0 objectPath obj hs metadata w =
     (case oss_path bucket0 objectPath of
        Inl err \<Rightarrow> (Some err, w)
      | Inr (key, bucket) \<Rightarrow>
          (case oss_upload lib bucket key metadata obj w of (err, w) \<Rightarrow> (map_option Sdk err, w)))"

text \<open>On success the named result \<open>obj\<close>, still nil, is dereferenced for headers and metadata.\<close>

definition oss_HeadObject ::
  "('w, 'b, 'x) oss_lib \<Rightarrow> string \<Rightarrow> string \<Rightarrow> 'w \<Rightarrow> (('x store_error + storage_object) \<times> 'w) run" where
  "oss_HeadObject lib bucket0 objectPath w =
     (case oss_path bucket0 objectPath of
        Inl err \<Rightarrow> Ret (Inl err, w)
      | Inr (key, bucket) \<Rightarrow>
          (case oss_meta lib bucket key w of
             (Inl err, w) \<Rightarrow> Ret (Inl (Sdk err), w)
           | (Inr meta, w) \<Rightarrow> Panic))"

partial_function (option) oss_list_loop ::
  "('w, 'b, 'x) oss_lib \<Rightarrow> ('a \<Rightarrow> 'x store_error option) \<Rightarrow> (storage_object \<Rightarrow> 'a \<Rightarrow> 'a) \<Rightarrow> list_input \<Rightarrow>
   string option \<Rightarrow> 'w \<Rightarrow> 'a \<Rightarrow> ('x store_error option \<times> 'w \<times> 'a) option" where
  "oss_list_loop lib ctx_err callback req tok w a =
     (case ctx_err a of
        Some e \<Rightarrow> Some (Some e, w, a)
      | None \<Rightarrow>
          (case oss_list lib (req\<lparr>in_Token := tok\<rparr>) w of
             (Inl err, w) \<Rightarrow> Some (Some (Sdk err), w, a)
           | (Inr result, w) \<Rightarrow>
               (case contents_loop ctx_err callback (Contents result) a of
                  (Some e, a) \<Rightarrow> Some (Some e, w, a)
                | (None, a) \<Rightarrow>
                    if NextToken result = None \<or> length (ToString (NextToken result)) = 0 then Some (None, w, a)
                    else oss_list_loop lib ctx_err callback req (NextToken result) w a)))"

definition oss_ListObject ::
  "('w, 'b, 'x) oss_lib \<Rightarrow> string \<Rightarrow> ('a \<Rightarrow> 'x store_error option) \<Rightarrow> (storage_object \<Rightarrow> 'a \<Rightarrow> 'a) \<Rightarrow> string \<Rightarrow> bool \<Rightarrow>
   'w \<Rightarrow> 'a \<Rightarrow> ('x store_error option \<times> 'w \<times> 'a) option" where
  "oss_ListObject lib bucket0 ctx_err callback objectPrefix recursion w a =
     (case (if \<not> has_prefix objectPrefix ''oss://'' then (bucket0, objectPrefix, True)
            else str_cut CHR ''/'' (trim_prefix objectPrefix ''oss://'')) of
        (bucket, pre, _) \<Rightarrow>
          if length bucket = 0 then Some (Some BucketEmpty, w, a)
          else oss_list_loop lib ctx_err callback
            \<lparr>in_Bucket = bucket, in_Prefix = pre, in_MaxKeys = 1000, in_Token = None,
             in_Delimiter = (if recursion then None else Some ''/'')\<rparr> None w a)"

definition oss_ReadDir ::
  "('w, 'b, 'x) oss_lib \<Rightarrow> string \<Rightarrow> string \<Rightarrow> 'w \<Rightarrow> (storage_object list \<times> 'x store_error option \<times> 'w) option" where
  "oss_ReadDir lib bucket0 dir w =
     map_option (\<lambda>(err, w, entries). (entries, err, w))
       (oss_ListObject lib bucket0 (\<lambda>_. None) (\<lambda>ob entries. entries @ [ob]) dir False w [])"

record oss_options =
  oss_Type :: string
  oss_Endpoint :: string
  oss_AccessKeyId :: string
  oss_SecretAccessKey :: safe_string
  oss_Bucket :: string
  oss_Region :: string
  oss_Worker :: int
  OSSMaxIdleConns :: int
  OSSMaxIdleConnsPerHost :: int

record oss_client =
  oss_bucket :: string
  oss_o :: oss_options
  oss_secret :: string

text \<open>\<open>(workerNum + 1) * 3 / 2\<close> rounds towards zero; it counts only above 100.\<close>

definition idle_conns :: "config_provider \<Rightarrow> string \<Rightarrow> int" where
  "idle_conns v key =
     (let n = GetInt v key; k = wrap64 ((GetInt v ''worker'' + 1) * 3)
      in if n = 0 then (let m = (if k < 0 then - ((- k) div 2) else k div 2) in if m < 100 then 100 else m) else n)"

definition oss_endpoint :: "config_provider \<Rightarrow> string" where
  "oss_endpoint v =
     (if GetString v ''endpoint'' = [] \<and> GetString v ''region'' \<noteq> []
      then ''https://oss-'' @ GetString v ''region'' @ ''.aliyuncs.com'' else GetString v ''endpoint'')"

definition oss_NewClient :: "crypto \<Rightarrow> config_provider \<Rightarrow> (crypt_error + oss_client) run" where
  "oss_NewClient cx v = map_run (\<lambda>r. case r of
     Inl err \<Rightarrow> Inl err
   | Inr (safeSecretKey, accessKeySecret) \<Rightarrow> Inr
       \<lparr>oss_bucket = GetString v ''bucket'',
        oss_o = \<lparr>oss_Type = ''oss'', oss_Endpoint = oss_endpoint v, oss_AccessKeyId = GetString v ''access_key_id'',
          oss_SecretAccessKey = safeSecretKey, oss_Bucket = GetString v ''bucket'', oss_Region = GetString v ''region'',
          oss_Worker = GetInt v ''worker'', OSSMaxIdleConns = idle_conns v ''oss_max_idle_conns'',
          OSSMaxIdleConnsPerHost = idle_conns v ''oss_max_idle_conns_per_host''\<rparr>,
        oss_secret = accessKeySecret\<rparr>)
     (load_secret cx (GetString v ''secret_access_key''))"

section \<open>Listings\<close>

text \<open>
  What a loop over continuation tokens promises when its server keeps to the protocol: \<open>rest tok\<close> are
  the objects from a token on, \<open>valid\<close> the tokens the server has given out.
\<close>

definition serves ::
  "(string option \<Rightarrow> 'w \<Rightarrow> ('x + list_page) \<times> 'w) \<Rightarrow> (string option \<Rightarrow> bool) \<Rightarrow> (string option \<Rightarrow> listed list) \<Rightarrow> bool" where
  "serves page valid rest \<longleftrightarrow> (\<forall>tok w. valid tok \<longrightarrow> (\<exists>p w'. page tok w = (Inr p, w') \<and>
     (if NextToken p = None \<or> ToString (NextToken p) = [] then rest tok = Contents p
      else valid (NextToken p) \<and> Contents p \<noteq> [] \<and> rest tok = Contents p @ rest (NextToken p))))"

locale paged_listing =
  fixes loop :: "string option \<Rightarrow> 'w \<Rightarrow> 'a \<Rightarrow> ('e option \<times> 'w \<times> 'a) option"
    and page :: "string option \<Rightarrow> 'w \<Rightarrow> ('x + list_page) \<times> 'w"
    and ctx_err :: "'a \<Rightarrow> 'e option"
    and callback :: "storage_object \<Rightarrow> 'a \<Rightarrow> 'a"
  assumes loop_more: "ctx_err a = None \<Longrightarrow> page tok w = (Inr p, w') \<Longrightarrow>
      contents_loop ctx_err callback (Contents p) a = (None, a') \<Longrightarrow>
      NextToken p \<noteq> None \<Longrightarrow> ToString (NextToken p) \<noteq> [] \<Longrightarrow> loop tok w a = loop (NextToken p) w' a'"
    and loop_last: "ctx_err a = None \<Longrightarrow> page tok w = (Inr p, w') \<Longrightarrow>
      contents_loop ctx_err callback (Contents p) a = (None, a') \<Longrightarrow>
      NextToken p = None \<or> ToString (NextToken p) = [] \<Longrightarrow> loop tok w a = Some (None, w', a')"
    and loop_cancelled: "ctx_err a = Some e \<Longrightarrow> loop tok w a = Some (Some e, w, a)"
begin

lemma contents_all:
  assumes "\<And>a. ctx_err a = None"
  shows "contents_loop ctx_err callback obs a = (None, foldl (\<lambda>a ob. callback (listed_object ob) a) a obs)"
  by (induction obs arbitrary: a) (auto simp: assms)

lemma lists_all:
  assumes "serves page valid rest" "\<And>a. ctx_err a = None" "valid tok"
  shows "\<exists>w'. loop tok w a = Some (None, w', foldl (\<lambda>a ob. callback (listed_object ob) a) a (rest tok))"
  using assms(3)
proof (induction "length (rest tok)" arbitrary: tok w a rule: less_induct)
  case less
  obtain p w' where p: "page tok w = (Inr p, w')" "if NextToken p = None \<or> ToString (NextToken p) = [] then rest tok = Contents p
      else valid (NextToken p) \<and> Contents p \<noteq> [] \<and> rest tok = Contents p @ rest (NextToken p)"
    using assms(1) less.prems unfolding serves_def by blast
  note c = contents_all [OF assms(2), of "Contents p" a]
  show ?case
  proof (cases "NextToken p = None \<or> ToString (NextToken p) = []")
    case True
    then show ?thesis using loop_last [OF assms(2) p(1) c True] p(2) by simp
  next
    case False
    then have n: "valid (NextToken p)" "Contents p \<noteq> []" "rest tok = Contents p @ rest (NextToken p)" using p(2) by auto
    then have "length (rest (NextToken p)) < length (rest tok)" by simp
    from less.hyps [OF this n(1)] False loop_more [OF assms(2) p(1) c] n(3) show ?thesis by simp
  qed
qed

end

interpretation s3_listing: paged_listing "s3_list_loop lib ctx_err callback req" "\<lambda>tok. s3_list lib (req\<lparr>in_Token := tok\<rparr>)"
    ctx_err callback for lib ctx_err callback req
  by unfold_locales (auto simp: s3_list_loop.simps)

interpretation oss_listing: paged_listing "oss_list_loop lib ctx_err callback req" "\<lambda>tok. oss_list lib (req\<lparr>in_Token := tok\<rparr>)"
    ctx_err callback for lib ctx_err callback req
  by unfold_locales (auto simp: oss_list_loop.simps)

definition list_request :: "string \<Rightarrow> string \<Rightarrow> bool \<Rightarrow> list_input" where
  "list_request bucket pre recursion = \<lparr>in_Bucket = bucket, in_Prefix = pre, in_MaxKeys = 1000, in_Token = None,
     in_Delimiter = (if recursion then None else Some ''/'')\<rparr>"

lemma s3_resolve_plain:
  "\<not> has_prefix path ''s3://'' \<Longrightarrow> bucket \<noteq> [] \<Longrightarrow> s3_resolveObjectPath bucket path = Inr (path, bucket)"
  by (simp add: s3_resolveObjectPath_def)

lemma s3_resolve_url:
  assumes "bucket \<noteq> []" "CHR ''/'' \<notin> set bucket"
  shows "s3_resolveObjectPath bucket0 (''s3://'' @ bucket @ ''/'' @ key) = Inr (key, bucket)"
proof -
  have "trim_prefix (''s3://'' @ bucket @ ''/'' @ key) ''s3://'' = bucket @ CHR ''/'' # key"
    using trim_prefix_append [of "''s3://''" "bucket @ CHR ''/'' # key"] by simp
  moreover have "has_prefix (''s3://'' @ bucket @ ''/'' @ key) ''s3://''" by (rule has_prefix_append)
  ultimately show ?thesis
    using assms by (simp add: s3_resolveObjectPath_def str_cut_found)
qed

lemma oss_path_url:
  assumes "bucket \<noteq> []" "CHR ''/'' \<notin> set bucket"
  shows "oss_path bucket0 (''oss://'' @ bucket @ ''/'' @ key) = Inr (key, bucket)"
proof -
  have "trim_prefix (''oss://'' @ bucket @ ''/'' @ key) ''oss://'' = bucket @ CHR ''/'' # key"
    using trim_prefix_append [of "''oss://''" "bucket @ CHR ''/'' # key"] by simp
  moreover have "has_prefix (''oss://'' @ bucket @ ''/'' @ key) ''oss://''" by (rule has_prefix_append)
  ultimately show ?thesis
    using assms by (simp add: oss_path_def str_cut_found)
qed


text \<open>A server with three objects that gives out two at a time.\<close>

definition demo_listed :: "string \<Rightarrow> listed" where
  "demo_listed k = \<lparr>li_Key = Some k, li_LastModified = None, li_Size = Some 1, li_ETag = None, li_StorageClass = None\<rparr>"

definition demo_pages :: "list_input \<Rightarrow> nat \<Rightarrow> (unit + list_page) \<times> nat" where
  "demo_pages req w =
     (if in_Token req = None then (Inr \<lparr>Contents = [demo_listed ''a'', demo_listed ''b''], NextToken = Some ''2''\<rparr>, Suc w)
      else (Inr \<lparr>Contents = [demo_listed ''c''], NextToken = None\<rparr>, Suc w))"

definition demo_s3 :: "(nat, unit, unit) s3_lib" where
  "demo_s3 = \<lparr>s3_get = (\<lambda>_ _ w. (Inl (), w)), s3_head = (\<lambda>_ _ w. (Inl (), w)), s3_upload = (\<lambda>_ w. (None, w)),
     s3_list = demo_pages, s3_status = (\<lambda>_. None), http_date = (\<lambda>_. []), parse_date = (\<lambda>_. None)\<rparr>"

definition demo_oss :: "(nat, unit, unit) oss_lib" where
  "demo_oss = \<lparr>oss_get = (\<lambda>_ _ w. (Inl (), w)), oss_meta = (\<lambda>_ _ w. (Inl (), w)), oss_upload = (\<lambda>_ _ _ _ w. (None, w)),
     oss_list = demo_pages\<rparr>"


text \<open>
  Base 64 is no base of \<open>FormatInt\<close>, and a nil result is no object: a request that the server
  answers makes \<open>GetObject\<close> and \<open>HeadObject\<close> of the S3 store and \<open>HeadObject\<close> of the OSS store panic,
  and no call of the three ever returns an object.
\<close>

theorem Found_objects_panic:
  assumes "bucket \<noteq> []" "CHR ''/'' \<notin> set bucket" "key \<noteq> []"
  shows "(s3_get s3 bucket key w = (Inr info, w') \<longrightarrow>
      s3_GetObject s3 bucket0 (''s3://'' @ bucket @ ''/'' @ key) w = Panic) \<and>
    (s3_head s3 bucket key w = (Inr info, w') \<longrightarrow>
      s3_HeadObject s3 bucket0 (''s3://'' @ bucket @ ''/'' @ key) w = Panic) \<and>
    (oss_meta oss bucket key w = (Inr meta, w') \<longrightarrow>
      oss_HeadObject oss bucket0 (''oss://'' @ bucket @ ''/'' @ key) w = Panic) \<and>
    s3_GetObject s3 bucket0 path w \<noteq> Ret (Inr ob, w') \<and> s3_HeadObject s3 bucket0 path w \<noteq> Ret (Inr head, w') \<and>
    oss_HeadObject oss bucket0 path w \<noteq> Ret (Inr head, w')"
proof -
  have F: "s3_headers s3 i = Panic" for i by (simp add: s3_headers_def FormatInt_def)
  have G: "s3_HeadObject s3 bucket0 (''s3://'' @ bucket @ ''/'' @ key) w = Panic" if "s3_head s3 bucket key w = (Inr info, w')"
    using that assms(3) by (simp only: s3_HeadObject_def s3_resolve_url [OF assms(1,2)]) (simp add: F split: option.split)
  have H: "s3_GetObject s3 bucket0 (''s3://'' @ bucket @ ''/'' @ key) w = Panic" if "s3_get s3 bucket key w = (Inr info, w')"
    using that assms(3) by (simp only: s3_GetObject_def s3_resolve_url [OF assms(1,2)]) (simp add: F)
  have O: "oss_HeadObject oss bucket0 (''oss://'' @ bucket @ ''/'' @ key) w = Panic" if "oss_meta oss bucket key w = (Inr meta, w')"
    using that by (simp only: oss_HeadObject_def oss_path_url [OF assms(1,2)]) simp
  have N: "s3_GetObject s3 bucket0 path w \<noteq> Ret (Inr ob, w')" "s3_HeadObject s3 bucket0 path w \<noteq> Ret (Inr head, w')"
    "oss_HeadObject oss bucket0 path w \<noteq> Ret (Inr head, w')"
    by (auto simp: s3_GetObject_def s3_HeadObject_def oss_HeadObject_def F split: sum.splits prod.splits if_splits option.splits)
  show ?thesis using G H O N by blast
qed

definition demo_found :: "unit s3_output" where
  "demo_found = \<lparr>out_Body = (), out_LastModified = Some 0, out_ContentLength = Some 7, out_ETag = None, out_ContentType = None,
     out_ContentEncoding = None, out_ContentLanguage = None, out_ContentDisposition = None, out_CacheControl = None,
     out_ExpiresString = None, out_StorageClass = [], out_Metadata = []\<rparr>"

theorem Found_objects_panic_witness:
  "s3_GetObject (demo_s3\<lparr>s3_get := \<lambda>_ _ w. (Inr demo_found, w)\<rparr>) [] ''s3://bk/a'' 0 = Panic"
proof -
  let ?s3 = "demo_s3\<lparr>s3_get := \<lambda>_ _ w. (Inr demo_found, w)\<rparr>"
  have "s3_get ?s3 ''bk'' ''a'' 0 = (Inr demo_found, 0) \<longrightarrow> s3_GetObject ?s3 [] (''s3://'' @ ''bk'' @ ''/'' @ ''a'') 0 = Panic"
    by (rule Found_objects_panic [THEN conjunct1]) simp_all
  then show ?thesis by simp
qed

lemma foldl_put_header:
  "let r = foldl (s3_put_header lib hs) req names in
     put_Bucket r = put_Bucket req \<and> put_Key r = put_Key req \<and> put_Body r = put_Body req \<and> put_Metadata r = put_Metadata req \<and>
     put_ContentType r = (if ''Content-Type'' \<in> set names then Some (header_Get hs ''Content-Type'') else put_ContentType req)"
proof (induction names rule: rev_induct)
  case (snoc n names)
  then show ?case by (auto simp: s3_put_header_def Let_def split: option.split)
qed simp

text \<open>
  A path with the scheme of the store names its bucket and key, whatever the bucket of the
  client: an upload goes there with its body and metadata, in S3 with the content type of the
  headers and in OSS without any of them.
\<close>

theorem PutObject_goes_to_path:
  assumes "bucket \<noteq> []" "CHR ''/'' \<notin> set bucket" "key \<noteq> []"
  shows "oss_PutObject oss bucket0 (''oss://'' @ bucket @ ''/'' @ key) obj hs meta w =
      (case oss_upload oss bucket key meta obj w of (err, w) \<Rightarrow> (map_option Sdk err, w)) \<and>
    (\<exists>req. s3_PutObject s3 bucket0 (''s3://'' @ bucket @ ''/'' @ key) obj hs meta w =
        (case s3_upload s3 req w of (err, w) \<Rightarrow> (map_option Sdk err, w)) \<and>
      put_Bucket req = bucket \<and> put_Key req = key \<and> put_Body req = obj \<and> put_Metadata req = meta \<and>
      put_ContentType req = (if ''Content-Type'' \<in> fst ` set hs then Some (header_Get hs ''Content-Type'') else None))"
proof
  show "oss_PutObject oss bucket0 (''oss://'' @ bucket @ ''/'' @ key) obj hs meta w =
      (case oss_upload oss bucket key meta obj w of (err, w) \<Rightarrow> (map_option Sdk err, w))"
    by (simp only: oss_PutObject_def oss_path_url [OF assms(1,2)]) simp
  let ?req = "foldl (s3_put_header s3 hs)
     \<lparr>put_Bucket = bucket, put_Key = key, put_Body = obj, put_Metadata = meta, put_ContentType = None,
      put_ContentEncoding = None, put_ContentLanguage = None, put_ContentDisposition = None,
      put_CacheControl = None, put_Expires = None\<rparr> (map fst hs)"
  show "\<exists>req. s3_PutObject s3 bucket0 (''s3://'' @ bucket @ ''/'' @ key) obj hs meta w =
        (case s3_upload s3 req w of (err, w) \<Rightarrow> (map_option Sdk err, w)) \<and>
      put_Bucket req = bucket \<and> put_Key req = key \<and> put_Body req = obj \<and> put_Metadata req = meta \<and>
      put_ContentType req = (if ''Content-Type'' \<in> fst ` set hs then Some (header_Get hs ''Content-Type'') else None)"
  proof (intro exI [of _ ?req] conjI)
    show "s3_PutObject s3 bucket0 (''s3://'' @ bucket @ ''/'' @ key) obj hs meta w =
        (case s3_upload s3 ?req w of (err, w) \<Rightarrow> (map_option Sdk err, w))"
      using assms(3) by (simp only: s3_PutObject_def s3_resolve_url [OF assms(1,2)]) simp
  qed (use foldl_put_header [of s3 hs _ "map fst hs"] in \<open>auto simp: Let_def\<close>)
qed

theorem PutObject_goes_to_path_witness:
  "oss_PutObject demo_oss ''other'' ''oss://bk/a'' [1] [(''Content-Type'', [''text/html''])] [] 5 = (None, 5)"
  using PutObject_goes_to_path [of "''bk''" "''a''" demo_oss "''other''" "[1]" "[(''Content-Type'', [''text/html''])]" "[]" 5 demo_s3]
  by (simp add: demo_oss_def)

text \<open>
  A client of either store is made with the configured secret, also when the environment has a
  key and the secret is kept encrypted in its options.
\<close>

theorem NewClient_keeps_secret:
  assumes "good_crypto cx" "\<not> encrypted (GetString v ''secret_access_key'')"
  shows "(\<forall>c. s3_NewClient cx v = Ret (Inr c) \<longrightarrow> s3_secret c = GetString v ''secret_access_key'' \<and>
      UnsafeString cx (s3_SecretAccessKey (s3_o c)) = Ret (Inr (GetString v ''secret_access_key''))) \<and>
    (\<forall>c. oss_NewClient cx v = Ret (Inr c) \<longrightarrow> oss_secret c = GetString v ''secret_access_key'' \<and>
      UnsafeString cx (oss_SecretAccessKey (oss_o c)) = Ret (Inr (GetString v ''secret_access_key'')))"
proof -
  let ?p = "GetString v ''secret_access_key''"
  have L: "plain = ?p \<and> UnsafeString cx s = Ret (Inr ?p)" if "load_secret cx ?p = Ret (Inr (s, plain))" for s plain
  proof -
    from that obtain s' where s: "SetValue cx \<lparr>val_of = [], secret_of = []\<rparr> ?p = Ret (None, s')"
      by (auto simp: load_secret_def bind_run_Ret_conv split: option.splits)
    from set_value.mk_plain [OF assms this] that s show ?thesis by (auto simp: load_secret_def)
  qed
  show ?thesis
  proof (cases "load_secret cx ?p")
    case (Ret r)
    then show ?thesis using L by (cases r) (auto simp: s3_NewClient_def oss_NewClient_def)
  qed (simp add: s3_NewClient_def oss_NewClient_def)
qed

definition demo_config :: config_provider where
  "demo_config = \<lparr>GetString = (\<lambda>k. if k = ''secret_access_key'' then ''pw'' else if k = ''bucket'' then ''bk'' else []), GetInt = (\<lambda>_. 0)\<rparr>"

theorem NewClient_keeps_secret_witness:
  "\<exists>c. s3_NewClient (example_crypto ''0123456789abcdef'') demo_config = Ret (Inr c) \<and> s3_secret c = ''pw''"
proof -
  let ?cx = "example_crypto ''0123456789abcdef''"
  have p: "\<not> encrypted (GetString demo_config ''secret_access_key'')"
    by (simp add: demo_config_def encrypted_def ciphertextPrefix_def)
  have sv: "\<exists>s. SetValue ?cx \<lparr>val_of = [], secret_of = []\<rparr> ''pw'' = Ret (None, s)"
  proof -
    obtain c where "enc ?cx ''pw'' (env_secret ?cx) = Ret (Inr c)" using example_enc by blast
    then show ?thesis
      by (simp add: SetValue_def encrypted_def ciphertextPrefix_def example_crypto_def Let_def getSecret_def)
  qed
  then obtain s where s: "SetValue ?cx \<lparr>val_of = [], secret_of = []\<rparr> ''pw'' = Ret (None, s)" by blast
  have "UnsafeString ?cx s = Ret (Inr ''pw'')"
    by (rule set_value.mk_plain [OF example_crypto_good _ s]) (simp add: encrypted_def ciphertextPrefix_def)
  then have "\<exists>c. s3_NewClient ?cx demo_config = Ret (Inr c)"
    using s by (simp add: s3_NewClient_def load_secret_def demo_config_def)
  then obtain c where c: "s3_NewClient ?cx demo_config = Ret (Inr c)" by blast
  with NewClient_keeps_secret [OF example_crypto_good p, THEN conjunct1, rule_format, OF c]
  show ?thesis by (simp add: demo_config_def)
qed

end
