(* ===== verification/Local_Store.thy ===== *)
theory Local_Store
  imports Bucket_Store Paths
begin

text \<open>
  \<open>clients/storage/fs/fs.go\<close>: the store on an \<open>fs.FS\<close>. A file system is what \<open>fs.Stat\<close>, \<open>Open\<close> and
  \<open>ReadDir\<close> show of it: a tree, found by its path. \<open>fs.WalkDir\<close> is defined as the library has it, with
  the visitor of \<open>ListObject\<close> as its function.
\<close>

section \<open>Walking a tree\<close>

text \<open>A file with what \<open>Info\<close> says of it (modification time and size), a directory with the error of \<open>ReadDir\<close>.\<close>

datatype 'e node = File (node_name: string) "'e + int \<times> int" | Dir (node_name: string) "'e option" "'e node list"

fun is_Dir :: "'e node \<Rightarrow> bool" where
  "is_Dir (Dir n e cs) = True"
| "is_Dir (File n i) = False"

datatype 'e walk_err = SkipDir | Stop 'e

type_synonym ('e, 'a) visitor = "string \<Rightarrow> 'e node \<Rightarrow> 'e option \<Rightarrow> 'a \<Rightarrow> 'e walk_err option \<times> 'a"

fun walkDir :: "('e, 'a) visitor \<Rightarrow> string \<Rightarrow> 'e node \<Rightarrow> 'a \<Rightarrow> 'e walk_err option \<times> 'a"
  and walkDirs :: "('e, 'a) visitor \<Rightarrow> string \<Rightarrow> 'e node list \<Rightarrow> 'a \<Rightarrow> 'e walk_err option \<times> 'a" where
  "walkDir fn path (File n i) a = fn path (File n i) None a"
| "walkDir fn path (Dir n e cs) a =
     (case fn path (Dir n e cs) None a of
        (Some err, a) \<Rightarrow> (if err = SkipDir then None else Some err, a)
      | (None, a) \<Rightarrow>
          (case (if e = None then (None, a) else fn path (Dir n e cs) e a) of
             (Some err, a) \<Rightarrow> (if err = SkipDir then None else Some err, a)
           | (None, a) \<Rightarrow> walkDirs fn path cs a))"
| "walkDirs fn path [] a = (None, a)"
| "walkDirs fn path (c # cs) a =
     (case walkDir fn (path_Join [path, node_name c]) c a of
        (Some err, a) \<Rightarrow> (if err = SkipDir then None else Some err, a)
      | (None, a) \<Rightarrow> walkDirs fn path cs a)"

definition WalkDir ::
  "(string \<Rightarrow> 'e + 'e node) \<Rightarrow> string \<Rightarrow> ('e \<Rightarrow> 'a \<Rightarrow> 'e walk_err option \<times> 'a) \<Rightarrow> ('e, 'a) visitor \<Rightarrow> 'a \<Rightarrow> 'e option \<times> 'a" where
  "WalkDir stat root fn_err fn a =
     (case (case stat root of Inl err \<Rightarrow> fn_err err a | Inr d \<Rightarrow> walkDir fn root d a) of
        (Some (Stop err), a) \<Rightarrow> (Some err, a)
      | (_, a) \<Rightarrow> (None, a))"

section \<open>The client\<close>

record fs_options =
  Base :: string
  Type :: string

record ('f, 'e) fs_client =
  files :: 'f
  fsType :: string
  o_of :: fs_options

text \<open>The scheme of a local path; every operation starts by taking it off.\<close>

definition strip_scheme :: "string \<Rightarrow> string" where
  "strip_scheme objectPath =
     (if has_prefix objectPath ''file://'' then trim_prefix objectPath ''file://''
      else if has_prefix objectPath ''local://'' then trim_prefix objectPath ''local://''
      else objectPath)"

record 'e open_file =
  f_Stat :: "'e + file_info"
  f_Data :: bytes

definition fs_Name :: "('f, 'e) fs_client \<Rightarrow> string" where
  "fs_Name c = fsType c @ ''://'' @ Base (o_of c)"

definition fs_ReadDir ::
  "(string \<Rightarrow> 'e + 'd list) \<Rightarrow> string \<Rightarrow> 'e + 'd list" where
  "fs_ReadDir read_dir path = read_dir (strip_scheme path)"

definition fs_GetObject ::
  "(string \<Rightarrow> 'e + 'e open_file) \<Rightarrow> (int \<Rightarrow> string) \<Rightarrow> string \<Rightarrow> string \<Rightarrow> ('e + 'e open_file \<times> storage_object) run" where
  "fs_GetObject open_fs format_time typ objectPath =
     (case open_fs (strip_scheme objectPath) of
        Inl err \<Rightarrow> Ret (Inl err)
      | Inr f \<Rightarrow>
          (case f_Stat f of
             Inl err \<Rightarrow> Ret (Inl err)
           | Inr stat \<Rightarrow> map_run (\<lambda>len. Inr (f, empty_object\<lparr>LastModified := fi_modTime stat, Size := fi_size stat,
               StorageClass := typ, Mode := fi_mode stat,
               Headers := [(''Content-Length'', [len]), (''Last-Modified'', [format_time (fi_modTime stat)])]\<rparr>))
               (FormatInt (fi_size stat) 10)))"

text \<open>\<open>OpenFile\<close> is there or not; \<open>write\<close> creates or empties the file and copies.\<close>

datatype 'e put_error = NotSupported | PutFailed 'e

definition fs_PutObject ::
  "(string \<Rightarrow> bytes \<Rightarrow> 'w \<Rightarrow> 'e option \<times> 'w) option \<Rightarrow> string \<Rightarrow> bytes \<Rightarrow> 'w \<Rightarrow> 'e put_error option \<times> 'w" where
  "fs_PutObject create objectPath obj w =
     (case create of
        None \<Rightarrow> (Some NotSupported, w)
      | Some copy_to \<Rightarrow> (case copy_to (strip_scheme objectPath) obj w of (err, w) \<Rightarrow> (map_option PutFailed err, w)))"

text \<open>\<open>os.Stat\<close>, of the operating system and not of the client's file system.\<close>

definition fs_HeadObject ::
  "(string \<Rightarrow> 'e + file_info) \<Rightarrow> (int \<Rightarrow> string) \<Rightarrow> string \<Rightarrow> string \<Rightarrow> ('e + storage_object) run" where
  "fs_HeadObject os_stat format_time typ objectPath =
     (case os_stat (strip_scheme objectPath) of
        Inl err \<Rightarrow> Ret (Inl err)
      | Inr stat \<Rightarrow> map_run (\<lambda>len. Inr (empty_object\<lparr>Key := strip_scheme objectPath, LastModified := fi_modTime stat,
          Size := fi_size stat, StorageClass := typ, Mode := fi_mode stat,
          Headers := [(''Content-Length'', [len]), (''Last-Modified'', [format_time (fi_modTime stat)])]\<rparr>))
          (FormatInt (fi_size stat) 64))"

definition file_object :: "string \<Rightarrow> string \<Rightarrow> 'e + int \<times> int \<Rightarrow> storage_object" where
  "file_object typ path info =
     (let ob = empty_object\<lparr>Key := path, StorageClass := typ\<rparr>
      in case info of Inl err \<Rightarrow> ob | Inr (t, n) \<Rightarrow> ob\<lparr>LastModified := t, Size := n\<rparr>)"

definition list_visitor ::
  "string \<Rightarrow> bool \<Rightarrow> ('a \<Rightarrow> 'e option) \<Rightarrow> (storage_object \<Rightarrow> 'a \<Rightarrow> 'a) \<Rightarrow> ('e, 'a) visitor" where
  "list_visitor typ recursion ctx_err callback path d err a =
     (case err of
        Some e \<Rightarrow> (Some (Stop e), a)
      | None \<Rightarrow>
          (case d of
             Dir n e cs \<Rightarrow> if path = ''.'' then (None, a) else if \<not> recursion then (Some SkipDir, a) else (None, a)
           | File n info \<Rightarrow>
               (case ctx_err a of
                  Some e \<Rightarrow> (Some (Stop e), a)
                | None \<Rightarrow> (None, callback (file_object typ path info) a))))"

definition fs_ListObject ::
  "(string \<Rightarrow> 'e + 'e node) \<Rightarrow> string \<Rightarrow> ('a \<Rightarrow> 'e option) \<Rightarrow> (storage_object \<Rightarrow> 'a \<Rightarrow> 'a) \<Rightarrow> string \<Rightarrow> bool \<Rightarrow> 'a \<Rightarrow> 'e option \<times> 'a" where
  "fs_ListObject stat typ ctx_err callback objectPrefix recursion a =
     WalkDir stat (strip_scheme objectPrefix) (\<lambda>e a. (Some (Stop e), a)) (list_visitor typ recursion ctx_err callback) a"

text \<open>\<open>NewClient\<close>: the libraries open a zip file and make the other file systems; \<open>io_name\<close> is the name of an afero one.\<close>

record ('f, 'e) fs_makers =
  open_zip :: "string \<Rightarrow> 'e + 'f"
  mem_fs :: 'f
  os_fs :: "string \<Rightarrow> 'f"
  nil_fs :: 'f
  io_name :: "'f \<Rightarrow> string option"

definition fs_NewClient ::
  "('f, 'e) fs_makers \<Rightarrow> 'f option \<Rightarrow> config_provider option \<Rightarrow> 'e + ('f, 'e) fs_client" where
  "fs_NewClient mk fs0 v =
     (let storageType = (case v of None \<Rightarrow> [] | Some v \<Rightarrow> GetString v ''type'');
          base = (case v of None \<Rightarrow> [] | Some v \<Rightarrow> GetString v ''base'');
          fs1 = (case fs0 of
            Some f \<Rightarrow> Inr f
          | None \<Rightarrow>
              if storageType = ''zip'' then open_zip mk base
              else if storageType = ''in-memory'' \<or> storageType = ''inmemory'' then Inr (mem_fs mk)
              else if storageType = ''local'' \<or> storageType = ''file'' then Inr (os_fs mk base)
              else Inr (nil_fs mk))
      in case fs1 of
           Inl err \<Rightarrow> Inl err
         | Inr f \<Rightarrow>
             let typ = (if storageType = [] then (case io_name mk f of Some n \<Rightarrow> n | None \<Rightarrow> ''unknown'') else storageType)
             in Inr \<lparr>files = f, fsType = typ, o_of = \<lparr>Base = base, Type = typ\<rparr>\<rparr>)"

text \<open>The registrations of the three packages, in the order of their initialisation.\<close>

definition storage_types :: "string list" where
  "storage_types = [''local'', ''file'', ''zip'', ''in-memory'', ''inmemory''] @ [''oss''] @ [''s3'']"

section \<open>Listing\<close>

text \<open>The files under a node, in the order of the directories, with their paths.\<close>

fun files_under :: "string \<Rightarrow> 'e node \<Rightarrow> (string \<times> ('e + int \<times> int)) list" where
  "files_under path (File n i) = [(path, i)]"
| "files_under path (Dir n e cs) = concat (map (\<lambda>c. files_under (path_Join [path, node_name c]) c) cs)"

fun readable :: "'e node \<Rightarrow> bool" where
  "readable (File n i) = True"
| "readable (Dir n e cs) = (e = None \<and> list_all readable cs)"

definition direct_files :: "'e node list \<Rightarrow> (string \<times> ('e + int \<times> int)) list" where
  "direct_files cs = concat (map (\<lambda>c. case c of File n i \<Rightarrow> [(n, i)] | Dir n e ds \<Rightarrow> []) cs)"

definition call_all ::
  "string \<Rightarrow> (storage_object \<Rightarrow> 'a \<Rightarrow> 'a) \<Rightarrow> (string \<times> ('e + int \<times> int)) list \<Rightarrow> 'a \<Rightarrow> 'a" where
  "call_all typ callback fs a = foldl (\<lambda>a (path, info). callback (file_object typ path info) a) a fs"

lemma call_all_simps [simp]:
  "call_all typ callback [] a = a"
  "call_all typ callback ((p, i) # fs) a = call_all typ callback fs (callback (file_object typ p i) a)"
  "call_all typ callback (fs @ gs) a = call_all typ callback gs (call_all typ callback fs a)"
  by (simp_all add: call_all_def)

lemma list_visitor_simps [simp]:
  "list_visitor typ rec (\<lambda>_. None) callback path (File n i) None a = (None, callback (file_object typ path i) a)"
  "list_visitor typ rec (\<lambda>_. None) callback path (Dir n e cs) None a =
     (if path = ''.'' \<or> rec then None else Some SkipDir, a)"
  by (simp_all add: list_visitor_def)

lemma walk_recursive:
  "readable d \<Longrightarrow> walkDir (list_visitor typ True (\<lambda>_. None) callback) path d a =
     (None, call_all typ callback (files_under path d) a)"
proof (induction d arbitrary: path a)
  case (Dir n e cs)
  have "walkDirs (list_visitor typ True (\<lambda>_. None) callback) path cs a =
     (None, call_all typ callback (concat (map (\<lambda>c. files_under (path_Join [path, node_name c]) c) cs)) a)"
    if "list_all readable cs" for a
    using that Dir.IH
  proof (induction cs arbitrary: a)
    case (Cons c cs)
    have "walkDir (list_visitor typ True (\<lambda>_. None) callback) (path_Join [path, node_name c]) c a =
        (None, call_all typ callback (files_under (path_Join [path, node_name c]) c) a)" for a
      using Cons.prems by simp
    then show ?case using Cons by simp
  qed simp
  then show ?case using Dir.prems by simp
qed simp

lemma path_Join_dot:
  assumes "ordinary n" shows "path_Join [''.'', n] = n"
proof -
  have "split_on CHR ''/'' (''.'' @ ''/'' @ n) = [''.'', n]"
    using split_on_append_sep [of "CHR ''/''" "''.''" n] split_on_single [of "CHR ''/''" n] assms by (simp add: ordinary_def)
  then show ?thesis
    using assms by (simp add: path_Join_def path_Clean_def is_rooted_def clean_elems_def clean_step_def dot_def ordinary_def)
qed

lemma walk_direct:
  assumes "\<forall>c \<in> set cs. ordinary (node_name c)"
  shows "walkDirs (list_visitor typ False (\<lambda>_. None) callback) ''.'' cs a = (None, call_all typ callback (direct_files cs) a)"
  using assms
proof (induction cs arbitrary: a)
  case (Cons c cs)
  have j: "path_Join [''.'', node_name c] = node_name c" "node_name c \<noteq> ''.''"
    using Cons.prems path_Join_dot by (auto simp: ordinary_def dot_def)
  show ?case
  proof (cases c)
    case (File n i)
    then show ?thesis using Cons j by (simp add: direct_files_def)
  next
    case (Dir n e ds)
    then show ?thesis using Cons j by (simp add: direct_files_def)
  qed
qed (simp add: direct_files_def)

text \<open>
  On a tree that can be read, a recursive \<open>ListObject\<close> calls back with exactly the files under
  the path, in directory order and with their joined paths; one that is not recursive lists the
  files of the root \<open>.\<close> itself, and nothing at all of any other directory.
\<close>

theorem fs_ListObject_lists:
  assumes "stat (strip_scheme path) = Inr d" "readable d"
  shows "fs_ListObject stat typ (\<lambda>_. None) callback path True a =
      (None, call_all typ callback (files_under (strip_scheme path) d) a) \<and>
    (is_Dir d \<and> strip_scheme path \<noteq> ''.'' \<longrightarrow> fs_ListObject stat typ (\<lambda>_. None) callback path False a = (None, a)) \<and>
    (\<forall>n cs. strip_scheme path = ''.'' \<and> d = Dir n None cs \<and> (\<forall>c \<in> set cs. ordinary (node_name c)) \<longrightarrow>
      fs_ListObject stat typ (\<lambda>_. None) callback path False a = (None, call_all typ callback (direct_files cs) a))"
proof (intro conjI impI allI)
  show "fs_ListObject stat typ (\<lambda>_. None) callback path True a =
      (None, call_all typ callback (files_under (strip_scheme path) d) a)"
    using assms by (simp add: fs_ListObject_def WalkDir_def walk_recursive)
  show "fs_ListObject stat typ (\<lambda>_. None) callback path False a = (None, a)" if "is_Dir d \<and> strip_scheme path \<noteq> ''.''"
    using that assms(1) by (cases d) (simp_all add: fs_ListObject_def WalkDir_def)
  show "fs_ListObject stat typ (\<lambda>_. None) callback path False a = (None, call_all typ callback (direct_files cs) a)"
    if "strip_scheme path = ''.'' \<and> d = Dir n None cs \<and> (\<forall>c \<in> set cs. ordinary (node_name c))" for n cs
    using that assms(1) walk_direct [of cs "typ" callback a] by (simp add: fs_ListObject_def WalkDir_def)
qed

definition demo_tree :: "unit node" where
  "demo_tree = Dir ''.'' None [File ''a'' (Inr (1, 2)), Dir ''d'' None [File ''b'' (Inr (3, 4)), Dir ''e'' None []], File ''z'' (Inl ())]"

theorem fs_ListObject_lists_witness:
  "fs_ListObject (\<lambda>_. Inr demo_tree) ''file'' (\<lambda>_. None) (\<lambda>ob ks. ks @ [Key ob]) ''file://.'' True [] = (None, [''a'', ''d/b'', ''z'']) \<and>
   fs_ListObject (\<lambda>_. Inr demo_tree) ''file'' (\<lambda>_. None) (\<lambda>ob ks. ks @ [Key ob]) ''file://.'' False [] = (None, [''a'', ''z''])"
proof -
  have s: "strip_scheme ''file://.'' = ''.''" by code_simp
  have r: "readable demo_tree" by (simp add: demo_tree_def)
  have f: "files_under ''.'' demo_tree = [(''a'', Inr (1, 2)), (''d/b'', Inr (3, 4)), (''z'', Inl ())]" by code_simp
  have d: "direct_files [File ''a'' (Inr (1, 2)), Dir ''d'' None [File ''b'' (Inr (3, 4)), Dir ''e'' None []], File ''z'' (Inl ())] =
      [(''a'', Inr (1, 2)), (''z'', Inl ())]" by (simp add: direct_files_def)
  note T = fs_ListObject_lists [of "\<lambda>_. Inr demo_tree" "''file://.''" demo_tree, OF refl r, unfolded s f]
  from T [of "''file''" "\<lambda>ob ks. ks @ [Key ob]" "[]"] show ?thesis
    by (simp add: d call_all_def file_object_def Let_def demo_tree_def ordinary_def dot_def dotdot_def)
qed

lemma fs_HeadObject_panics: "os_stat (strip_scheme path) = Inr stat \<Longrightarrow> fs_HeadObject os_stat fmt typ path = Panic"
  by (simp add: fs_HeadObject_def FormatInt_def)

section \<open>Choosing a backend\<close>

lemma storage_types_distinct: "distinct storage_types"
  by (simp add: storage_types_def)

text \<open>
  The packages register their seven types without a panic, a second registration of a type
  panics, and \<open>NewClient\<close> calls the function registered for the configured type, or returns an error
  for an empty or unknown type.
\<close>

theorem Storage_registry:
  assumes "fs = map (\<lambda>t. (t, mk t)) storage_types"
  shows "RegisterAll [] fs = Ret fs \<and> (\<forall>t \<in> set storage_types. \<forall>f. RegisterStorage fs t f = Panic) \<and>
    NewStorage fs v =
      (if GetString v ''type'' = [] then Ret (Inl TypeEmpty)
       else if GetString v ''type'' \<in> set storage_types then map_run (map_sum NewFailed id) (mk (GetString v ''type'') v)
       else Ret (Inl (UnknownBackend (GetString v ''type''))))"
proof -
  have "map_of (map (\<lambda>t. (t, mk t)) ts) t = (if t \<in> set ts then Some (mk t) else None)" for ts t
    by (induction ts) auto
  then have m: "map_of fs t = (if t \<in> set storage_types then Some (mk t) else None)" for t
    unfolding assms by blast
  have "map fst fs = storage_types" by (simp add: assms o_def)
  then have "RegisterAll [] fs = Ret fs" by (simp add: RegisterAll_distinct storage_types_distinct)
  then show ?thesis
    by (auto simp: RegisterStorage_def NewStorage_def m Let_def)
qed

theorem Storage_registry_witness:
  "NewStorage (map (\<lambda>t. (t, \<lambda>v. Ret (Inr t :: unit + string))) storage_types) \<lparr>GetString = (\<lambda>_. ''oss''), GetInt = (\<lambda>_. 0)\<rparr> = Ret (Inr ''oss'')"
  using Storage_registry [OF refl, of "\<lambda>t v. Ret (Inr t :: unit + string)" "\<lparr>GetString = (\<lambda>_. ''oss''), GetInt = (\<lambda>_. 0)\<rparr>"]
  by (simp add: storage_types_def)

end
