(* ===== verification/Storage_Backends.thy ===== *)
theory Storage_Backends
  imports Local_Store
begin

text \<open>
  The three packages under \<open>clients/storage\<close> together: what each registers when it is initialised, the
  methods that all clients share, and the client that a configuration gives.
\<close>

datatype ('f, 'e) backend = S3_client s3_client | OSS_client oss_client | FS_client "('f, 'e) fs_client"

datatype 'e new_error = SecretFailed crypt_error | FileSystemFailed 'e

definition backend_Type :: "('f, 'e) backend \<Rightarrow> string" where
  "backend_Type b = (case b of S3_client c \<Rightarrow> ''s3'' | OSS_client c \<Rightarrow> ''oss'' | FS_client c \<Rightarrow> fsType c)"

definition bucket_Name :: "string \<Rightarrow> string \<Rightarrow> string" where
  "bucket_Name typ bucket = typ @ ''://'' @ bucket"

definition backend_Name :: "('f, 'e) backend \<Rightarrow> string" where
  "backend_Name b = (case b of S3_client c \<Rightarrow> bucket_Name (backend_Type b) (s3_bucket c)
     | OSS_client c \<Rightarrow> bucket_Name (backend_Type b) (oss_bucket c) | FS_client c \<Rightarrow> fs_Name c)"

section \<open>Initialisation\<close>

datatype package = Pkg_fs | Pkg_oss | Pkg_s3

type_synonym ('f, 'e) new_func = "config_provider \<Rightarrow> ('e new_error + ('f, 'e) backend) run"

definition fs_init :: "('f, 'e) fs_makers \<Rightarrow> ('f, 'e) new_func registry \<Rightarrow> ('f, 'e) new_func registry run" where
  "fs_init mk reg =
     RegisterAll reg (map (\<lambda>t. (t, \<lambda>v. Ret (map_sum FileSystemFailed FS_client (fs_NewClient mk None (Some v)))))
       [''local'', ''file'', ''zip'', ''in-memory'', ''inmemory''])"

definition oss_init :: "crypto \<Rightarrow> ('f, 'e) new_func registry \<Rightarrow> ('f, 'e) new_func registry run" where
  "oss_init cx reg = RegisterStorage reg ''oss'' (\<lambda>v. map_run (map_sum SecretFailed OSS_client) (oss_NewClient cx v))"

definition s3_init :: "crypto \<Rightarrow> ('f, 'e) new_func registry \<Rightarrow> ('f, 'e) new_func registry run" where
  "s3_init cx reg = RegisterStorage reg ''s3'' (\<lambda>v. map_run (map_sum SecretFailed S3_client) (s3_NewClient cx v))"

definition pkg_init :: "crypto \<Rightarrow> ('f, 'e) fs_makers \<Rightarrow> package \<Rightarrow> ('f, 'e) new_func registry \<Rightarrow> ('f, 'e) new_func registry run" where
  "pkg_init cx mk p = (case p of Pkg_fs \<Rightarrow> fs_init mk | Pkg_oss \<Rightarrow> oss_init cx | Pkg_s3 \<Rightarrow> s3_init cx)"

text \<open>The packages of a program are initialised one after the other.\<close>

fun init_all :: "crypto \<Rightarrow> ('f, 'e) fs_makers \<Rightarrow> package list \<Rightarrow> ('f, 'e) new_func registry \<Rightarrow> ('f, 'e) new_func registry run" where
  "init_all cx mk [] reg = Ret reg"
| "init_all cx mk (p # ps) reg = bind_run (pkg_init cx mk p reg) (\<lambda>reg. init_all cx mk ps reg)"

fun types_of :: "package \<Rightarrow> string list" where
  "types_of Pkg_fs = [''local'', ''file'', ''zip'', ''in-memory'', ''inmemory'']"
| "types_of Pkg_oss = [''oss'']"
| "types_of Pkg_s3 = [''s3'']"

definition new_func_of :: "crypto \<Rightarrow> ('f, 'e) fs_makers \<Rightarrow> package \<Rightarrow> ('f, 'e) new_func" where
  "new_func_of cx mk p = (case p of
     Pkg_fs \<Rightarrow> (\<lambda>v. Ret (map_sum FileSystemFailed FS_client (fs_NewClient mk None (Some v))))
   | Pkg_oss \<Rightarrow> (\<lambda>v. map_run (map_sum SecretFailed OSS_client) (oss_NewClient cx v))
   | Pkg_s3 \<Rightarrow> (\<lambda>v. map_run (map_sum SecretFailed S3_client) (s3_NewClient cx v)))"

definition entries :: "crypto \<Rightarrow> ('f, 'e) fs_makers \<Rightarrow> package \<Rightarrow> ('f, 'e) new_func registry" where
  "entries cx mk p = map (\<lambda>t. (t, new_func_of cx mk p)) (types_of p)"

lemma bind_run_return: "bind_run r Ret = r"
  by (cases r) simp_all

lemma pkg_init_entries: "pkg_init cx mk p reg = RegisterAll reg (entries cx mk p)"
  by (cases p) (simp_all add: pkg_init_def fs_init_def oss_init_def s3_init_def entries_def new_func_of_def bind_run_return)

lemma types_of_distinct:
  "distinct (types_of p)" and types_of_disjoint: "p \<noteq> q \<Longrightarrow> set (types_of p) \<inter> set (types_of q) = {}"
  and types_of_nonempty: "[] \<notin> set (types_of p)"
  by (cases p; cases q; simp)+

lemma fst_entries [simp]: "map fst (entries cx mk p) = types_of p"
  by (simp add: entries_def o_def)

lemma init_all_entries:
  assumes "distinct ps" "\<forall>p \<in> set ps. set (types_of p) \<inter> fst ` set reg = {}"
  shows "init_all cx mk ps reg = Ret (reg @ concat (map (entries cx mk) ps))"
  using assms
proof (induction ps arbitrary: reg)
  case (Cons p ps)
  have "pkg_init cx mk p reg = Ret (reg @ entries cx mk p)"
    using Cons.prems types_of_distinct by (simp add: pkg_init_entries RegisterAll_distinct)
  moreover have "set (types_of q) \<inter> fst ` set (reg @ entries cx mk p) = {}" if "q \<in> set ps" for q
  proof -
    have "fst ` set (entries cx mk p) = set (types_of p)" using fst_entries by (metis set_map)
    moreover have "q \<noteq> p" using Cons.prems(1) that by auto
    ultimately show ?thesis using Cons.prems(2) that types_of_disjoint [of q p] by (auto simp: image_Un Int_Un_distrib)
  qed
  ultimately show ?case using Cons.IH [of "reg @ entries cx mk p"] Cons.prems(1) by simp
qed simp

lemma map_of_const: "map_of (map (\<lambda>t. (t, x)) ts) t = (if t \<in> set ts then Some x else None)"
  by (induction ts) auto

lemma map_of_entries:
  "map_of (concat (map (entries cx mk) ps)) t =
    (case filter (\<lambda>p. t \<in> set (types_of p)) ps of [] \<Rightarrow> None | p # _ \<Rightarrow> Some (new_func_of cx mk p))"
proof (induction ps)
  case (Cons p ps)
  have "map_of (entries cx mk p) t = (if t \<in> set (types_of p) then Some (new_func_of cx mk p) else None)"
    by (simp add: entries_def map_of_const)
  with Cons show ?case by (simp add: map_add_def split: option.split)
qed simp

lemma new_func_Type:
  assumes "new_func_of cx mk p v = Ret (Inr b)" "GetString v ''type'' \<in> set (types_of p)"
  shows "backend_Type b = GetString v ''type''"
proof (cases p)
  case Pkg_fs
  then have "GetString v ''type'' \<noteq> []" using assms(2) by auto
  then show ?thesis
    using assms Pkg_fs by (auto simp: new_func_of_def fs_NewClient_def backend_Type_def Let_def split: sum.splits if_splits)
qed (use assms in \<open>auto simp: new_func_of_def backend_Type_def map_run_def bind_run_Ret_conv map_sum_Inr\<close>)

section \<open>The client of a configuration\<close>

definition all_entries :: "crypto \<Rightarrow> ('f, 'e) fs_makers \<Rightarrow> package list \<Rightarrow> ('f, 'e) new_func registry" where
  "all_entries cx mk ps = concat (map (entries cx mk) ps)"

lemma init_all_packages: "distinct ps \<Longrightarrow> init_all cx mk ps [] = Ret (all_entries cx mk ps)"
  by (simp add: init_all_entries all_entries_def)

lemma types_of_unique: "t \<in> set (types_of p) \<Longrightarrow> t \<in> set (types_of q) \<Longrightarrow> p = q"
  using types_of_disjoint [of p q] by auto

lemma NewStorage_known:
  assumes "p \<in> set ps" "GetString v ''type'' \<in> set (types_of p)"
  shows "NewStorage (all_entries cx mk ps) v = map_run (map_sum NewFailed id) (new_func_of cx mk p v)"
proof -
  obtain q qs where q: "filter (\<lambda>p. GetString v ''type'' \<in> set (types_of p)) ps = q # qs"
    using assms by (cases "filter (\<lambda>p. GetString v ''type'' \<in> set (types_of p)) ps") (auto simp: filter_empty_conv)
  then have "q \<in> set (filter (\<lambda>p. GetString v ''type'' \<in> set (types_of p)) ps)" by simp
  then have "q = p" using types_of_unique assms(2) by auto
  then show ?thesis using q assms(2) types_of_nonempty [of p] by (auto simp: NewStorage_def all_entries_def map_of_entries Let_def)
qed

lemma NewStorage_unknown:
  assumes "GetString v ''type'' \<noteq> []" "\<forall>p \<in> set ps. GetString v ''type'' \<notin> set (types_of p)"
  shows "NewStorage (all_entries cx mk ps) v = Ret (Inl (UnknownBackend (GetString v ''type'')))"
  using assms by (simp add: NewStorage_def all_entries_def map_of_entries filter_empty_conv [THEN iffD2])

lemma NewStorage_no_type: "GetString v ''type'' = [] \<Longrightarrow> NewStorage reg v = Ret (Inl TypeEmpty)"
  by (simp add: NewStorage_def)

lemma NewStorage_made:
  assumes "NewStorage (all_entries cx mk ps) v = Ret (Inr b)"
  shows "\<exists>p \<in> set ps. GetString v ''type'' \<in> set (types_of p) \<and> new_func_of cx mk p v = Ret (Inr b) \<and>
    backend_Type b = GetString v ''type''"
proof -
  obtain p where p: "p \<in> set ps" "GetString v ''type'' \<in> set (types_of p)"
    using assms NewStorage_no_type [of v "all_entries cx mk ps"] NewStorage_unknown [of v ps cx mk] by fastforce
  then have "new_func_of cx mk p v = Ret (Inr b)"
    using assms NewStorage_known [OF p, of cx mk] by (auto simp: map_run_def bind_run_Ret_conv map_sum_Inr)
  with p show ?thesis using new_func_Type by blast
qed

text \<open>
  C33: Whatever packages a program imports, and in whatever order they are initialised, none panics. A
  configuration gives a client of its type exactly through the package of that type: what is returned
  has the configured type, a type of a package that is not there is unknown, and an empty one an error.
\<close>

theorem NewStorage_of_type:
  assumes "distinct ps"
  shows "\<exists>reg. init_all cx mk ps [] = Ret reg \<and>
    (\<forall>v b. NewStorage reg v = Ret (Inr b) \<longrightarrow> backend_Type b = GetString v ''type'' \<and> (\<exists>p \<in> set ps. GetString v ''type'' \<in> set (types_of p))) \<and>
    (\<forall>v. GetString v ''type'' = [] \<longrightarrow> NewStorage reg v = Ret (Inl TypeEmpty)) \<and>
    (\<forall>v. GetString v ''type'' \<noteq> [] \<longrightarrow> (\<forall>p \<in> set ps. GetString v ''type'' \<notin> set (types_of p)) \<longrightarrow>
      NewStorage reg v = Ret (Inl (UnknownBackend (GetString v ''type'')))) \<and>
    (\<forall>v p. p \<in> set ps \<longrightarrow> GetString v ''type'' \<in> set (types_of p) \<longrightarrow>
      NewStorage reg v = map_run (map_sum NewFailed id) (new_func_of cx mk p v))"
  using init_all_packages [OF assms, of cx mk] NewStorage_known NewStorage_unknown [of _ ps cx mk]
    NewStorage_no_type NewStorage_made [of cx mk ps]
  by (intro exI [of _ "all_entries cx mk ps"]) (auto, blast+)

definition sample_makers :: "(string, unit) fs_makers" where
  "sample_makers = \<lparr>open_zip = (\<lambda>_. Inl ()), mem_fs = ''mem'', os_fs = (\<lambda>b. b), nil_fs = [], io_name = (\<lambda>_. None)\<rparr>"

lemma NewStorage_of_type_witness:
  "\<exists>reg. init_all (example_crypto []) sample_makers [Pkg_s3, Pkg_fs] [] = Ret reg \<and>
    NewStorage reg \<lparr>GetString = (\<lambda>_. ''oss''), GetInt = (\<lambda>_. 0)\<rparr> = Ret (Inl (UnknownBackend ''oss'')) \<and>
    NewStorage reg \<lparr>GetString = (\<lambda>_. ''zip''), GetInt = (\<lambda>_. 0)\<rparr> = Ret (Inl (NewFailed (FileSystemFailed ())))"
proof -
  have "distinct [Pkg_s3, Pkg_fs]" by simp
  from NewStorage_of_type [OF this, of "example_crypto []" sample_makers] obtain reg where
    reg: "init_all (example_crypto []) sample_makers [Pkg_s3, Pkg_fs] [] = Ret reg"
    and m: "\<And>v. GetString v ''type'' \<noteq> [] \<Longrightarrow> \<forall>p \<in> set [Pkg_s3, Pkg_fs]. GetString v ''type'' \<notin> set (types_of p) \<Longrightarrow>
      NewStorage reg v = Ret (Inl (UnknownBackend (GetString v ''type'')))"
    and f: "\<And>v p. p \<in> set [Pkg_s3, Pkg_fs] \<Longrightarrow> GetString v ''type'' \<in> set (types_of p) \<Longrightarrow>
      NewStorage reg v = map_run (map_sum NewFailed id) (new_func_of (example_crypto []) sample_makers p v)"
    by blast
  show ?thesis
    using reg m [of "\<lparr>GetString = (\<lambda>_. ''oss''), GetInt = (\<lambda>_. 0)\<rparr>"] f [of Pkg_fs "\<lparr>GetString = (\<lambda>_. ''zip''), GetInt = (\<lambda>_. 0)\<rparr>"]
    by (simp add: new_func_of_def fs_NewClient_def sample_makers_def)
qed

end
