(* ===== verification/Tls.thy ===== *)
theory Tls
  imports Prelude
begin

text \<open>
  \<open>clients/tls/tls.go\<close>: a TLS configuration from options. Reading files, the PEM pool and the loading of
  key pairs, and the quoting of \<open>%q\<close>, are the parameters of \<open>tls_lib\<close>.
\<close>

record tls_options =
  CAFile :: string
  CertFile :: string
  KeyFile :: string
  ServerName :: string
  InsecureSkipVerify :: bool
  MinVersion :: string

record ('p, 'c, 'e) tls_lib =
  ReadFile :: "string \<Rightarrow> 'e + bytes"
  AppendCertsFromPEM :: "bytes \<Rightarrow> 'p option"
  LoadX509KeyPair :: "string \<Rightarrow> string \<Rightarrow> 'e + 'c"
  err_text :: "'e \<Rightarrow> string"
  quote :: "string \<Rightarrow> string"

text \<open>A configuration; the client certificate is loaded again from its files at every handshake.\<close>

record 'p tls_config =
  skip_verify :: bool
  min_version :: nat
  RootCAs :: "'p option"
  server_name :: string
  GetClientCertificate :: "(string \<times> string) option"

definition Versions :: "string \<Rightarrow> nat" where
  "Versions v =
     (if v = ''TLS13'' then 772 else if v = ''TLS12'' then 771 else if v = ''TLS11'' then 770
      else if v = ''TLS10'' then 769 else 0)"

definition readCAFile :: "('p, 'c, 'e) tls_lib \<Rightarrow> string \<Rightarrow> string + bytes" where
  "readCAFile lib f = (case ReadFile lib f of
     Inl err \<Rightarrow> Inl (''unable to load specified CA cert '' @ f @ '': '' @ err_text lib err)
   | Inr data \<Rightarrow> Inr data)"

definition updateRootCA :: "('p, 'c, 'e) tls_lib \<Rightarrow> 'p tls_config \<Rightarrow> bytes \<Rightarrow> bool \<times> 'p tls_config" where
  "updateRootCA lib cfg b = (case AppendCertsFromPEM lib b of
     None \<Rightarrow> (False, cfg)
   | Some caCertPool \<Rightarrow> (True, cfg\<lparr>RootCAs := Some caCertPool\<rparr>))"

definition getClientCertificate :: "('p, 'c, 'e) tls_lib \<Rightarrow> tls_options \<Rightarrow> string + 'c" where
  "getClientCertificate lib c = (case LoadX509KeyPair lib (CertFile c) (KeyFile c) of
     Inl err \<Rightarrow> Inl (''unable to use specified client cert ('' @ CertFile c @ '') & key ('' @ KeyFile c @ ''): '' @ err_text lib err)
   | Inr cert \<Rightarrow> Inr cert)"

definition empty_tls :: "'p tls_config" where
  "empty_tls = \<lparr>skip_verify = False, min_version = 0, RootCAs = None, server_name = [], GetClientCertificate = None\<rparr>"

definition NewTLSConfig :: "('p, 'c, 'e) tls_lib \<Rightarrow> tls_options option \<Rightarrow> string + 'p tls_config" where
  "NewTLSConfig lib cfg0 =
     (case cfg0 of
        None \<Rightarrow> Inr empty_tls
      | Some cfg \<Rightarrow>
          let tlsConfig = empty_tls\<lparr>skip_verify := InsecureSkipVerify cfg, min_version := Versions (MinVersion cfg)\<rparr>;
              ca = (if length (CAFile cfg) > 0 then
                      (case readCAFile lib (CAFile cfg) of
                         Inl err \<Rightarrow> Inl err
                       | Inr b \<Rightarrow> (case updateRootCA lib tlsConfig b of
                           (False, _) \<Rightarrow> Inl (''unable to use specified CA cert '' @ CAFile cfg)
                         | (True, tlsConfig) \<Rightarrow> Inr tlsConfig))
                    else Inr tlsConfig)
          in (case ca of
                Inl err \<Rightarrow> Inl err
              | Inr tlsConfig \<Rightarrow>
                  let tlsConfig = (if length (ServerName cfg) > 0 then tlsConfig\<lparr>server_name := ServerName cfg\<rparr> else tlsConfig)
                  in if length (CertFile cfg) > 0 \<and> length (KeyFile cfg) = 0 then
                       Inl (''client cert file '' @ quote lib (CertFile cfg) @ '' specified without client key file'')
                     else if length (KeyFile cfg) > 0 \<and> length (CertFile cfg) = 0 then
                       Inl (''client key file '' @ quote lib (KeyFile cfg) @ '' specified without client cert file'')
                     else if length (CertFile cfg) > 0 \<and> length (KeyFile cfg) > 0 then
                       (case getClientCertificate lib cfg of
                          Inl err \<Rightarrow> Inl err
                        | Inr _ \<Rightarrow> Inr (tlsConfig\<lparr>GetClientCertificate := Some (CertFile cfg, KeyFile cfg)\<rparr>))
                     else Inr tlsConfig))"

text \<open>When options are usable: the named files can be read, and certificate and key come together.\<close>

definition usable :: "('p, 'c, 'e) tls_lib \<Rightarrow> tls_options \<Rightarrow> bool" where
  "usable lib cfg \<longleftrightarrow>
     (CAFile cfg \<noteq> [] \<longrightarrow> (\<exists>b p. ReadFile lib (CAFile cfg) = Inr b \<and> AppendCertsFromPEM lib b = Some p)) \<and>
     (CertFile cfg = [] \<longleftrightarrow> KeyFile cfg = []) \<and>
     (CertFile cfg \<noteq> [] \<longrightarrow> (\<exists>c. LoadX509KeyPair lib (CertFile cfg) (KeyFile cfg) = Inr c))"



text \<open>A minimum version that is no key of the table is the zero value, the default of the library.\<close>

lemma NewTLSConfig_unknown_version:
  assumes "NewTLSConfig lib (Some cfg) = Inr t" "MinVersion cfg \<notin> {''TLS13'', ''TLS12'', ''TLS11'', ''TLS10''}"
  shows "min_version t = 0"
  using assms by (auto simp: NewTLSConfig_def Versions_def updateRootCA_def empty_tls_def Let_def
      split: sum.splits option.splits if_splits prod.splits bool.splits)

end
