(* ===== verification/Gorm_Options.thy ===== *)
theory Gorm_Options
  imports Safe_String Signals Tls
begin

text \<open>
  The options of \<open>clients/gorm\<close>: MySQL with its TLS options (\<open>gorm_mysql.go\<close>), Clickhouse with its data
  source name (\<open>gorm_clickhouse.go\<close>) and SQLite (\<open>gorm_sqlite.go\<close>), and the interface \<open>DBOptions\<close> they
  share (\<open>gorm.go\<close>). The text of a \<open>model.Duration\<close>, the JSON decoders and the registry of the MySQL
  driver are parameters; \<open>url.URL.String\<close> and its escaping are those of the standard library.
\<close>

section \<open>Escaping in URLs\<close>

datatype url_part = HostPart | PathPart | UserPart

definition is_alnum :: "char \<Rightarrow> bool" where
  "is_alnum c = (let n = of_char c :: nat in 97 \<le> n \<and> n \<le> 122 \<or> 65 \<le> n \<and> n \<le> 90 \<or> 48 \<le> n \<and> n \<le> 57)"

definition shouldEscape :: "url_part \<Rightarrow> char \<Rightarrow> bool" where
  "shouldEscape m c =
     (if is_alnum c then False
      else if m = HostPart \<and> c \<in> set (''!$&()*+,;=:[]<>'' @ [CHR 0x27, CHR 0x22]) then False
      else if c \<in> set ''-_.~'' then False
      else if c \<in> set ''$&+,/:;=?@'' then
        (case m of HostPart \<Rightarrow> True | PathPart \<Rightarrow> c = CHR ''?'' | UserPart \<Rightarrow> c \<in> set ''@/?:'')
      else True)"

definition escape_char :: "url_part \<Rightarrow> char \<Rightarrow> string" where
  "escape_char m c = (if shouldEscape m c then CHR ''%'' # to_upper (hex_byte (word_of_nat (of_char c))) else [c])"

definition url_escape :: "url_part \<Rightarrow> string \<Rightarrow> string" where
  "url_escape m s = concat (map (escape_char m) s)"

text \<open>\<open>URL.String\<close> with a scheme, a user with a password, a path that begins with a slash, and no query.\<close>

definition url_String :: "string \<Rightarrow> string \<Rightarrow> string \<Rightarrow> string \<Rightarrow> string \<Rightarrow> string" where
  "url_String scheme user passwd host path =
     scheme @ ''://'' @ url_escape UserPart user @ '':'' @ url_escape UserPart passwd @ ''@'' @
     url_escape HostPart host @ url_escape PathPart path"

section \<open>Data\<close>

record mysql_tls =
  tls_opts :: "tls_options option"
  tls_name :: string

record mysql_options =
  mHost :: string
  mUsername :: string
  mPassword :: safe_string
  mSchema :: string
  mMaxIdle :: int
  mMaxOpen :: int
  mMaxLifeTime :: "int option"
  mCharset :: string
  mCollation :: string
  mTablePrefix :: string
  mSlowThreshold :: "int option"
  mTLSConfig :: "mysql_tls option"
  mCompression :: bool

record clickhouse_options =
  cHost :: string
  cUsername :: string
  cPassword :: safe_string
  cSchema :: string
  cMaxIdle :: int
  cMaxOpen :: int
  cMaxLifeTime :: "int option"
  cTablePrefix :: string
  cSlowThreshold :: "int option"
  cDialTimeout :: "int option"
  cReadTimeout :: "int option"
  cMaxExecutionTime :: "int option"

text \<open>The threshold is a protobuf duration: seconds and nanoseconds.\<close>

record sqlite_options =
  sPath :: string
  sTablePrefix :: string
  sSlowThreshold :: "(int \<times> int) option"

definition empty_password :: safe_string where
  "empty_password = \<lparr>val_of = [], secret_of = []\<rparr>"

definition second :: int where "second = 1000000000"

definition NewMySQLOptions :: mysql_options where
  "NewMySQLOptions = \<lparr>mHost = ''localhost'', mUsername = ''idas'', mPassword = empty_password, mSchema = ''idas'',
     mMaxIdle = 2, mMaxOpen = 100, mMaxLifeTime = Some (30 * second), mCharset = ''utf8'', mCollation = ''utf8_general_ci'',
     mTablePrefix = ''t_'', mSlowThreshold = None, mTLSConfig = None, mCompression = False\<rparr>"

definition NewClickhouseOptions :: clickhouse_options where
  "NewClickhouseOptions = \<lparr>cHost = ''localhost'', cUsername = ''idas'', cPassword = empty_password, cSchema = ''idas'',
     cMaxIdle = 2, cMaxOpen = 100, cMaxLifeTime = Some (30 * second), cTablePrefix = ''t_'', cSlowThreshold = None,
     cDialTimeout = None, cReadTimeout = None, cMaxExecutionTime = None\<rparr>"

definition NewSQLiteOptions :: sqlite_options where
  "NewSQLiteOptions = \<lparr>sPath = ''data.db'', sTablePrefix = ''t_'', sSlowThreshold = None\<rparr>"

text \<open>\<open>GetStdMaxConnectionLifeTime\<close>, of a pointer that may be nil.\<close>

definition mysql_LifeTime :: "mysql_options option \<Rightarrow> int" where
  "mysql_LifeTime x = (case x of Some o' \<Rightarrow> (case mMaxLifeTime o' of Some d \<Rightarrow> d | None \<Rightarrow> second * 30) | None \<Rightarrow> second * 30)"

definition clickhouse_LifeTime :: "clickhouse_options option \<Rightarrow> int" where
  "clickhouse_LifeTime x = (case x of Some o' \<Rightarrow> (case cMaxLifeTime o' of Some d \<Rightarrow> d | None \<Rightarrow> second * 30) | None \<Rightarrow> second * 30)"

section \<open>TLS options of MySQL\<close>

text \<open>The fields are not exported, so the text is the name or the JSON of the options.\<close>

definition gtls_MarshalJSON :: "(tls_options \<Rightarrow> 'e + string) \<Rightarrow> mysql_tls \<Rightarrow> 'e + string" where
  "gtls_MarshalJSON marshal o' = (case tls_opts o' of None \<Rightarrow> Inr (tls_name o') | Some t \<Rightarrow> marshal t)"

record ('e, 'p, 'c, 'te, 'w) tls_env =
  decode_name :: "string \<Rightarrow> string \<Rightarrow> 'e option \<times> string"
  decode_opts :: "string \<Rightarrow> tls_options \<Rightarrow> 'e option \<times> tls_options"
  NewId' :: "'w \<Rightarrow> string \<times> 'w"
  tlib :: "('p, 'c, 'te) tls_lib"
  tls_error :: "string \<Rightarrow> 'e"
  RegisterTLSConfig :: "string \<Rightarrow> 'p tls_config \<Rightarrow> 'w \<Rightarrow> 'e option \<times> 'w"

definition empty_tls_options :: tls_options where
  "empty_tls_options = \<lparr>CAFile = [], CertFile = [], KeyFile = [], ServerName = [], InsecureSkipVerify = False, MinVersion = []\<rparr>"

definition gtls_UnmarshalJSON ::
  "('e, 'p, 'c, 'te, 'w) tls_env \<Rightarrow> string \<Rightarrow> mysql_tls \<Rightarrow> 'w \<Rightarrow> 'e option \<times> mysql_tls \<times> 'w" where
  "gtls_UnmarshalJSON env data o0 w =
     (case decode_name env data (tls_name o0) of
        (None, n) \<Rightarrow> (None, o0\<lparr>tls_name := n\<rparr>, w)
      | (Some _, n) \<Rightarrow>
          let o1 = o0\<lparr>tls_name := n\<rparr>;
              t0 = (case tls_opts o1 of None \<Rightarrow> empty_tls_options | Some t \<Rightarrow> t)
          in (case decode_opts env data t0 of
                (Some err, t) \<Rightarrow> (Some err, o1\<lparr>tls_opts := Some t\<rparr>, w)
              | (None, t) \<Rightarrow>
                  (case NewId' env w of (i, w) \<Rightarrow>
                     let o2 = o1\<lparr>tls_opts := Some t, tls_name := i\<rparr>
                     in (case NewTLSConfig (tlib env) (Some t) of
                           Inl err \<Rightarrow> (Some (tls_error env err), o2, w)
                         | Inr cfg \<Rightarrow> (case RegisterTLSConfig env i cfg w of (err, w) \<Rightarrow> (err, o2, w))))))"

text \<open>\<open>TLSOptions.Equal\<close> of two pointers: a nil one against one that is not is a nil dereference.\<close>

definition gtls_Equal :: "mysql_tls option \<Rightarrow> mysql_tls option \<Rightarrow> bool run" where
  "gtls_Equal a b =
     (case (a, b) of
        (None, None) \<Rightarrow> Ret True
      | (None, Some _) \<Rightarrow> Panic
      | (Some x, None) \<Rightarrow> if tls_opts x = None then Panic else Ret False
      | (Some x, Some y) \<Rightarrow> Ret (tls_opts x = None \<and> tls_opts y = None \<or> tls_opts x = tls_opts y))"

section \<open>Comparisons\<close>

definition durationEqual :: "(int \<Rightarrow> string) \<Rightarrow> int option \<Rightarrow> int option \<Rightarrow> bool" where
  "durationEqual dur_String d1 d2 =
     (case (d1, d2) of
        (None, None) \<Rightarrow> True
      | (Some a, Some b) \<Rightarrow> dur_String a = dur_String b
      | _ \<Rightarrow> False)"

definition mysql_Equal :: "crypto \<Rightarrow> (int \<Rightarrow> string) \<Rightarrow> mysql_options \<Rightarrow> mysql_options \<Rightarrow> bool run" where
  "mysql_Equal cx ds x y =
     (if mHost x \<noteq> mHost y \<or> mUsername x \<noteq> mUsername y then Ret False
      else bind_run (str_Equal cx (mPassword x) (mPassword y)) (\<lambda>same.
        if \<not> same \<or> mSchema x \<noteq> mSchema y \<or> mMaxIdle x \<noteq> mMaxIdle y \<or> mMaxOpen x \<noteq> mMaxOpen y \<or>
          \<not> durationEqual ds (mMaxLifeTime x) (mMaxLifeTime y) \<or> mCharset x \<noteq> mCharset y \<or>
          mCollation x \<noteq> mCollation y \<or> mTablePrefix x \<noteq> mTablePrefix y \<or>
          \<not> durationEqual ds (mSlowThreshold x) (mSlowThreshold y) then Ret False
        else gtls_Equal (mTLSConfig x) (mTLSConfig x)))"

definition clickhouse_Equal :: "crypto \<Rightarrow> (int \<Rightarrow> string) \<Rightarrow> clickhouse_options \<Rightarrow> clickhouse_options \<Rightarrow> bool run" where
  "clickhouse_Equal cx ds x y =
     (if cHost x \<noteq> cHost y \<or> cUsername x \<noteq> cUsername y then Ret False
      else map_run (\<lambda>same. same \<and> cSchema x = cSchema y \<and> cMaxIdle x = cMaxIdle y \<and> cMaxOpen x = cMaxOpen y \<and>
          durationEqual ds (cMaxLifeTime x) (cMaxLifeTime y) \<and> cTablePrefix x = cTablePrefix y \<and>
          durationEqual ds (cSlowThreshold x) (cSlowThreshold y) \<and> durationEqual ds (cDialTimeout x) (cDialTimeout y) \<and>
          durationEqual ds (cReadTimeout x) (cReadTimeout y) \<and> durationEqual ds (cMaxExecutionTime x) (cMaxExecutionTime y))
        (str_Equal cx (cPassword x) (cPassword y)))"

section \<open>The interface\<close>

definition host_peer :: "int \<Rightarrow> string \<Rightarrow> string \<times> int" where
  "host_peer default_port h =
     (case str_cut (CHR '':'') h of (host, port, found) \<Rightarrow>
        if found \<and> port \<noteq> [] then
          (case parse_int 64 port of (None, portNum) \<Rightarrow> (host, portNum) | (Some _, _) \<Rightarrow> (h, default_port))
        else (h, default_port))"

definition mysql_GetPeer :: "mysql_options \<Rightarrow> string \<times> int" where
  "mysql_GetPeer x = host_peer 3306 (mHost x)"
definition mysql_GetConnectionString :: "mysql_options \<Rightarrow> string" where
  "mysql_GetConnectionString x = ''mysql://'' @ mHost x"
definition mysql_GetType :: "mysql_options \<Rightarrow> string" where
  "mysql_GetType x = ''mysql''"
definition mysql_String :: "mysql_options \<Rightarrow> string" where
  "mysql_String x = mysql_GetType x @ ''://'' @ mUsername x @ ''@'' @ mHost x @ ''/'' @ mSchema x"

definition clickhouse_GetPeer :: "clickhouse_options \<Rightarrow> string \<times> int" where
  "clickhouse_GetPeer x = host_peer 9000 (cHost x)"
definition clickhouse_GetConnectionString :: "clickhouse_options \<Rightarrow> string" where
  "clickhouse_GetConnectionString x = ''clickhouse://'' @ cHost x"
definition clickhouse_GetType :: "clickhouse_options \<Rightarrow> string" where
  "clickhouse_GetType x = ''clickhouse''"
definition clickhouse_String :: "clickhouse_options \<Rightarrow> string" where
  "clickhouse_String x = clickhouse_GetType x @ ''://'' @ cUsername x @ ''@'' @ cHost x @ ''/'' @ cSchema x"

definition sqlite_GetPeer :: "sqlite_options \<Rightarrow> string \<times> int" where
  "sqlite_GetPeer x = (sPath x, 0)"
definition sqlite_GetConnectionString :: "sqlite_options \<Rightarrow> string" where
  "sqlite_GetConnectionString x = ''sqlite://'' @ sPath x"
definition sqlite_GetType :: "sqlite_options \<Rightarrow> string" where
  "sqlite_GetType x = ''sqlite''"
definition sqlite_String :: "sqlite_options \<Rightarrow> string" where
  "sqlite_String x = sqlite_GetConnectionString x"

text \<open>A value of the interface \<open>DBOptions\<close>, and the methods it dispatches.\<close>

datatype db_options = MySQL mysql_options | Clickhouse clickhouse_options | SQLite sqlite_options

fun db_GetPeer :: "db_options \<Rightarrow> string \<times> int" where
  "db_GetPeer (MySQL x) = mysql_GetPeer x"
| "db_GetPeer (Clickhouse x) = clickhouse_GetPeer x"
| "db_GetPeer (SQLite x) = sqlite_GetPeer x"

fun db_GetConnectionString :: "db_options \<Rightarrow> string" where
  "db_GetConnectionString (MySQL x) = mysql_GetConnectionString x"
| "db_GetConnectionString (Clickhouse x) = clickhouse_GetConnectionString x"
| "db_GetConnectionString (SQLite x) = sqlite_GetConnectionString x"

fun db_GetDBName :: "db_options \<Rightarrow> string" where
  "db_GetDBName (MySQL x) = mSchema x"
| "db_GetDBName (Clickhouse x) = cSchema x"
| "db_GetDBName (SQLite x) = ''main''"

fun db_GetUsername :: "db_options \<Rightarrow> string" where
  "db_GetUsername (MySQL x) = mUsername x"
| "db_GetUsername (Clickhouse x) = cUsername x"
| "db_GetUsername (SQLite x) = []"

fun db_GetType :: "db_options \<Rightarrow> string" where
  "db_GetType (MySQL x) = mysql_GetType x"
| "db_GetType (Clickhouse x) = clickhouse_GetType x"
| "db_GetType (SQLite x) = sqlite_GetType x"

fun db_String :: "db_options \<Rightarrow> string" where
  "db_String (MySQL x) = mysql_String x"
| "db_String (Clickhouse x) = clickhouse_String x"
| "db_String (SQLite x) = sqlite_String x"

section \<open>The data source name\<close>

text \<open>
  \<open>GetDSN\<close>: the query values are a nil map, so \<open>Set\<close> panics on the first timeout that is configured.
\<close>

definition GetDSN :: "crypto \<Rightarrow> clickhouse_options \<Rightarrow> (crypt_error + string) run" where
  "GetDSN cx x =
     bind_run (UnsafeString cx (cPassword x)) (\<lambda>r. case r of
       Inl err \<Rightarrow> Ret (Inl err)
     | Inr passwd \<Rightarrow>
         if cDialTimeout x \<noteq> None \<or> cReadTimeout x \<noteq> None \<or> cMaxExecutionTime x \<noteq> None then Panic
         else Ret (Inr (url_String ''clickhouse'' (cUsername x) passwd (cHost x) (''/'' @ cSchema x))))"

section \<open>The data source name can be read back\<close>

text \<open>What a reader of the name undoes: the escapes, and the separators of the parts.\<close>

fun url_unescape :: "string \<Rightarrow> string option" where
  "url_unescape [] = Some []"
| "url_unescape (c # s) =
     (if c \<noteq> CHR ''%'' then map_option (Cons c) (url_unescape s)
      else (case s of
        a # b # s' \<Rightarrow>
          (case (hex_val a, hex_val b) of
             (Some x, Some y) \<Rightarrow> map_option (Cons (char_of (x * 16 + y))) (url_unescape s')
           | _ \<Rightarrow> None)
      | _ \<Rightarrow> None))"

definition read_DSN :: "string \<Rightarrow> string option list" where
  "read_DSN s =
     (case str_cut (CHR '':'') (drop (length ''clickhouse://'') s) of (user, s, _) \<Rightarrow>
      case str_cut (CHR ''@'') s of (passwd, s, _) \<Rightarrow>
      case str_cut (CHR ''/'') s of (host, db, _) \<Rightarrow>
        map url_unescape [user, passwd, host, db])"

lemma hex_digit:
  assumes "i < 16"
  shows "hex_val (upper_char (hex_table ! i)) = Some i" "is_alnum (upper_char (hex_table ! i))"
proof -
  have "list_all (\<lambda>i. hex_val (upper_char (hex_table ! i)) = Some i \<and> is_alnum (upper_char (hex_table ! i))) [0..<16]"
    by code_simp
  with assms show "hex_val (upper_char (hex_table ! i)) = Some i" "is_alnum (upper_char (hex_table ! i))"
    by (simp_all add: list_all_iff)
qed

lemma escape_char_cases:
  obtains "\<not> shouldEscape m c" "escape_char m c = [c]"
  | a b where "escape_char m c = [CHR ''%'', a, b]" "is_alnum a" "is_alnum b"
      "hex_val a = Some (of_char c div 16)" "hex_val b = Some (of_char c mod 16)"
proof (cases "shouldEscape m c")
  case True
  have n: "(of_char c :: nat) div 16 < 16" "(of_char c :: nat) mod 16 < 16"
    by (simp_all add: less_mult_imp_div_less)
  have "escape_char m c = [CHR ''%'', upper_char (hex_table ! (of_char c div 16)), upper_char (hex_table ! (of_char c mod 16))]"
    using True by (simp add: escape_char_def to_upper_def hex_byte_def)
  with that(2) hex_digit [OF n(1)] hex_digit [OF n(2)] show thesis by blast
qed (use that(1) in \<open>simp add: escape_char_def\<close>)

lemma percent_escaped: "shouldEscape m (CHR ''%'')"
  by (simp add: shouldEscape_def is_alnum_def Let_def)

lemma unescape_escape [simp]: "url_unescape (url_escape m s) = Some s"
proof (induction s)
  case (Cons c s)
  show ?case
  proof (rule escape_char_cases [of m c])
    assume "\<not> shouldEscape m c" "escape_char m c = [c]"
    then show ?thesis
      using Cons percent_escaped by (auto simp: url_escape_def)
  next
    fix a b
    assume "escape_char m c = [CHR ''%'', a, b]" "hex_val a = Some (of_char c div 16)" "hex_val b = Some (of_char c mod 16)"
    moreover have "char_of ((of_char c :: nat) div 16 * 16 + of_char c mod 16) = c"
      by (simp only: div_mult_mod_eq char_of_char)
    ultimately show ?thesis using Cons by (simp add: url_escape_def)
  qed
qed (simp add: url_escape_def)

lemma separator_escaped:
  assumes "shouldEscape m c" "c \<noteq> CHR ''%''"
  shows "c \<notin> set (url_escape m s)"
proof -
  have "\<not> is_alnum c" using assms(1) by (auto simp: shouldEscape_def)
  then have "c \<notin> set (escape_char m d)" for d
    using assms by (cases rule: escape_char_cases [of m d]) auto
  then show ?thesis by (simp add: url_escape_def)
qed

lemma url_escape_path: "url_escape PathPart (CHR ''/'' # s) = CHR ''/'' # url_escape PathPart s"
  by (simp add: url_escape_def escape_char_def shouldEscape_def is_alnum_def Let_def)

lemma user_separators: "CHR '':'' \<notin> set (url_escape UserPart s)" "CHR ''@'' \<notin> set (url_escape UserPart s)"
  by (rule separator_escaped; simp add: shouldEscape_def is_alnum_def Let_def)+

lemma host_separator: "CHR ''/'' \<notin> set (url_escape HostPart s)"
  by (rule separator_escaped; simp add: shouldEscape_def is_alnum_def Let_def)

text \<open>
  Without timeouts the data source name gives back the user, the clear password, the host and the
  schema, whatever characters they have; with any of the three timeouts \<open>GetDSN\<close> panics.
\<close>

theorem GetDSN_reads_back:
  assumes "UnsafeString cx (cPassword x) = Ret (Inr passwd)"
  shows "if cDialTimeout x = None \<and> cReadTimeout x = None \<and> cMaxExecutionTime x = None
    then \<exists>dsn. GetDSN cx x = Ret (Inr dsn) \<and>
      read_DSN dsn = [Some (cUsername x), Some passwd, Some (cHost x), Some (cSchema x)]
    else GetDSN cx x = Panic"
proof -
  let ?dsn = "url_String ''clickhouse'' (cUsername x) passwd (cHost x) (''/'' @ cSchema x)"
  have "drop (length ''clickhouse://'') ?dsn = url_escape UserPart (cUsername x) @ CHR '':'' # url_escape UserPart passwd @
      CHR ''@'' # url_escape HostPart (cHost x) @ CHR ''/'' # url_escape PathPart (cSchema x)"
    by (simp add: url_String_def url_escape_path)
  then have "read_DSN ?dsn = [Some (cUsername x), Some passwd, Some (cHost x), Some (cSchema x)]"
    unfolding read_DSN_def by (simp add: str_cut_found user_separators host_separator)
  then show ?thesis using assms by (simp add: GetDSN_def)
qed

lemma GetDSN_reads_back_witness:
  "GetDSN (example_crypto []) (NewClickhouseOptions\<lparr>cPassword := \<lparr>val_of = ''p@:/%'', secret_of = []\<rparr>, cDialTimeout := Some 5\<rparr>) = Panic \<and>
   (\<exists>dsn. GetDSN (example_crypto []) (NewClickhouseOptions\<lparr>cPassword := \<lparr>val_of = ''p@:/%'', secret_of = []\<rparr>\<rparr>) = Ret (Inr dsn) \<and>
     read_DSN dsn = [Some ''idas'', Some ''p@:/%'', Some ''localhost'', Some ''idas''])"
proof -
  have "UnsafeString (example_crypto []) \<lparr>val_of = ''p@:/%'', secret_of = []\<rparr> = Ret (Inr ''p@:/%'')"
    by (simp add: UnsafeString_def encrypted_def ciphertextPrefix_def)
  with GetDSN_reads_back [of "example_crypto []" "NewClickhouseOptions\<lparr>cPassword := \<lparr>val_of = ''p@:/%'', secret_of = []\<rparr>, cDialTimeout := Some 5\<rparr>" "''p@:/%''"]
    GetDSN_reads_back [of "example_crypto []" "NewClickhouseOptions\<lparr>cPassword := \<lparr>val_of = ''p@:/%'', secret_of = []\<rparr>\<rparr>" "''p@:/%''"]
  show ?thesis by (simp add: NewClickhouseOptions_def)
qed

section \<open>Equality\<close>

text \<open>
  Two options are equal when their clear passwords and the other fields are, a duration by its text;
  the MySQL comparison ignores the TLS options, which it compares with themselves, and the compression.
\<close>

theorem Equal_compares:
  assumes "UnsafeString cx (mPassword x) = Ret (Inr p)" "UnsafeString cx (mPassword y) = Ret (Inr q)"
    and "UnsafeString cx (cPassword a) = Ret (Inr p)" "UnsafeString cx (cPassword b) = Ret (Inr q)"
  shows "mysql_Equal cx ds x y = Ret (p = q \<and> map_option ds (mMaxLifeTime x) = map_option ds (mMaxLifeTime y) \<and>
      map_option ds (mSlowThreshold x) = map_option ds (mSlowThreshold y) \<and>
      x\<lparr>mPassword := mPassword y, mMaxLifeTime := mMaxLifeTime y, mSlowThreshold := mSlowThreshold y,
        mTLSConfig := mTLSConfig y, mCompression := mCompression y\<rparr> = y) \<and>
    clickhouse_Equal cx ds a b = Ret (p = q \<and> map_option ds (cMaxLifeTime a) = map_option ds (cMaxLifeTime b) \<and>
      map_option ds (cSlowThreshold a) = map_option ds (cSlowThreshold b) \<and> map_option ds (cDialTimeout a) = map_option ds (cDialTimeout b) \<and>
      map_option ds (cReadTimeout a) = map_option ds (cReadTimeout b) \<and>
      map_option ds (cMaxExecutionTime a) = map_option ds (cMaxExecutionTime b) \<and>
      a\<lparr>cPassword := cPassword b, cMaxLifeTime := cMaxLifeTime b, cSlowThreshold := cSlowThreshold b, cDialTimeout := cDialTimeout b,
        cReadTimeout := cReadTimeout b, cMaxExecutionTime := cMaxExecutionTime b\<rparr> = b)"
proof -
  have d: "durationEqual ds u v \<longleftrightarrow> map_option ds u = map_option ds v" for u v
    by (auto simp: durationEqual_def split: option.splits)
  have t: "gtls_Equal u u = Ret True" for u
    by (auto simp: gtls_Equal_def split: option.splits)
  have "mysql_Equal cx ds x y = Ret (p = q \<and> map_option ds (mMaxLifeTime x) = map_option ds (mMaxLifeTime y) \<and>
      map_option ds (mSlowThreshold x) = map_option ds (mSlowThreshold y) \<and>
      x\<lparr>mPassword := mPassword y, mMaxLifeTime := mMaxLifeTime y, mSlowThreshold := mSlowThreshold y,
        mTLSConfig := mTLSConfig y, mCompression := mCompression y\<rparr> = y)"
    using assms(1,2) by (cases x, cases y) (auto simp: mysql_Equal_def str_Equal_def d t)
  moreover have "clickhouse_Equal cx ds a b = Ret (p = q \<and> map_option ds (cMaxLifeTime a) = map_option ds (cMaxLifeTime b) \<and>
      map_option ds (cSlowThreshold a) = map_option ds (cSlowThreshold b) \<and> map_option ds (cDialTimeout a) = map_option ds (cDialTimeout b) \<and>
      map_option ds (cReadTimeout a) = map_option ds (cReadTimeout b) \<and>
      map_option ds (cMaxExecutionTime a) = map_option ds (cMaxExecutionTime b) \<and>
      a\<lparr>cPassword := cPassword b, cMaxLifeTime := cMaxLifeTime b, cSlowThreshold := cSlowThreshold b, cDialTimeout := cDialTimeout b,
        cReadTimeout := cReadTimeout b, cMaxExecutionTime := cMaxExecutionTime b\<rparr> = b)"
    using assms(3,4) by (cases a, cases b) (auto simp: clickhouse_Equal_def str_Equal_def d)
  ultimately show ?thesis by blast
qed

lemma Equal_compares_witness:
  "mysql_Equal (example_crypto []) itoa NewMySQLOptions (NewMySQLOptions\<lparr>mCompression := True, mTLSConfig := Some \<lparr>tls_opts = None, tls_name = ''t''\<rparr>\<rparr>) = Ret True"
  using Equal_compares [of "example_crypto []" NewMySQLOptions "[]"
      "NewMySQLOptions\<lparr>mCompression := True, mTLSConfig := Some \<lparr>tls_opts = None, tls_name = ''t''\<rparr>\<rparr>" "[]"
      NewClickhouseOptions NewClickhouseOptions itoa]
  by (simp add: NewMySQLOptions_def NewClickhouseOptions_def empty_password_def UnsafeString_def)

section \<open>The peer of a connection\<close>

text \<open>The host label of the metrics.\<close>

definition host_label :: "string \<Rightarrow> string \<times> int \<Rightarrow> string" where
  "host_label connType peer = (if connType = ''sqlite'' then fst peer else fst peer @ '':'' @ itoa (snd peer))"

lemma last_separator:
  fixes c :: char
  assumes "s @ c # t = s' @ c # t'" "c \<notin> set t" "c \<notin> set t'"
  shows "s = s' \<and> t = t'"
proof -
  have "str_cut c (rev (s @ c # t)) = (rev t, rev s, True)" "str_cut c (rev (s' @ c # t')) = (rev t', rev s', True)"
    using assms(2,3) by (simp_all add: str_cut_found)
  with assms(1) show ?thesis by simp
qed

lemma itoa_no_colon: "CHR '':'' \<notin> set (itoa i)"
  using itoa_digits [of i] by (auto simp: is_digit_def)

lemma host_port_inj: "fst a @ CHR '':'' # itoa (snd a) = fst b @ CHR '':'' # itoa (snd b) \<longleftrightarrow> a = b"
  using last_separator [of "fst a" "CHR '':''" "itoa (snd a)" "fst b" "itoa (snd b)"] itoa_no_colon itoa_inj
  by (metis prod_eq_iff)

text \<open>
  What the tracer and the metrics rely on: the connection string is the type and an address that begins
  with the host of the peer, and a peer without a port is that of a file.
\<close>

locale db_interface =
  fixes GetType :: "'o \<Rightarrow> string" and GetPeer :: "'o \<Rightarrow> string \<times> int" and GetConnectionString :: "'o \<Rightarrow> string"
  assumes conn: "\<exists>rest. GetConnectionString x = GetType x @ ''://'' @ fst (GetPeer x) @ rest"
    and plain_type: "CHR '':'' \<notin> set (GetType x)"
    and file_port: "GetType x = ''sqlite'' \<Longrightarrow> snd (GetPeer x) = 0"
begin

lemma label_identifies:
  assumes "GetType x = GetType y"
  shows "host_label (GetType x) (GetPeer x) = host_label (GetType y) (GetPeer y) \<longleftrightarrow> GetPeer x = GetPeer y"
proof (cases "GetType x = ''sqlite''")
  case True
  then show ?thesis using assms file_port [of x] file_port [of y] by (simp add: host_label_def prod_eq_iff)
next
  case False
  then show ?thesis using assms by (simp add: host_label_def host_port_inj)
qed

lemma type_of_conn:
  "GetConnectionString x = GetConnectionString y \<Longrightarrow> GetType x = GetType y"
  using conn [of x] conn [of y] plain_type [of x] plain_type [of y]
  by (metis append_Cons append_assoc fst_conv str_cut_found)

end


lemma host_peer_prefix: "\<exists>rest. h = fst (host_peer d h) @ rest"
  using str_cut_eq_found [of "CHR '':''" h]
  by (cases "str_cut (CHR '':'') h") (auto simp: host_peer_def split: prod.splits option.splits)

interpretation mysql: db_interface mysql_GetType mysql_GetPeer mysql_GetConnectionString
  by unfold_locales
    (use host_peer_prefix in \<open>auto simp: mysql_GetType_def mysql_GetPeer_def mysql_GetConnectionString_def\<close>)

interpretation clickhouse: db_interface clickhouse_GetType clickhouse_GetPeer clickhouse_GetConnectionString
  by unfold_locales
    (use host_peer_prefix in \<open>auto simp: clickhouse_GetType_def clickhouse_GetPeer_def clickhouse_GetConnectionString_def\<close>)

interpretation sqlite: db_interface sqlite_GetType sqlite_GetPeer sqlite_GetConnectionString
  by unfold_locales (auto simp: sqlite_GetType_def sqlite_GetPeer_def sqlite_GetConnectionString_def)

interpretation dbi: db_interface db_GetType db_GetPeer db_GetConnectionString
proof
  fix x :: db_options
  show "\<exists>rest. db_GetConnectionString x = db_GetType x @ ''://'' @ fst (db_GetPeer x) @ rest"
    using mysql.conn clickhouse.conn sqlite.conn by (cases x) simp_all
  show "CHR '':'' \<notin> set (db_GetType x)"
    using mysql.plain_type clickhouse.plain_type sqlite.plain_type by (cases x) simp_all
  show "snd (db_GetPeer x) = 0" if "db_GetType x = ''sqlite''"
    using that mysql.file_port clickhouse.file_port sqlite.file_port by (cases x) simp_all
qed

end
