(* ===== verification/Gorm_Client.thy ===== *)
theory Gorm_Client
  imports Gorm_Options
begin

text \<open>
  The clients of \<open>clients/gorm\<close>: opening a connection, with the creation of a missing schema
  (\<open>gorm_mysql.go\<close>, \<open>gorm_clickhouse.go\<close>, \<open>gorm_sqlite.go\<close>), closing and sessions (\<open>gorm.go\<close>), and the
  collector of metrics (\<open>gorm_metrics.go\<close>). Gorm, its drivers, the random UUIDs and the gauges' text
  are behind \<open>db_lib\<close>; clients are shared by pointer, so they live in a heap.
\<close>

section \<open>Connections\<close>

record mysql_config =
  cf_User :: string
  cf_Passwd :: string
  cf_Addr :: string
  cf_DBName :: string
  cf_Charset :: string
  cf_Collation :: string
  cf_TLS :: string
  cf_Compression :: bool

datatype dialector = MySQLConn mysql_config | ClickhouseConn string | SQLiteConn string

text \<open>The settings handed to \<open>gorm.Open\<close>: the table prefix, singular table names, and the threshold of the logger.\<close>

record gorm_config =
  g_TablePrefix :: string
  g_SingularTable :: bool
  g_slowThreshold :: int

record ('db, 'sql, 'e, 'w) db_lib =
  gorm_Open :: "dialector \<Rightarrow> gorm_config \<Rightarrow> 'w \<Rightarrow> ('e + 'db) \<times> 'w"
  mysql_Number :: "'e \<Rightarrow> int option"
  clickhouse_Code :: "'e \<Rightarrow> int option"
  db_Exec :: "'db \<Rightarrow> string \<Rightarrow> 'w \<Rightarrow> 'e option \<times> 'w"
  db_DB :: "'db \<Rightarrow> 'e + 'sql"
  sql_Close :: "'sql \<Rightarrow> 'w \<Rightarrow> 'e option \<times> 'w"
  sql_SetPool :: "'sql \<Rightarrow> int \<Rightarrow> int \<Rightarrow> int \<Rightarrow> 'w \<Rightarrow> 'w"
  sql_Stats :: "'sql \<Rightarrow> 'w \<Rightarrow> int list"
  uuid_V4 :: "'w \<Rightarrow> string option \<times> 'w"
  DurationFromProto :: "int \<times> int \<Rightarrow> 'e + int"

datatype 'e open_error = NoPassword crypt_error | DbError 'e | BadThreshold 'e | SQLiteFailed string 'e

definition set_defaults :: "mysql_options \<Rightarrow> mysql_options" where
  "set_defaults o' = o'\<lparr>mCharset := if mCharset o' = [] then ''utf8mb4'' else mCharset o',
     mCollation := if mCollation o' = [] then ''utf8mb4_general_ci'' else mCollation o',
     mMaxOpen := if mMaxOpen o' = 0 then 100 else mMaxOpen o'\<rparr>"

definition mysql_Config :: "mysql_options \<Rightarrow> string \<Rightarrow> mysql_config" where
  "mysql_Config o' passwd = \<lparr>cf_User = mUsername o', cf_Passwd = passwd, cf_Addr = mHost o', cf_DBName = mSchema o',
     cf_Charset = mCharset o', cf_Collation = mCollation o',
     cf_TLS = (case mTLSConfig o' of None \<Rightarrow> [] | Some t \<Rightarrow> tls_name t), cf_Compression = mCompression o'\<rparr>"

definition gorm_Config :: "string \<Rightarrow> int \<Rightarrow> gorm_config" where
  "gorm_Config table_prefix slow = \<lparr>g_TablePrefix = table_prefix, g_SingularTable = (table_prefix \<noteq> []), g_slowThreshold = slow\<rparr>"

definition create_schema :: "mysql_options \<Rightarrow> string" where
  "create_schema o' = ''CREATE SCHEMA `'' @ mSchema o' @ ''` DEFAULT CHARACTER SET '' @ mCharset o' @ '' COLLATE '' @ mCollation o'"

definition close_db :: "('db, 'sql, 'e, 'w) db_lib \<Rightarrow> 'db \<Rightarrow> 'w \<Rightarrow> 'w" where
  "close_db lib db w = (case db_DB lib db of Inl _ \<Rightarrow> w | Inr sql \<Rightarrow> snd (sql_Close lib sql w))"

text \<open>
  \<open>openMysqlConn\<close>: the defaults are set in the options it is given. A missing schema (error 1049) is
  created once through a connection to the schema \<open>mysql\<close>, which is closed at the end.
\<close>

function openMysqlConn ::
  "crypto \<Rightarrow> ('db, 'sql, 'e, 'w) db_lib \<Rightarrow> int \<Rightarrow> mysql_options \<Rightarrow> bool \<Rightarrow> 'w \<Rightarrow>
   (('e open_error + 'db) \<times> mysql_options \<times> 'w) run" where
  "openMysqlConn cx lib slow options autoCreateSchema w =
     bind_run (UnsafeString cx (mPassword options)) (\<lambda>pw. case pw of
       Inl err \<Rightarrow> Ret (Inl (NoPassword err), options, w)
     | Inr passwd \<Rightarrow>
         let options = set_defaults options in
         (case gorm_Open lib (MySQLConn (mysql_Config options passwd)) (gorm_Config (mTablePrefix options) slow) w of
            (Inr db, w) \<Rightarrow> Ret (Inr db, options, w)
          | (Inl err, w) \<Rightarrow>
              if autoCreateSchema \<and> mysql_Number lib err = Some 1049 then
                bind_run (openMysqlConn cx lib slow (options\<lparr>mSchema := ''mysql''\<rparr>) False w) (\<lambda>r. case r of
                  (Inl err, _, w) \<Rightarrow> Ret (Inl err, options, w)
                | (Inr db, _, w) \<Rightarrow>
                    (case db_Exec lib db (create_schema options) w of
                       (Some err, w) \<Rightarrow> Ret (Inl (DbError err), options, w)
                     | (None, w) \<Rightarrow>
                         map_run (\<lambda>(r, options, w). (r, options, close_db lib db w))
                           (openMysqlConn cx lib slow options False w)))
              else Ret (Inl (DbError err), options, w)))"
  by auto
termination by (relation "measure (\<lambda>(_, _, _, _, auto_create, _). if auto_create then 1 else 0)") auto

function openClickhouseConn ::
  "crypto \<Rightarrow> ('db, 'sql, 'e, 'w) db_lib \<Rightarrow> int \<Rightarrow> clickhouse_options \<Rightarrow> bool \<Rightarrow> 'w \<Rightarrow>
   (('e open_error + 'db) \<times> 'w) run" where
  "openClickhouseConn cx lib slow options autoCreateSchema w =
     bind_run (GetDSN cx options) (\<lambda>dsn. case dsn of
       Inl err \<Rightarrow> Ret (Inl (NoPassword err), w)
     | Inr dsn \<Rightarrow>
         (case gorm_Open lib (ClickhouseConn dsn) (gorm_Config (cTablePrefix options) slow) w of
            (Inr db, w) \<Rightarrow> Ret (Inr db, w)
          | (Inl err, w) \<Rightarrow>
              if autoCreateSchema \<and> clickhouse_Code lib err = Some 1049 then
                bind_run (openClickhouseConn cx lib slow (options\<lparr>cSchema := ''clickhouse''\<rparr>) False w) (\<lambda>r. case r of
                  (Inl err, w) \<Rightarrow> Ret (Inl err, w)
                | (Inr db, w) \<Rightarrow>
                    (case db_Exec lib db (''CREATE DATABASE `'' @ cSchema options @ ''`'') w of
                       (Some err, w) \<Rightarrow> Ret (Inl (DbError err), w)
                     | (None, w) \<Rightarrow>
                         map_run (\<lambda>(r, w). (r, close_db lib db w)) (openClickhouseConn cx lib slow options False w)))
              else Ret (Inl (DbError err), w)))"
  by auto
termination by (relation "measure (\<lambda>(_, _, _, _, auto_create, _). if auto_create then 1 else 0)") auto

declare openMysqlConn.simps [simp del] openClickhouseConn.simps [simp del]

section \<open>Clients\<close>

record tracer_attrs =
  at_connection_string :: string
  at_name :: string
  at_system :: string
  at_user :: string
  at_peer_name :: string
  at_peer_port :: int

record 'db gorm_client =
  cl_name :: string
  database :: 'db
  slowThreshold :: int
  tracer :: "tracer_attrs option"
  cl_options :: db_options
  statsCollector :: string

text \<open>The program: its clients, the instances of the collector, the stop handler with the databases to close, and the world.\<close>

record ('db, 'w) gorm_state =
  clients :: "'db gorm_client list"
  instances :: "string \<Rightarrow> nat option"
  stop_handler :: "'db handler option"
  world :: 'w

definition collector_Register ::
  "('db, 'sql, 'e, 'w) db_lib \<Rightarrow> nat \<Rightarrow> ('db, 'w) gorm_state \<Rightarrow> (string \<times> ('db, 'w) gorm_state) run" where
  "collector_Register lib clt s = (case uuid_V4 lib (world s) of
     (None, w) \<Rightarrow> Panic
   | (Some i, w) \<Rightarrow> Ret (i, s\<lparr>instances := (instances s)(i \<mapsto> clt), world := w\<rparr>))"

definition collector_Unregister :: "string \<Rightarrow> ('db, 'w) gorm_state \<Rightarrow> ('db, 'w) gorm_state" where
  "collector_Unregister i s = s\<lparr>instances := (instances s)(i := None)\<rparr>"

text \<open>The last part of all three constructors: the stop function, the database, the collector.\<close>

definition finish_client ::
  "('db, 'sql, 'e, 'w) db_lib \<Rightarrow> string \<Rightarrow> int \<Rightarrow> db_options \<Rightarrow> 'db \<Rightarrow> ('db, 'w) gorm_state \<Rightarrow>
   (('e open_error + nat) \<times> ('db, 'w) gorm_state) run" where
  "finish_client lib name slow options db s =
     (case SetupSignalHandler (stop_handler s) of
        None \<Rightarrow> Panic
      | Some stopCh \<Rightarrow>
          bind_run (PreStop stopCh LevelDB db) (\<lambda>h.
            let clt = length (clients s);
                c = \<lparr>cl_name = name, database = db, slowThreshold = slow, tracer = None, cl_options = options, statsCollector = []\<rparr>
            in map_run (\<lambda>(i, s). (Inr clt, s\<lparr>clients := (clients s)[clt := c\<lparr>statsCollector := i\<rparr>]\<rparr>))
                 (collector_Register lib clt (s\<lparr>stop_handler := Some h, clients := clients s @ [c]\<rparr>))))"

definition NewMySQLClient ::
  "crypto \<Rightarrow> ('db, 'sql, 'e, 'w) db_lib \<Rightarrow> string \<Rightarrow> mysql_options \<Rightarrow> ('db, 'w) gorm_state \<Rightarrow>
   (('e open_error + nat) \<times> ('db, 'w) gorm_state) run" where
  "NewMySQLClient cx lib name options s =
     (let slow = (case mSlowThreshold options of None \<Rightarrow> 0 | Some d \<Rightarrow> d)
      in bind_run (openMysqlConn cx lib slow options True (world s)) (\<lambda>r. case r of
           (Inl err, _, w) \<Rightarrow> Ret (Inl err, s\<lparr>world := w\<rparr>)
         | (Inr db, options, w) \<Rightarrow>
             (case db_DB lib db of
                Inl err \<Rightarrow> Ret (Inl (DbError err), s\<lparr>world := w\<rparr>)
              | Inr sql \<Rightarrow> finish_client lib name slow (MySQL options) db
                  (s\<lparr>world := sql_SetPool lib sql (mMaxIdle options) (mysql_LifeTime (Some options)) (mMaxOpen options) w\<rparr>))))"

definition NewClickhouseClient ::
  "crypto \<Rightarrow> ('db, 'sql, 'e, 'w) db_lib \<Rightarrow> string \<Rightarrow> clickhouse_options \<Rightarrow> ('db, 'w) gorm_state \<Rightarrow>
   (('e open_error + nat) \<times> ('db, 'w) gorm_state) run" where
  "NewClickhouseClient cx lib name options s =
     (let slow = (case cSlowThreshold options of None \<Rightarrow> 0 | Some d \<Rightarrow> d)
      in bind_run (openClickhouseConn cx lib slow options True (world s)) (\<lambda>r. case r of
           (Inl err, w) \<Rightarrow> Ret (Inl err, s\<lparr>world := w\<rparr>)
         | (Inr db, w) \<Rightarrow>
             (case db_DB lib db of
                Inl err \<Rightarrow> Ret (Inl (DbError err), s\<lparr>world := w\<rparr>)
              | Inr sql \<Rightarrow> finish_client lib name slow (Clickhouse options) db
                  (s\<lparr>world := sql_SetPool lib sql (cMaxIdle options) (clickhouse_LifeTime (Some options)) (cMaxOpen options) w\<rparr>))))"

text \<open>SQLite: the table prefix of the options is not used.\<close>

definition NewGormSQLiteClient ::
  "('db, 'sql, 'e, 'w) db_lib \<Rightarrow> string \<Rightarrow> sqlite_options \<Rightarrow> ('db, 'w) gorm_state \<Rightarrow>
   (('e open_error + nat) \<times> ('db, 'w) gorm_state) run" where
  "NewGormSQLiteClient lib name options s =
     (case (case sSlowThreshold options of None \<Rightarrow> Inr 0 | Some d \<Rightarrow> DurationFromProto lib d) of
        Inl err \<Rightarrow> Ret (Inl (BadThreshold err), s)
      | Inr slow \<Rightarrow>
          (case gorm_Open lib (SQLiteConn (sPath options)) \<lparr>g_TablePrefix = ''t_'', g_SingularTable = True, g_slowThreshold = slow\<rparr> (world s) of
             (Inl err, w) \<Rightarrow> Ret (Inl (SQLiteFailed (sPath options) err), s\<lparr>world := w\<rparr>)
           | (Inr db, w) \<Rightarrow> finish_client lib name slow (SQLite options) db (s\<lparr>world := w\<rparr>)))"

definition SetName :: "string \<Rightarrow> nat \<Rightarrow> ('db, 'w) gorm_state \<Rightarrow> ('db, 'w) gorm_state" where
  "SetName name c s = s\<lparr>clients := (clients s)[c := (clients s ! c)\<lparr>cl_name := name\<rparr>]\<rparr>"

text \<open>\<open>Close\<close> of a pointer that may be nil.\<close>

definition client_Close ::
  "('db, 'sql, 'e, 'w) db_lib \<Rightarrow> nat option \<Rightarrow> ('db, 'w) gorm_state \<Rightarrow> 'e option \<times> ('db, 'w) gorm_state" where
  "client_Close lib c s = (case c of
     None \<Rightarrow> (None, s)
   | Some a \<Rightarrow>
       let s = (if length (statsCollector (clients s ! a)) \<noteq> 0 then collector_Unregister (statsCollector (clients s ! a)) s else s)
       in (case db_DB lib (database (clients s ! a)) of
             Inl _ \<Rightarrow> (None, s)
           | Inr sql \<Rightarrow> (case sql_Close lib sql (world s) of (err, w) \<Rightarrow> (err, s\<lparr>world := w\<rparr>))))"

text \<open>\<open>SQLiteClient.Close\<close> hides the method of the embedded client, and leaves the collector as it is.\<close>

definition sqlite_Close ::
  "('db, 'sql, 'e, 'w) db_lib \<Rightarrow> nat \<Rightarrow> ('db, 'w) gorm_state \<Rightarrow> 'e option \<times> ('db, 'w) gorm_state" where
  "sqlite_Close lib a s = (case db_DB lib (database (clients s ! a)) of
     Inl err \<Rightarrow> (Some err, s)
   | Inr sql \<Rightarrow> (case sql_Close lib sql (world s) of (err, w) \<Rightarrow> (err, s\<lparr>world := w\<rparr>)))"

text \<open>
  A session: the database it is on, the threshold and the tracer of its logger, and whether it has the
  context. The connection in the context is a database, something else, or missing.
\<close>

datatype 'db ctx_conn = NoConn | DbConn 'db | OtherConn

record 'db session =
  on_db :: 'db
  log_threshold :: int
  log_tracer :: "tracer_attrs option"
  has_ctx :: bool

definition tracer_for :: "db_options \<Rightarrow> tracer_attrs" where
  "tracer_for o' = (case db_GetPeer o' of (host, port) \<Rightarrow>
     \<lparr>at_connection_string = db_GetConnectionString o', at_name = db_GetDBName o', at_system = db_GetType o',
      at_user = db_GetUsername o', at_peer_name = host, at_peer_port = port\<rparr>)"

definition Session :: "'db ctx_conn \<Rightarrow> nat \<Rightarrow> ('db, 'w) gorm_state \<Rightarrow> 'db session \<times> ('db, 'w) gorm_state" where
  "Session conn a s =
     (let c = clients s ! a;
          c = (if tracer c = None then c\<lparr>tracer := Some (tracer_for (cl_options c))\<rparr> else c);
          s = s\<lparr>clients := (clients s)[a := c]\<rparr>
      in (case conn of
            DbConn db \<Rightarrow> (\<lparr>on_db = db, log_threshold = slowThreshold c, log_tracer = tracer c, has_ctx = False\<rparr>, s)
          | _ \<Rightarrow> (\<lparr>on_db = database c, log_threshold = slowThreshold c, log_tracer = tracer c, has_ctx = True\<rparr>, s)))"

definition NewSQLiteClient ::
  "('db, 'sql, 'e, 'w) db_lib \<Rightarrow> string \<Rightarrow> sqlite_options \<Rightarrow> ('db, 'w) gorm_state \<Rightarrow>
   (('e open_error + nat \<times> sqlite_options) \<times> ('db, 'w) gorm_state) run" where
  "NewSQLiteClient lib name options s =
     map_run (\<lambda>(r, s). (map_sum id (\<lambda>client. (client, options)) r, s)) (NewGormSQLiteClient lib name options s)"

section \<open>Metrics\<close>

text \<open>A gauge of a vector: the name of the vector and the labels type, name, host and database.\<close>

type_synonym labels = "string \<times> string \<times> string \<times> string"
type_synonym 'x gauges = "string \<times> labels \<Rightarrow> 'x option"

text \<open>The vectors, in the order of the statistics they show.\<close>

definition gauge_vecs :: "string list" where
  "gauge_vecs = [''gorm_dbstats_max_open_connections'', ''gorm_dbstats_open_connections'', ''gorm_dbstats_in_use'',
     ''gorm_dbstats_idle'', ''gorm_dbstats_wait_count'', ''gorm_dbstats_wait_duration'', ''gorm_dbstats_max_idle_closed'',
     ''gorm_dbstats_max_lifetime_closed'', ''gorm_dbstats_max_idletime_closed'']"

definition labels_of :: "'db gorm_client \<Rightarrow> labels" where
  "labels_of c = (db_GetType (cl_options c), cl_name c,
     host_label (db_GetType (cl_options c)) (db_GetPeer (cl_options c)), db_GetDBName (cl_options c))"

definition set_gauges :: "(int \<Rightarrow> 'x) \<Rightarrow> labels \<Rightarrow> int list \<Rightarrow> 'x gauges \<Rightarrow> 'x gauges" where
  "set_gauges f64 ls stats gs = fold (\<lambda>(g, v) gs. gs((g, ls) \<mapsto> f64 v)) (zip gauge_vecs stats) gs"

text \<open>
  \<open>Collect\<close> walks over the instances; what it sends are the gauges themselves, so their values are read
  when all of them are set.
\<close>

fun collect_loop ::
  "('db, 'sql, 'e, 'w) db_lib \<Rightarrow> (int \<Rightarrow> 'x) \<Rightarrow> 'w \<Rightarrow> 'db gorm_client list \<Rightarrow> 'x gauges \<Rightarrow>
   'x gauges \<times> (string \<times> labels) list" where
  "collect_loop lib f64 w [] gs = (gs, [])"
| "collect_loop lib f64 w (c # cs) gs =
     (case db_DB lib (database c) of
        Inl _ \<Rightarrow> collect_loop lib f64 w cs gs
      | Inr sql \<Rightarrow>
          (case collect_loop lib f64 w cs (set_gauges f64 (labels_of c) (sql_Stats lib sql w) gs) of (gs, sent) \<Rightarrow>
             (gs, map (\<lambda>g. (g, labels_of c)) gauge_vecs @ sent)))"

definition Collect ::
  "('db, 'sql, 'e, 'w) db_lib \<Rightarrow> (int \<Rightarrow> 'x) \<Rightarrow> string list \<Rightarrow> ('db, 'w) gorm_state \<Rightarrow> 'x gauges \<Rightarrow>
   'x gauges \<times> (string \<times> labels) list" where
  "Collect lib f64 walk s gs = collect_loop lib f64 (world s) (map (\<lambda>i. clients s ! the (instances s i)) walk) gs"

section \<open>The collector knows the open clients\<close>

definition start_state :: "'w \<Rightarrow> ('db, 'w) gorm_state" where
  "start_state w = \<lparr>clients = [], instances = Map.empty, stop_handler = None, world = w\<rparr>"

inductive gorm_step ::
  "crypto \<Rightarrow> ('db, 'sql, 'e, 'w) db_lib \<Rightarrow> ('db, 'w) gorm_state \<Rightarrow> ('db, 'w) gorm_state \<Rightarrow> bool"
  for cx lib where
  new_mysql: "NewMySQLClient cx lib name mo s = Ret (r, s') \<Longrightarrow> gorm_step cx lib s s'"
| new_clickhouse: "NewClickhouseClient cx lib name co s = Ret (r, s') \<Longrightarrow> gorm_step cx lib s s'"
| new_sqlite: "NewGormSQLiteClient lib name so s = Ret (r, s') \<Longrightarrow> gorm_step cx lib s s'"
| rename: "a < length (clients s) \<Longrightarrow> gorm_step cx lib s (SetName name a s)"
| close: "a < length (clients s) \<Longrightarrow> client_Close lib (Some a) s = (e, s') \<Longrightarrow> gorm_step cx lib s s'"
| close_sqlite: "a < length (clients s) \<Longrightarrow> sqlite_Close lib a s = (e, s') \<Longrightarrow> gorm_step cx lib s s'"
| session: "a < length (clients s) \<Longrightarrow> Session conn a s = (r, s') \<Longrightarrow> gorm_step cx lib s s'"

definition gorm_inv :: "('db, 'w) gorm_state \<Rightarrow> bool" where
  "gorm_inv s \<longleftrightarrow>
     (\<forall>i a. instances s i = Some a \<longrightarrow> i \<noteq> [] \<and> a < length (clients s) \<and> statsCollector (clients s ! a) = i) \<and>
     (case stop_handler s of
        None \<Rightarrow> clients s = []
      | Some h \<Rightarrow> handler_ok h \<and> (\<forall>c \<in> set (clients s). database c \<in> set (preStopFuncs h ! LevelDB)))"

definition good_uuids :: "('db, 'sql, 'e, 'w) db_lib \<Rightarrow> bool" where
  "good_uuids lib \<longleftrightarrow> (\<forall>w i w'. uuid_V4 lib w = (Some i, w') \<longrightarrow> i \<noteq> [])"

lemma PreStop_db:
  assumes "handler_ok h0" "PreStop h0 LevelDB db = Ret h"
  shows "handler_ok h \<and> set (preStopFuncs h ! LevelDB) = insert db (set (preStopFuncs h0 ! LevelDB))"
  using assms by (auto simp: PreStop_def handler_ok_def LevelDB_def LevelMax_def)

lemma gorm_inv_world [simp]: "gorm_inv (s\<lparr>world := w\<rparr>) = gorm_inv s"
  by (simp add: gorm_inv_def split: option.splits)

lemma finish_client_inv:
  assumes "good_uuids lib" "gorm_inv s" "finish_client lib name slow op db s = Ret (r, s')"
  shows "gorm_inv s' \<and> (\<exists>i. clients s' = clients s @ [\<lparr>cl_name = name, database = db, slowThreshold = slow, tracer = None,
      cl_options = op, statsCollector = i\<rparr>] \<and> instances s' = (instances s)(i \<mapsto> length (clients s))) \<and> r = Inr (length (clients s))"
proof -
  obtain h0 where h0: "SetupSignalHandler (stop_handler s) = Some h0" "handler_ok h0"
      "\<forall>c \<in> set (clients s). database c \<in> set (preStopFuncs h0 ! LevelDB)"
    using assms(2) handler_ok_new by (cases "stop_handler s") (auto simp: SetupSignalHandler_def gorm_inv_def)
  obtain h where h: "PreStop h0 LevelDB db = Ret h"
    using assms(3) h0(1) by (auto simp: finish_client_def bind_run_Ret_conv)
  obtain i w where i: "uuid_V4 lib (world s) = (Some i, w)"
    using assms(3) h0(1) h
    by (cases "uuid_V4 lib (world s)") (auto simp: finish_client_def collector_Register_def Let_def split: option.splits)
  let ?c = "\<lparr>cl_name = name, database = db, slowThreshold = slow, tracer = None, cl_options = op, statsCollector = i\<rparr>"
  have s': "s' = s\<lparr>stop_handler := Some h, clients := clients s @ [?c], instances := (instances s)(i \<mapsto> length (clients s)), world := w\<rparr>"
    and r: "r = Inr (length (clients s))"
    using assms(3) h0(1) h i by (auto simp: finish_client_def collector_Register_def Let_def)
  have "i \<noteq> []" using assms(1) i by (auto simp: good_uuids_def)
  then have "gorm_inv s'"
    using assms(2) PreStop_db [OF h0(2) h] h0(3) by (auto simp: s' gorm_inv_def nth_append intro: less_SucI)
  then show ?thesis using r by (auto simp: s')
qed

lemma gorm_inv_update:
  assumes "gorm_inv s" "database c = database (clients s ! a)" "statsCollector c = statsCollector (clients s ! a)" "a < length (clients s)"
  shows "gorm_inv (s\<lparr>clients := (clients s)[a := c]\<rparr>)"
  using assms
  by (auto simp: gorm_inv_def nth_list_update split: option.splits dest!: subsetD [OF set_update_subset_insert])

lemma collector_Unregister_simps [simp]:
  "clients (collector_Unregister i s) = clients s" "stop_handler (collector_Unregister i s) = stop_handler s"
  "instances (collector_Unregister i s) = (instances s)(i := None)" "world (collector_Unregister i s) = world s"
  by (simp_all add: collector_Unregister_def)

lemma client_Close_state:
  assumes "client_Close lib (Some a) s = (e, s')" "gorm_inv s"
  shows "clients s' = clients s \<and> stop_handler s' = stop_handler s \<and>
    instances s' = (instances s)(statsCollector (clients s ! a) := None)"
proof -
  let ?i = "statsCollector (clients s ! a)"
  obtain t where t: "t = (if ?i = [] then s else collector_Unregister ?i s)" by blast
  have i: "(instances s)([] := None) = instances s"
    using assms(2) by (auto simp: gorm_inv_def fun_eq_iff) (metis not_None_eq)
  have t': "clients t = clients s" "stop_handler t = stop_handler s" "instances t = (instances s)(?i := None)"
    by (simp_all add: t i)
  have "client_Close lib (Some a) s = (case db_DB lib (database (clients t ! a)) of Inl _ \<Rightarrow> (None, t)
      | Inr sql \<Rightarrow> (case sql_Close lib sql (world t) of (err, w) \<Rightarrow> (err, t\<lparr>world := w\<rparr>)))"
    unfolding client_Close_def t Let_def by (cases "?i = []") simp_all
  with assms(1) have "s' = t \<or> (\<exists>w. s' = t\<lparr>world := w\<rparr>)"
    by (auto split: sum.splits prod.splits)
  with t' show ?thesis by auto
qed

lemma client_Close_inv:
  assumes "client_Close lib (Some a) s = (e, s')" "gorm_inv s"
  shows "gorm_inv s'"
proof -
  from client_Close_state [OF assms] have s': "clients s' = clients s" "stop_handler s' = stop_handler s"
    and sub: "\<And>i b. instances s' i = Some b \<Longrightarrow> instances s i = Some b"
    by (auto split: if_splits)
  then show ?thesis using assms(2) unfolding gorm_inv_def s' by blast
qed

text \<open>A constructor fails, with nothing but the world changed, or ends in \<open>finish_client\<close>.\<close>

definition built :: "('db, 'sql, 'e, 'w) db_lib \<Rightarrow> string \<Rightarrow> ('db, 'w) gorm_state \<Rightarrow> 'e open_error + nat \<Rightarrow> ('db, 'w) gorm_state \<Rightarrow> bool" where
  "built lib name s r s' \<longleftrightarrow> (\<exists>err w. r = Inl err \<and> s' = s\<lparr>world := w\<rparr>) \<or>
     (\<exists>slow op db w. finish_client lib name slow op db (s\<lparr>world := w\<rparr>) = Ret (r, s'))"

lemma built_error [simp]: "built lib name s (Inl err) (s\<lparr>world := w\<rparr>)" "built lib name s (Inl err) s"
proof -
  show "built lib name s (Inl err) (s\<lparr>world := w\<rparr>)" for w by (auto simp: built_def)
  from this [of "world s"] show "built lib name s (Inl err) s" by simp
qed

lemma built_finish: "finish_client lib name slow op db (s\<lparr>world := w\<rparr>) = Ret (r, s') \<Longrightarrow> built lib name s r s'"
  by (auto simp: built_def)

lemma NewMySQLClient_built:
  assumes "NewMySQLClient cx lib name mo s = Ret (r, s')"
  shows "built lib name s r s'"
proof -
  obtain r1 mo' w where "openMysqlConn cx lib (case mSlowThreshold mo of None \<Rightarrow> 0 | Some d \<Rightarrow> d) mo True (world s) = Ret (r1, mo', w)"
    using assms unfolding NewMySQLClient_def Let_def bind_run_Ret_conv by (metis prod_cases3)
  with assms show ?thesis
    by (cases r1) (auto simp: NewMySQLClient_def Let_def split: sum.splits intro: built_finish)
qed

lemma NewClickhouseClient_built:
  assumes "NewClickhouseClient cx lib name co s = Ret (r, s')"
  shows "built lib name s r s'"
proof -
  obtain r1 w where "openClickhouseConn cx lib (case cSlowThreshold co of None \<Rightarrow> 0 | Some d \<Rightarrow> d) co True (world s) = Ret (r1, w)"
    using assms unfolding NewClickhouseClient_def Let_def bind_run_Ret_conv by (metis surj_pair)
  with assms show ?thesis
    by (cases r1) (auto simp: NewClickhouseClient_def Let_def split: sum.splits intro: built_finish)
qed

lemma NewGormSQLiteClient_built:
  "NewGormSQLiteClient lib name so s = Ret (r, s') \<Longrightarrow> built lib name s r s'"
  by (auto simp: NewGormSQLiteClient_def split: sum.splits prod.splits intro: built_finish)

lemma built_inv: "built lib name s r s' \<Longrightarrow> good_uuids lib \<Longrightarrow> gorm_inv s \<Longrightarrow> gorm_inv s'"
  unfolding built_def using finish_client_inv gorm_inv_world by metis

lemma gorm_step_inv:
  assumes "gorm_step cx lib s s'" "good_uuids lib" "gorm_inv s"
  shows "gorm_inv s'"
  using assms(1)
proof cases
  case (new_mysql name mo r)
  then show ?thesis using NewMySQLClient_built built_inv assms(2,3) by blast
next
  case (new_clickhouse name co r)
  then show ?thesis using NewClickhouseClient_built built_inv assms(2,3) by blast
next
  case (new_sqlite name so r)
  then show ?thesis using NewGormSQLiteClient_built built_inv assms(2,3) by blast
next
  case (rename a name)
  then show ?thesis using assms(3) by (simp add: SetName_def gorm_inv_update)
next
  case (close a e)
  then show ?thesis using client_Close_inv assms(3) by blast
next
  case (close_sqlite a e)
  then show ?thesis
    using assms(3) by (cases "db_DB lib (database (clients s ! a))") (auto simp: sqlite_Close_def split: prod.splits)
next
  case (session a conn r)
  let ?c = "clients s ! a"
  have "s' = s\<lparr>clients := (clients s)[a := if tracer ?c = None then ?c\<lparr>tracer := Some (tracer_for (cl_options ?c))\<rparr> else ?c]\<rparr>"
    using session(2) by (cases conn) (simp_all add: Session_def Let_def)
  then show ?thesis using gorm_inv_update [OF assms(3)] session(1) by simp
qed

lemma reach_inv:
  assumes "(gorm_step cx lib)\<^sup>*\<^sup>* (start_state w) s" "good_uuids lib"
  shows "gorm_inv s"
  using assms(1)
proof (induction rule: rtranclp_induct)
  case base
  then show ?case by (simp add: gorm_inv_def start_state_def)
qed (use assms(2) gorm_step_inv in blast)


section \<open>What the collector sends\<close>

lemma set_gauges_other: "ls' \<noteq> ls \<Longrightarrow> set_gauges f64 ls stats gs (g, ls') = gs (g, ls')"
proof -
  assume "ls' \<noteq> ls"
  then have "fold (\<lambda>(g, v) gs. gs((g, ls) \<mapsto> f64 v)) ps gs (g, ls') = gs (g, ls')" for ps
    by (induction ps arbitrary: gs) auto
  then show ?thesis by (simp add: set_gauges_def)
qed

lemma fold_gauges:
  "distinct (map fst ps) \<Longrightarrow> (g, v) \<in> set ps \<Longrightarrow> fold (\<lambda>(g, v) gs. gs((g, ls) \<mapsto> f64 v)) ps gs (g, ls) = Some (f64 v)"
proof (induction ps arbitrary: gs)
  case (Cons p ps)
  have keep: "g \<notin> fst ` set ps \<Longrightarrow> fold (\<lambda>(g, v) gs. gs((g, ls) \<mapsto> f64 v)) ps gs (g, ls) = gs (g, ls)" for gs
    by (induction ps arbitrary: gs) auto
  show ?case
  proof (cases "p = (g, v)")
    case True
    then have "g \<notin> fst ` set ps" using Cons.prems by auto
    then show ?thesis using True keep [of "gs((g, ls) \<mapsto> f64 v)"] by (simp del: fun_upd_apply add: fun_upd_same)
  next
    case False
    then show ?thesis using Cons by (cases p) (auto simp del: fun_upd_apply)
  qed
qed simp

lemma set_gauges_own:
  assumes "length stats = length gauge_vecs" "k < length gauge_vecs"
  shows "set_gauges f64 ls stats gs (gauge_vecs ! k, ls) = Some (f64 (stats ! k))"
proof -
  have "distinct gauge_vecs" by (simp add: gauge_vecs_def)
  then have "distinct (map fst (zip gauge_vecs stats))" using assms(1) by simp
  moreover have "(gauge_vecs ! k, stats ! k) \<in> set (zip gauge_vecs stats)"
    using assms by (auto simp: set_zip)
  ultimately show ?thesis unfolding set_gauges_def by (rule fold_gauges)
qed

definition working :: "('db, 'sql, 'e, 'w) db_lib \<Rightarrow> 'db gorm_client \<Rightarrow> bool" where
  "working lib c = (case db_DB lib (database c) of Inl _ \<Rightarrow> False | Inr _ \<Rightarrow> True)"

lemma collect_loop_sent:
  "snd (collect_loop lib f64 w cs gs) = concat (map (\<lambda>c. map (\<lambda>g. (g, labels_of c)) gauge_vecs) (filter (working lib) cs))"
  by (induction cs arbitrary: gs) (auto simp: working_def case_prod_beta split: sum.splits)

lemma collect_loop_other: "ls \<notin> labels_of ` set cs \<Longrightarrow> fst (collect_loop lib f64 w cs gs) (g, ls) = gs (g, ls)"
  by (induction cs arbitrary: gs) (auto simp: set_gauges_other case_prod_beta split: sum.splits)

lemma collect_loop_value:
  assumes "c \<in> set cs" "distinct (map labels_of cs)" "db_DB lib (database c) = Inr sql"
    and "length (sql_Stats lib sql w) = length gauge_vecs" "k < length gauge_vecs"
  shows "fst (collect_loop lib f64 w cs gs) (gauge_vecs ! k, labels_of c) = Some (f64 (sql_Stats lib sql w ! k))"
  using assms(1,2)
proof (induction cs arbitrary: gs)
  case (Cons d cs)
  show ?case
  proof (cases "d = c")
    case True
    then have "labels_of c \<notin> labels_of ` set cs" using Cons.prems by auto
    then show ?thesis
      using True assms(3-5) collect_loop_other [of "labels_of c" cs lib f64 w]
      by (simp add: case_prod_beta set_gauges_own)
  next
    case False
    then show ?thesis using Cons by (simp add: case_prod_beta split: sum.splits)
  qed
qed simp

text \<open>What tells two clients apart.\<close>

definition identity :: "'db gorm_client \<Rightarrow> string \<times> string \<times> (string \<times> int) \<times> string" where
  "identity c = (db_GetType (cl_options c), cl_name c, db_GetPeer (cl_options c), db_GetDBName (cl_options c))"

lemma labels_identity: "labels_of c = labels_of d \<longleftrightarrow> identity c = identity d"
  using dbi.label_identifies by (auto simp: labels_of_def identity_def)

text \<open>
  The collector sends the nine gauges of every registered client whose database can be reached, and no
  others. Where the clients differ in their type, name, peer or database, each gauge shows the
  statistics of its client.
\<close>

theorem Collect_reports:
  assumes "set walk = dom (instances s)" "distinct walk" "inj_on (\<lambda>i. identity (clients s ! the (instances s i))) (set walk)"
    and "\<forall>sql. length (sql_Stats lib sql (world s)) = length gauge_vecs" "Collect lib f64 walk s gs = (gs', sent)"
  shows "set sent = {(g, labels_of (clients s ! a)) | g a. g \<in> set gauge_vecs \<and> a \<in> ran (instances s) \<and> working lib (clients s ! a)} \<and>
    (\<forall>i a sql k. instances s i = Some a \<longrightarrow> db_DB lib (database (clients s ! a)) = Inr sql \<longrightarrow> k < length gauge_vecs \<longrightarrow>
      gs' (gauge_vecs ! k, labels_of (clients s ! a)) = Some (f64 (sql_Stats lib sql (world s) ! k)))"
proof (intro conjI allI impI)
  let ?cs = "map (\<lambda>i. clients s ! the (instances s i)) walk"
  have col: "collect_loop lib f64 (world s) ?cs gs = (gs', sent)"
    using assms(5) by (simp add: Collect_def)
  have sent: "sent = concat (map (\<lambda>c. map (\<lambda>g. (g, labels_of c)) gauge_vecs) (filter (working lib) ?cs))"
    using collect_loop_sent [of lib f64 "world s" ?cs gs] col by simp
  have set_cs: "set ?cs = (\<lambda>a. clients s ! a) ` ran (instances s)"
    using assms(1) by (force simp: ran_def dom_def image_iff)
  show "set sent = {(g, labels_of (clients s ! a)) | g a. g \<in> set gauge_vecs \<and> a \<in> ran (instances s) \<and> working lib (clients s ! a)}"
    unfolding sent using set_cs by (auto simp: image_iff)
  fix i a sql k
  assume i: "instances s i = Some a" "db_DB lib (database (clients s ! a)) = Inr sql" "k < length gauge_vecs"
  have "distinct (map labels_of ?cs)"
    using assms(2,3) by (auto simp: distinct_map inj_on_def labels_identity)
  moreover have "clients s ! a \<in> set ?cs" using i(1) set_cs by (auto simp: ran_def)
  ultimately show "gs' (gauge_vecs ! k, labels_of (clients s ! a)) = Some (f64 (sql_Stats lib sql (world s) ! k))"
    using collect_loop_value [of "clients s ! a" ?cs lib sql "world s" k f64 gs] i(2,3) assms(4) col by simp
qed

section \<open>A missing schema is created\<close>

text \<open>
  C29: When the server does not know the schema (error 1049), it is created with the quoted name and the
  character set of the options, through a connection to the schema \<open>mysql\<close>, and the connection is
  opened again: the result is that of the second attempt, the defaults are set, and the connection to
  \<open>mysql\<close> is closed. After any other error nothing more is opened.
\<close>

theorem openMysqlConn_creates_schema:
  assumes "UnsafeString cx (mPassword op) = Ret (Inr pw)" "op' = set_defaults op"
    and "gorm_Open lib (MySQLConn (mysql_Config op' pw)) (gorm_Config (mTablePrefix op) slow) w = (Inl err, w1)"
    and "gorm_Open lib (MySQLConn (mysql_Config (op'\<lparr>mSchema := ''mysql''\<rparr>) pw)) (gorm_Config (mTablePrefix op) slow) w1 = (Inr tmp, w2)"
    and "db_Exec lib tmp (create_schema op') w2 = (None, w3)"
    and "gorm_Open lib (MySQLConn (mysql_Config op' pw)) (gorm_Config (mTablePrefix op) slow) w3 = (r, w4)"
  shows "openMysqlConn cx lib slow op True w =
    (if mysql_Number lib err = Some 1049 then Ret (map_sum DbError id r, op', close_db lib tmp w4)
     else Ret (Inl (DbError err), op', w1))"
proof -
  have idem: "set_defaults op' = op'" "set_defaults (op'\<lparr>mSchema := ''mysql''\<rparr>) = op'\<lparr>mSchema := ''mysql''\<rparr>"
    by (simp_all add: assms(2) set_defaults_def)
  have keep: "mPassword op' = mPassword op" "mTablePrefix op' = mTablePrefix op"
    by (simp_all add: assms(2) set_defaults_def)
  have inner: "openMysqlConn cx lib slow (op'\<lparr>mSchema := ''mysql''\<rparr>) False w1 = Ret (Inr tmp, op'\<lparr>mSchema := ''mysql''\<rparr>, w2)"
    by (subst openMysqlConn.simps) (simp add: idem keep assms(1,4) Let_def)
  have again: "openMysqlConn cx lib slow op' False w3 = Ret (map_sum DbError id r, op', w4)"
    by (subst openMysqlConn.simps) (cases r; simp add: idem keep assms(1,6) Let_def)
  show ?thesis
    by (subst openMysqlConn.simps) (simp add: assms(1,3,5) assms(2) [symmetric] keep Let_def inner again)
qed

text \<open>A library for examples: the world tells whether the schema \<open>idas\<close> exists.\<close>

definition sample_db_lib :: "(string, string, int, bool) db_lib" where
  "sample_db_lib = \<lparr>gorm_Open = (\<lambda>d _ w. case d of
       MySQLConn c \<Rightarrow> (if cf_DBName c = ''idas'' \<and> \<not> w then (Inl 1049, w) else (Inr (cf_DBName c), w))
     | ClickhouseConn dsn \<Rightarrow> (Inr dsn, w) | SQLiteConn f \<Rightarrow> (Inr f, w)),
     mysql_Number = Some, clickhouse_Code = Some, db_Exec = (\<lambda>_ _ _. (None, True)), db_DB = Inr,
     sql_Close = (\<lambda>_ w. (None, w)), sql_SetPool = (\<lambda>_ _ _ _ w. w), sql_Stats = (\<lambda>_ _. [100, 2, 1, 1, 0, 0, 0, 0, 0]),
     uuid_V4 = (\<lambda>w. (Some ''id'', w)), DurationFromProto = (\<lambda>(sec, nanos). Inr (sec * second + nanos))\<rparr>"

lemma openMysqlConn_creates_schema_witness:
  "openMysqlConn (example_crypto []) sample_db_lib 0 NewMySQLOptions True False = Ret (Inr ''idas'', set_defaults NewMySQLOptions, True)"
proof -
  have "openMysqlConn (example_crypto []) sample_db_lib 0 NewMySQLOptions True False =
    (if mysql_Number sample_db_lib 1049 = Some 1049
     then Ret (map_sum DbError id (Inr ''idas''), set_defaults NewMySQLOptions, close_db sample_db_lib ''mysql'' True)
     else Ret (Inl (DbError 1049), set_defaults NewMySQLOptions, False))"
    by (rule openMysqlConn_creates_schema [where pw = "[]" and ?w2.0 = False and ?w3.0 = True])
      (simp_all add: sample_db_lib_def NewMySQLOptions_def empty_password_def UnsafeString_def mysql_Config_def set_defaults_def)
  then show ?thesis by (simp add: sample_db_lib_def close_db_def)
qed

definition sample_gorm :: "(string, bool) gorm_state" where
  "sample_gorm = \<lparr>clients = [\<lparr>cl_name = ''n'', database = ''data.db'', slowThreshold = 0, tracer = None,
       cl_options = SQLite NewSQLiteOptions, statsCollector = ''id''\<rparr>],
     instances = [''id'' \<mapsto> 0], stop_handler = Some (new_handler\<lparr>preStopFuncs := (preStopFuncs new_handler)[LevelDB := [''data.db'']]\<rparr>),
     world = False\<rparr>"

lemma sample_gorm_reachable: "(gorm_step cx sample_db_lib)\<^sup>*\<^sup>* (start_state False) sample_gorm"
proof -
  have "NewGormSQLiteClient sample_db_lib ''n'' NewSQLiteOptions (start_state False) = Ret (Inr 0, sample_gorm)"
    by (simp add: NewGormSQLiteClient_def NewSQLiteOptions_def sample_db_lib_def start_state_def finish_client_def Let_def
      SetupSignalHandler_def PreStop_def new_handler_def LevelDB_def LevelMax_def collector_Register_def sample_gorm_def)
  then show ?thesis by (intro r_into_rtranclp gorm_step.new_sqlite)
qed


lemma Collect_reports_witness:
  "\<exists>gs' sent. Collect sample_db_lib id [''id''] sample_gorm Map.empty = (gs', sent) \<and>
    gs' (''gorm_dbstats_in_use'', (''sqlite'', ''n'', ''data.db'', ''main'')) = Some 1"
proof -
  obtain gs' sent where c: "Collect sample_db_lib id [''id''] sample_gorm Map.empty = (gs', sent)"
    by (cases "Collect sample_db_lib id [''id''] sample_gorm Map.empty")
  have i: "instances sample_gorm ''id'' = Some 0" "db_DB sample_db_lib (database (clients sample_gorm ! 0)) = Inr ''data.db''" "2 < length gauge_vecs"
    by (simp_all add: sample_gorm_def sample_db_lib_def gauge_vecs_def)
  have w: "set [''id''] = dom (instances sample_gorm)" "distinct [''id'']"
    "inj_on (\<lambda>i. identity (clients sample_gorm ! the (instances sample_gorm i))) (set [''id''])"
    "\<forall>sql. length (sql_Stats sample_db_lib sql (world sample_gorm)) = length gauge_vecs"
    by (simp_all add: sample_gorm_def sample_db_lib_def gauge_vecs_def)
  have "gs' (gauge_vecs ! 2, labels_of (clients sample_gorm ! 0)) = Some (id (sql_Stats sample_db_lib ''data.db'' (world sample_gorm) ! 2))"
    by (rule conjunct2 [OF Collect_reports [OF w c], rule_format, OF i])
  with c show ?thesis
    by (simp add: sample_gorm_def sample_db_lib_def gauge_vecs_def labels_of_def host_label_def sqlite_GetType_def sqlite_GetPeer_def
      NewSQLiteOptions_def)
qed

end
