(* ===== verification/Sqlite_Function.thy ===== *)
theory Sqlite_Function
  imports Encoding
begin

text \<open>
  The SQL function \<open>from_base64\<close> that \<open>clients/gorm/gorm_sqlite.go\<close> registers with the SQLite driver, so that
  statements written for MySQL work. \<open>StdEncoding\<close> is padded: lines ends are skipped, the rest has a length
  that is a multiple of four, and up to two padding characters are at its end.
\<close>

definition not_newline :: "char \<Rightarrow> bool" where
  "not_newline c = (c \<noteq> CHR 0x0A \<and> c \<noteq> CHR 0x0D)"

definition strip_padding :: "string \<Rightarrow> string" where
  "strip_padding s = (if has_suffix s ''=='' then take (length s - 2) s else if has_suffix s ''='' then take (length s - 1) s else s)"

definition std_decode :: "string \<Rightarrow> bytes option" where
  "std_decode s = (let t = filter not_newline s in if length t mod 4 = 0 then b64_decode (strip_padding t) else None)"

text \<open>A value of the driver; \<open>from_base64\<close> takes texts, and names the type of anything else.\<close>

datatype sql_value = SqlNull | SqlInt int | SqlText string | SqlBlob bytes | SqlOther string

datatype sql_function_error = CorruptInput | UnsupportedType string

fun type_name :: "sql_value \<Rightarrow> string" where
  "type_name SqlNull = ''<nil>''"
| "type_name (SqlInt i) = ''int64''"
| "type_name (SqlText s) = ''string''"
| "type_name (SqlBlob b) = ''[]uint8''"
| "type_name (SqlOther t) = t"

definition from_base64 :: "sql_value list \<Rightarrow> (sql_function_error + bytes) run" where
  "from_base64 args =
     (case args of
        [] \<Rightarrow> Panic
      | SqlText s # _ \<Rightarrow> (case std_decode s of None \<Rightarrow> Ret (Inl CorruptInput) | Some b \<Rightarrow> Ret (Inr b))
      | v # _ \<Rightarrow> Ret (Inl (UnsupportedType (type_name v))))"

section \<open>It reads what MySQL's \<open>to_base64\<close> writes\<close>

definition std_encode :: "bytes \<Rightarrow> string" where
  "std_encode bs = b64_encode bs @ replicate ((3 - length bs mod 3) mod 3) (CHR ''='')"

lemma length_std_encode: "length (std_encode bs) mod 4 = 0"
proof -
  have three: "Suc (Suc (Suc n)) mod 3 = n mod 3" for n :: nat by presburger
  have "(length (b64_encode bs) + (3 - length bs mod 3) mod 3) mod 4 = 0"
    by (induction bs rule: b64_encode.induct) (simp_all add: Let_def three)
  then show ?thesis by (simp add: std_encode_def)
qed

lemma b64_encode_chars: "c \<in> set (b64_encode bs) \<Longrightarrow> b64_plain c"
  using sextets_less [of bs] by (auto simp: b64_encode_sextets)

lemma strip_std_encode: "strip_padding (std_encode bs) = b64_encode bs"
proof -
  have e: "CHR ''='' \<notin> set (b64_encode bs)"
    using b64_encode_chars [of "CHR ''=''" bs] by (auto simp: b64_plain_def b64_table_def)
  have "has_suffix t (u @ [x]) \<Longrightarrow> x \<in> set t" for t u :: string and x
    by (cases t rule: rev_cases) (auto simp: has_suffix_def)
  from this [of "b64_encode bs" "[]" "CHR ''=''"] this [of "b64_encode bs" "''=''" "CHR ''=''"]
  have none: "\<not> has_suffix (b64_encode bs) ''=''" "\<not> has_suffix (b64_encode bs) ''==''"
    using e by auto
  then have one: "\<not> has_suffix (b64_encode bs @ ''='') ''==''" by (simp add: has_suffix_def)
  have "(3 - length bs mod 3) mod 3 \<in> {0, 1, 2}" using mod_less_divisor [of 3 "3 - length bs mod 3"] by auto
  then show ?thesis
    using none one by (auto simp: std_encode_def strip_padding_def numeral_2_eq_2 has_suffix_def)
qed

text \<open>
  Bytes written in base64 with padding, with line ends anywhere, as MySQL breaks its lines, are read back; a
  blob is refused, also when it holds such a text, and so is a text whose padding is missing.
\<close>

theorem from_base64_reads_back:
  assumes "filter not_newline s = std_encode bs"
  shows "from_base64 (SqlText s # more) = Ret (Inr bs) \<and>
    from_base64 (SqlBlob (bytes_of s) # more) = Ret (Inl (UnsupportedType ''[]uint8'')) \<and>
    (length bs mod 3 \<noteq> 0 \<longrightarrow> from_base64 (SqlText (b64_encode bs) # more) = Ret (Inl CorruptInput))"
proof -
  have "std_decode s = Some bs"
    using length_std_encode [of bs] by (simp add: std_decode_def assms strip_std_encode)
  moreover have "std_decode (b64_encode bs) = None" if "length bs mod 3 \<noteq> 0"
  proof -
    have "filter not_newline (b64_encode bs) = b64_encode bs"
      using b64_encode_chars b64_plain_not by (intro filter_True) (auto simp: not_newline_def)
    moreover have "length (b64_encode bs) mod 4 \<noteq> 0"
    proof -
      have "length bs mod 3 < 3" by simp
      with that have "length bs mod 3 = 1 \<or> length bs mod 3 = 2" by linarith
      then have "(3 - length bs mod 3) mod 3 = 1 \<or> (3 - length bs mod 3) mod 3 = 2" by auto
      note p = this
      have l: "(length (b64_encode bs) + (3 - length bs mod 3) mod 3) mod 4 = 0"
        using length_std_encode [of bs] unfolding std_encode_def length_append length_replicate .
      have "(n + p) mod 4 = 0 \<Longrightarrow> p = 1 \<or> p = 2 \<Longrightarrow> n mod 4 \<noteq> 0" for n p :: nat by presburger
      from this [OF l p] show ?thesis .
    qed
    ultimately show ?thesis by (simp add: std_decode_def)
  qed
  ultimately show ?thesis by (simp add: from_base64_def)
qed

lemma from_base64_reads_back_witness:
  "from_base64 [SqlText (''Zm9v'' @ [CHR 0x0A] @ ''Yg=='')] = Ret (Inr [102, 111, 111, 98])"
proof -
  have two: "replicate 2 c = [c, c]" for c :: char by (simp add: numeral_2_eq_2)
  have "filter not_newline (''Zm9v'' @ [CHR 0x0A] @ ''Yg=='') = std_encode [102, 111, 111, 98]"
    by (simp add: not_newline_def std_encode_def b64_char_def b64_table_def Let_def two)
  from from_base64_reads_back [OF this, of "[]"] show ?thesis by simp
qed

end
