(* ===== verification/Sql_Log.thy ===== *)
theory Sql_Log
  imports Gorm_Options Logging
begin

text \<open>
  \<open>clients/gorm/logger.go\<close>: the adapter that Gorm logs with. It filters by level, and \<open>Trace\<close> records every
  statement with a span and a log line whose level depends on the error and on the time the statement
  took. The filters of \<open>go-kit\<close>, \<open>fmt.Sprintf\<close> and the caller that \<open>utils.FileWithLineNum\<close> finds are
  parameters.
\<close>

record ('l, 't) sql_logger =
  sl_logger :: 'l
  sl_slowThreshold :: int
  sl_tracer :: "'t option"

definition NewLogAdapter :: "'l \<Rightarrow> int \<Rightarrow> 't option \<Rightarrow> ('l, 't) sql_logger" where
  "NewLogAdapter l slow t = \<lparr>sl_logger = l, sl_slowThreshold = slow, sl_tracer = t\<rparr>"

datatype gorm_level = Silent | ErrorLevel | WarnLevel | InfoLevel | OtherLevel int

datatype kit_filter = AllowNone | Allow level_option

definition LogMode :: "(kit_filter \<Rightarrow> 'l \<Rightarrow> 'l) \<Rightarrow> gorm_level \<Rightarrow> ('l, 't) sql_logger \<Rightarrow> ('l, 't) sql_logger" where
  "LogMode NewFilter lvl l =
     (let filtered = (case lvl of
        Silent \<Rightarrow> NewFilter AllowNone (sl_logger l)
      | InfoLevel \<Rightarrow> NewFilter (Allow AllowInfo) (sl_logger l)
      | WarnLevel \<Rightarrow> NewFilter (Allow AllowWarn) (sl_logger l)
      | ErrorLevel \<Rightarrow> NewFilter (Allow AllowError) (sl_logger l)
      | OtherLevel _ \<Rightarrow> sl_logger l)
      in NewLogAdapter filtered (sl_slowThreshold l) (sl_tracer l))"

text \<open>A line of the log: its level and its key values, the caller first.\<close>

datatype log_level = LDebug | LInfo | LWarn | LError

datatype 'e log_value = VString string | VError 'e | VMillis int | VRows int

record 'e log_line =
  ln_level :: log_level
  ln_caller :: string
  ln_kvs :: "(string \<times> 'e log_value) list"

text \<open>The three formatted messages.\<close>

definition sql_message :: "log_level \<Rightarrow> (string \<Rightarrow> 'd list \<Rightarrow> string) \<Rightarrow> string \<Rightarrow> string \<Rightarrow> 'd list \<Rightarrow> 'e log_line" where
  "sql_message lvl Sprintf caller msg data = \<lparr>ln_level = lvl, ln_caller = caller, ln_kvs = [(''msg'', VString (Sprintf msg data))]\<rparr>"

definition sql_Info where "sql_Info = sql_message LInfo"
definition sql_Warn where "sql_Warn = sql_message LWarn"
definition sql_Error where "sql_Error = sql_message LError"

text \<open>
  \<open>Trace\<close>: the span is started by the adapter's tracer or by the one of the program. The time is in
  nanoseconds; the line shows it in milliseconds, as \<open>VMillis\<close> of the nanoseconds.
\<close>

datatype 'e span_status = StatusOk | StatusError 'e

record ('t, 'e) sql_span =
  sp_tracer :: 't
  sp_statement :: string
  sp_rows :: int
  sp_status :: "'e span_status"

definition trace_fields :: "string \<Rightarrow> int \<Rightarrow> int \<Rightarrow> (string \<times> 'e log_value) list" where
  "trace_fields sql elapsed rows =
     [(''sql'', VString sql), (''execTime'', VMillis elapsed), (''rowReturnCount'', VRows rows)]"

definition Trace ::
  "'t \<Rightarrow> string \<Rightarrow> ('l, 't) sql_logger \<Rightarrow> int \<Rightarrow> (string \<times> int) \<Rightarrow> 'e \<Rightarrow> 'e option \<Rightarrow> ('t, 'e) sql_span \<times> 'e log_line" where
  "Trace default_tracer caller l elapsed fc ErrRecordNotFound err =
     (let tr = (case sl_tracer l of Some t \<Rightarrow> t | None \<Rightarrow> default_tracer);
          (sql, rows) = fc;
          span = (\<lambda>st. \<lparr>sp_tracer = tr, sp_statement = sql, sp_rows = rows, sp_status = st\<rparr>);
          line = (\<lambda>lvl kvs. \<lparr>ln_level = lvl, ln_caller = caller, ln_kvs = kvs @ trace_fields sql elapsed rows\<rparr>)
      in if err \<noteq> None \<and> err \<noteq> Some ErrRecordNotFound then
           (span (StatusError (the err)), line LError [(''msg'', VString ''SQL execution exception''), (''errorMsg'', VError (the err))])
         else if elapsed > sl_slowThreshold l \<and> sl_slowThreshold l \<noteq> 0 then
           (span StatusOk, line LWarn [(''msg'', VString ''exec SQL query'')])
         else (span StatusOk, line LDebug [(''msg'', VString ''exec SQL query'')]))"

text \<open>
  Every statement is recorded with its text and its number of rows, in the span and in one line of
  the log. The line is an error, with the error in it, exactly for an error other than a missing record;
  otherwise it is a warning exactly when the statement took longer than a threshold that is not 0, and a
  debug line else.
\<close>

theorem Trace_records:
  assumes "Trace tr caller l elapsed (sql, rows) not_found err = (span, line)"
  shows "sp_statement span = sql \<and> sp_rows span = rows \<and> (''sql'', VString sql) \<in> set (ln_kvs line) \<and>
    (''rowReturnCount'', VRows rows) \<in> set (ln_kvs line) \<and>
    (case err of
       Some e \<Rightarrow> if e \<noteq> not_found then ln_level line = LError \<and> sp_status span = StatusError e \<and> (''errorMsg'', VError e) \<in> set (ln_kvs line)
         else ln_level line \<noteq> LError \<and> sp_status span = StatusOk
     | None \<Rightarrow> ln_level line \<noteq> LError \<and> sp_status span = StatusOk) \<and>
    (ln_level line = LWarn \<longleftrightarrow> err \<in> {None, Some not_found} \<and> sl_slowThreshold l \<noteq> 0 \<and> sl_slowThreshold l < elapsed)"
  using assms by (cases err) (auto simp: Trace_def trace_fields_def Let_def split: if_splits)

lemma Trace_records_witness:
  "ln_level (snd (Trace () ''f.go:1'' (NewLogAdapter () 5 None) 7 (''SELECT 1'', 1) 404 (Some (404 :: nat)))) = LWarn"
  using Trace_records [of "()" "''f.go:1''" "NewLogAdapter () 5 None" 7 "''SELECT 1''" 1 404 "Some (404 :: nat)"]
  by (simp add: Trace_def NewLogAdapter_def Let_def)

end
