(* ===== verification/Redis.thy ===== *)
theory Redis
  imports Safe_String Slices Signals Tls
begin

text \<open>
  \<open>clients/redis/redis.go\<close>: options and their defaults, the connection and its registration with the
  signal handler, the text of commands, and the loop over the members of a set. The driver
  (\<open>redis.ParseURL\<close>, the commands), \<open>url.Parse\<close> and the formatting of floats are parameters.
\<close>

section \<open>Options\<close>

record redis_opts =
  rAddr :: string
  rPassword :: string
  rDB :: int
  rMaxRetries :: int
  rMinRetryBackoff :: int
  rMaxRetryBackoff :: int
  rDialTimeout :: int
  rReadTimeout :: int
  rWriteTimeout :: int
  rPoolSize :: int
  rMinIdleConns :: int
  rMaxConnAge :: int
  rPoolTimeout :: int
  rIdleTimeout :: int
  rIdleCheckFrequency :: int

record 'p options =
  driver_opts :: "(redis_opts \<times> 'p tls_config option) option"
  URL :: string
  Password :: safe_string
  DB :: "int option"
  MaxRetries :: "int option"
  MinRetryBackoff :: "int option"
  MaxRetryBackoff :: "int option"
  DialTimeout :: "int option"
  ReadTimeout :: "int option"
  WriteTimeout :: "int option"
  PoolSize :: "int option"
  MinIdleConns :: "int option"
  MaxConnAge :: "int option"
  PoolTimeout :: "int option"
  IdleTimeout :: "int option"
  IdleCheckFrequency :: "int option"
  TLSConfig :: "tls_options option"

text \<open>\<open>*w.DefaultPointer(p, &x)\<close>: never nil, since the last pointer is not.\<close>

definition or_else :: "int option \<Rightarrow> int \<Rightarrow> int" where
  "or_else p x = the (DefaultPointer [p, Some x])"

lemma or_else_simps [simp]: "or_else None x = x" "or_else (Some y) x = y"
  by (simp_all add: or_else_def)

definition merge_options :: "'p options \<Rightarrow> redis_opts \<Rightarrow> redis_opts" where
  "merge_options o' r = r\<lparr>rDB := or_else (DB o') (rDB r), rMaxRetries := or_else (MaxRetries o') (rMaxRetries r),
     rMinRetryBackoff := or_else (MinRetryBackoff o') (rMinRetryBackoff r),
     rMaxRetryBackoff := or_else (MaxRetryBackoff o') (rMaxRetryBackoff r),
     rDialTimeout := or_else (DialTimeout o') (rDialTimeout r), rReadTimeout := or_else (ReadTimeout o') (rReadTimeout r),
     rWriteTimeout := or_else (WriteTimeout o') (rWriteTimeout r), rPoolSize := or_else (PoolSize o') (rPoolSize r),
     rMinIdleConns := or_else (MinIdleConns o') (rMinIdleConns r), rMaxConnAge := or_else (MaxConnAge o') (rMaxConnAge r),
     rPoolTimeout := or_else (PoolTimeout o') (rPoolTimeout r), rIdleTimeout := or_else (IdleTimeout o') (rIdleTimeout r),
     rIdleCheckFrequency := or_else (IdleCheckFrequency o') (rIdleCheckFrequency r)\<rparr>"

datatype 'e redis_error = JsonError 'e | UrlError 'e | SecretError crypt_error | TlsError string

text \<open>The JSON text: a string, with what it decodes to, or anything else, with what it does to the options.\<close>

datatype ('e, 'p) json_data = JsonString "'e + string" | JsonOther "'p options \<Rightarrow> ('e option \<times> 'p options) run"

text \<open>\<open>o.Password.SetValue(w.DefaultString(o.Password.String(), o.o.Password))\<close>.\<close>

definition set_password :: "crypto \<Rightarrow> 'p options \<Rightarrow> string \<Rightarrow> ('e redis_error option \<times> 'p options) run" where
  "set_password cx o' url_password =
     bind_run (str_String cx (Password o')) (\<lambda>(text, pw).
     map_run (\<lambda>(err, pw). (map_option SecretError err, o'\<lparr>Password := pw\<rparr>))
       (SetValue cx pw (DefaultString [text, url_password])))"

definition opts_UnmarshalJSON ::
  "crypto \<Rightarrow> (string \<Rightarrow> 'e + redis_opts \<times> 'p tls_config option) \<Rightarrow> ('p, 'c, 'te) tls_lib \<Rightarrow> ('e, 'p) json_data \<Rightarrow> 'p options \<Rightarrow>
   ('e redis_error option \<times> 'p options) run" where
  "opts_UnmarshalJSON cx ParseURL tlib data o0 =
     (case data of
        JsonString (Inl err) \<Rightarrow> Ret (Some (JsonError err), o0)
      | JsonString (Inr url) \<Rightarrow>
          let o1 = o0\<lparr>URL := url\<rparr> in
          (case ParseURL url of
             Inl err \<Rightarrow> Ret (Some (UrlError err), o1\<lparr>driver_opts := None\<rparr>)
           | Inr (r, tc) \<Rightarrow> set_password cx (o1\<lparr>driver_opts := Some (r, tc)\<rparr>) (rPassword r))
      | JsonOther decode \<Rightarrow>
          bind_run (decode o0) (\<lambda>d. case d of
             (Some err, o1) \<Rightarrow> Ret (Some (JsonError err), o1)
           | (None, o1) \<Rightarrow>
               (case ParseURL (URL o1) of
                  Inl err \<Rightarrow> Ret (Some (UrlError err), o1\<lparr>driver_opts := None\<rparr>)
                | Inr (r, tc) \<Rightarrow>
                    bind_run (set_password cx (o1\<lparr>driver_opts := Some (r, tc)\<rparr>) (rPassword r)) (\<lambda>p. case p of
                      (Some err, o2) \<Rightarrow> Ret (Some err, o2)
                    | (None, o2) \<Rightarrow>
                        let r = merge_options o2 r; o2 = o2\<lparr>driver_opts := Some (r, tc)\<rparr> in
                        (case TLSConfig o2 of
                           None \<Rightarrow> Ret (None, o2)
                         | Some t \<Rightarrow>
                             (case NewTLSConfig tlib (Some t) of
                                Inl err \<Rightarrow> Ret (Some (TlsError err), o2)
                              | Inr tc2 \<Rightarrow> Ret (None, o2\<lparr>driver_opts := Some (r, Some tc2)\<rparr>)))))))"

text \<open>
  \<open>NewRedisClient\<close>: the client is made from a copy of the driver's options; options that were never
  decoded have a nil pointer. The function registered with the signal handler is \<open>closer\<close> of the client.
\<close>

datatype 'e connect_error = NoSecret crypt_error | PingFailed 'e

definition NewRedisClient ::
  "crypto \<Rightarrow> (redis_opts \<Rightarrow> 'p tls_config option \<Rightarrow> 'c) \<Rightarrow> ('c \<Rightarrow> 'w \<Rightarrow> 'e option \<times> 'w) \<Rightarrow> ('c \<Rightarrow> 'w \<Rightarrow> 'w) \<Rightarrow>
   ('c \<Rightarrow> 'f) \<Rightarrow> 'p options \<Rightarrow> 'f handler option \<Rightarrow> 'w \<Rightarrow> (('e connect_error + 'c) \<times> 'f handler option \<times> 'w) run" where
  "NewRedisClient cx new_client ping close closer option stopHandler w =
     (case driver_opts option of
        None \<Rightarrow> Panic
      | Some (r, tc) \<Rightarrow>
          bind_run (UnsafeString cx (Password option)) (\<lambda>pw. case pw of
            Inl err \<Rightarrow> Ret (Inl (NoSecret err), stopHandler, w)
          | Inr passwd \<Rightarrow>
              let client = new_client (r\<lparr>rPassword := passwd\<rparr>) tc in
              (case ping client w of
                 (Some err, w) \<Rightarrow> Ret (Inl (PingFailed err), stopHandler, close client w)
               | (None, w) \<Rightarrow>
                   (case SetupSignalHandler stopHandler of
                      None \<Rightarrow> Panic
                    | Some stopCh \<Rightarrow> map_run (\<lambda>h. (Inr client, Some h, w)) (PreStop stopCh LevelDB (closer client))))))"

definition GetPeer :: "(string \<Rightarrow> 'e + string \<times> string) \<Rightarrow> 'p options \<Rightarrow> string \<times> int" where
  "GetPeer parse_url o' =
     (case parse_url (URL o') of
        Inl err \<Rightarrow> ([], 0)
      | Inr (hostname, port) \<Rightarrow> (hostname, snd (parse_int 64 port)))"

section \<open>Commands\<close>

datatype ('x, 'e) arg =
    ANil | AString string | ABytes bytes
  | AInt int | AInt8 int | AInt16 int | AInt32 int | AInt64 int
  | AUint nat | AUint8 nat | AUint16 nat | AUint32 nat | AUint64 nat
  | AFloat 'x | ABool bool | ABinary "'e + bytes" | AOther string

fun parseArg :: "('x \<Rightarrow> string) \<Rightarrow> (string \<Rightarrow> 'e) \<Rightarrow> ('x, 'e) arg \<Rightarrow> 'e + string" where
  "parseArg ff errorf ANil = Inr []"
| "parseArg ff errorf (AString v) = Inr v"
| "parseArg ff errorf (ABytes v) = Inr (string_of v)"
| "parseArg ff errorf (AInt v) = Inr (itoa v)"
| "parseArg ff errorf (AInt8 v) = Inr (itoa v)"
| "parseArg ff errorf (AInt16 v) = Inr (itoa v)"
| "parseArg ff errorf (AInt32 v) = Inr (itoa v)"
| "parseArg ff errorf (AInt64 v) = Inr (itoa v)"
| "parseArg ff errorf (AUint v) = Inr (dec_nat v)"
| "parseArg ff errorf (AUint8 v) = Inr (dec_nat v)"
| "parseArg ff errorf (AUint16 v) = Inr (dec_nat v)"
| "parseArg ff errorf (AUint32 v) = Inr (dec_nat v)"
| "parseArg ff errorf (AUint64 v) = Inr (dec_nat v)"
| "parseArg ff errorf (AFloat v) = Inr (ff v)"
| "parseArg ff errorf (ABool v) = Inr (if v then ''true'' else ''false'')"
| "parseArg ff errorf (ABinary (Inl err)) = Inl err"
| "parseArg ff errorf (ABinary (Inr b)) = Inr (string_of b)"
| "parseArg ff errorf (AOther ty) = Inl (errorf (''redis: can't marshal '' @ ty @ '' (implement encoding.BinaryMarshaler)''))"

definition cmd_String ::
  "('x \<Rightarrow> string) \<Rightarrow> (string \<Rightarrow> 'e) \<Rightarrow> ('e \<Rightarrow> string) \<Rightarrow> (string \<Rightarrow> string) \<Rightarrow> ('x, 'e) arg list \<Rightarrow> string" where
  "cmd_String ff errorf show_err json args =
     foldl (\<lambda>buf (idx, arg). buf @ (if idx \<noteq> 0 then '' '' else []) @
        (case parseArg ff errorf arg of Inl err \<Rightarrow> json (''<'' @ show_err err @ ''>'') | Inr s \<Rightarrow> s))
       [] (zip [0..<length args] args)"

section \<open>The members of a set\<close>

datatype 'e callback_error = ErrStopLoop | Failed 'e

text \<open>The loop over one page: \<open>break\<close> leaves this loop and no other.\<close>

fun visit_page ::
  "(string \<Rightarrow> string \<Rightarrow> 'a \<Rightarrow> 'e callback_error option \<times> 'a) \<Rightarrow> string \<Rightarrow> string list \<Rightarrow> 'a \<Rightarrow> 'e option \<times> 'a" where
  "visit_page f key [] a = (None, a)"
| "visit_page f key (member # ret) a =
     (case f key member a of
        (None, a) \<Rightarrow> visit_page f key ret a
      | (Some ErrStopLoop, a) \<Rightarrow> (None, a)
      | (Some (Failed err), a) \<Rightarrow> (Some err, a))"

partial_function (option) scan_loop ::
  "(u64 \<Rightarrow> int \<Rightarrow> 'w \<Rightarrow> ('e + string list \<times> u64) \<times> 'w) \<Rightarrow> ('w \<Rightarrow> 'a \<Rightarrow> bool) \<Rightarrow>
   (string \<Rightarrow> string \<Rightarrow> 'a \<Rightarrow> 'e callback_error option \<times> 'a) \<Rightarrow> string \<Rightarrow> int \<Rightarrow> u64 \<Rightarrow> 'w \<Rightarrow> 'a \<Rightarrow>
   ('e option \<times> 'w \<times> 'a) option" where
  "scan_loop sscan ctx_done f key pageSize cursor w a =
     (if ctx_done w a then scan_loop sscan ctx_done f key pageSize cursor w a
      else (case sscan cursor pageSize w of
        (Inl err, w) \<Rightarrow> Some (Some err, w, a)
      | (Inr (ret, cursor), w) \<Rightarrow>
          (case visit_page f key ret a of
             (Some err, a) \<Rightarrow> Some (Some err, w, a)
           | (None, a) \<Rightarrow>
               if int (length ret) < pageSize then Some (None, w, a)
               else scan_loop sscan ctx_done f key pageSize cursor w a)))"

definition ForeachSet ::
  "(string \<Rightarrow> 'w \<Rightarrow> ('e + int) \<times> 'w) \<Rightarrow> (string \<Rightarrow> u64 \<Rightarrow> int \<Rightarrow> 'w \<Rightarrow> ('e + string list \<times> u64) \<times> 'w) \<Rightarrow> ('w \<Rightarrow> 'a \<Rightarrow> bool) \<Rightarrow>
   (string \<Rightarrow> string \<Rightarrow> 'a \<Rightarrow> 'e callback_error option \<times> 'a) \<Rightarrow> string \<Rightarrow> u64 \<Rightarrow> int \<Rightarrow> 'w \<Rightarrow> 'a \<Rightarrow>
   ('e option \<times> 'w \<times> 'a) option" where
  "ForeachSet scard sscan ctx_done f key cursor pageSize w a =
     (case scard key w of
        (Inl err, w) \<Rightarrow> Some (Some err, w, a)
      | (Inr listLength, w) \<Rightarrow>
          if listLength = 0 then Some (None, w, a)
          else scan_loop (sscan key) ctx_done f key (if pageSize = 0 then 100 else pageSize) cursor w a)"

section \<open>Connections use the configured password\<close>

lemma set_password_url:
  fixes o1 :: "'p options"
  assumes "good_crypto cx" "val_of (Password o1) = []" "\<not> encrypted p" "set_password cx o1 p = Ret (None :: 'e redis_error option, o2)"
  shows "UnsafeString cx (Password o2) = Ret (Inr p) \<and> o2 = o1\<lparr>Password := Password o2\<rparr>"
proof -
  have "bind_run (Ret ([], Password o1)) (\<lambda>(text, pw). map_run (\<lambda>(err, pw). (map_option SecretError err, o1\<lparr>Password := pw\<rparr>))
       (SetValue cx pw (DefaultString [text, p]))) = Ret (None :: 'e redis_error option, o2)"
    using assms(2,4) by (simp add: set_password_def str_String_def del: DefaultString.simps)
  moreover have "DefaultString [[], p] = p" by simp
  ultimately obtain pw where pw: "SetValue cx (Password o1) p = Ret (None, pw)" "o2 = o1\<lparr>Password := pw\<rparr>"
    by (auto simp: map_run_def bind_run_Ret_conv)
  from set_value.mk_plain [OF assms(1,3) pw(1)] show ?thesis by (simp add: pw(2))
qed

lemma set_password_kept:
  assumes "encrypted (val_of (Password o1))" "set_password cx o1 p = Ret (None :: 'e redis_error option, o2)"
  shows "o2 = o1"
proof -
  have ne: "val_of (Password o1) \<noteq> []"
    using assms(1) by (auto simp: encrypted_def ciphertextPrefix_def)
  then have "str_String cx (Password o1) = Ret (val_of (Password o1), Password o1)"
    using assms(1) by (simp add: str_String_def)
  moreover have "DefaultString [val_of (Password o1), p] = val_of (Password o1)" using ne by simp
  ultimately show ?thesis
    using assms by (simp add: set_password_def SetValue_def)
qed

lemma set_password_only:
  assumes "set_password cx o1 p = Ret (e, o3)"
  obtains pw where "o3 = o1\<lparr>Password := pw\<rparr>"
  using assms by (auto simp: set_password_def map_run_def bind_run_Ret_conv)

lemma NewRedisClient_registers:
  assumes "driver_opts op = Some (r, tc)" "UnsafeString cx (Password op) = Ret (Inr p)"
    and "ping (new_client (r\<lparr>rPassword := p\<rparr>) tc) w = (None, w')" "\<forall>h. sh = Some h \<longrightarrow> handler_ok h"
  shows "\<exists>h. NewRedisClient cx new_client ping close closer op sh w = Ret (Inr (new_client (r\<lparr>rPassword := p\<rparr>) tc), Some h, w') \<and>
    handler_ok h \<and> closer (new_client (r\<lparr>rPassword := p\<rparr>) tc) \<in> set (preStopFuncs h ! LevelDB)"
proof -
  obtain h0 where h0: "SetupSignalHandler sh = Some h0" "handler_ok h0"
    using assms(4) handler_ok_new by (cases sh) (auto simp: SetupSignalHandler_def)
  then obtain h where "PreStop h0 LevelDB (closer (new_client (r\<lparr>rPassword := p\<rparr>) tc)) = Ret h" "handler_ok h"
    "closer (new_client (r\<lparr>rPassword := p\<rparr>) tc) \<in> set (preStopFuncs h ! LevelDB)"
    by (auto simp: PreStop_def handler_ok_def LevelDB_def LevelMax_def)
  with assms(1-3) h0(1) show ?thesis by (simp add: NewRedisClient_def Let_def)
qed

lemma opts_string:
  fixes ParseURL :: "string \<Rightarrow> 'e + redis_opts \<times> 'p tls_config option"
  assumes "opts_UnmarshalJSON cx ParseURL tlib (JsonString (Inr url)) o0 = Ret (None, o2)" "ParseURL url = Inr (r, tc)"
  shows "set_password cx (o0\<lparr>URL := url, driver_opts := Some (r, tc)\<rparr>) (rPassword r) = Ret (None :: 'e redis_error option, o2)"
  using assms by (simp add: opts_UnmarshalJSON_def)

lemma opts_object:
  fixes ParseURL :: "string \<Rightarrow> 'e + redis_opts \<times> 'p tls_config option"
  assumes "opts_UnmarshalJSON cx ParseURL tlib (JsonOther decode) o0 = Ret (None, o2)" "decode o0 = Ret (None, o1)"
    "ParseURL (URL o1) = Inr (r, tc)" "TLSConfig o1 = None"
  obtains pw where "set_password cx (o1\<lparr>driver_opts := Some (r, tc)\<rparr>) (rPassword r) =
      Ret (None :: 'e redis_error option, o1\<lparr>driver_opts := Some (r, tc), Password := pw\<rparr>)"
    and "o2 = o1\<lparr>driver_opts := Some (merge_options o1 r, tc), Password := pw\<rparr>"
proof -
  obtain e o3 where x: "set_password cx (o1\<lparr>driver_opts := Some (r, tc)\<rparr>) (rPassword r) = Ret (e :: 'e redis_error option, o3)"
    using assms(1-4)
    by (cases "set_password cx (o1\<lparr>driver_opts := Some (r, tc)\<rparr>) (rPassword r) :: ('e redis_error option \<times> 'p options) run")
      (auto simp: opts_UnmarshalJSON_def)
  from set_password_only [OF x] obtain pw where pw: "o3 = o1\<lparr>driver_opts := Some (r, tc), Password := pw\<rparr>" by auto
  have e: "e = None" using assms(1-4) x by (cases e) (auto simp: opts_UnmarshalJSON_def)
  have "o2 = o1\<lparr>driver_opts := Some (merge_options o1 r, tc), Password := pw\<rparr>"
    using assms x unfolding e pw by (auto simp: opts_UnmarshalJSON_def merge_options_def)
  with x e pw that show ?thesis by simp
qed

text \<open>
  C22: Options decoded without an error from a JSON object, with the URL in it, connect with the values of
  the object where it has them and those of the URL where it has none, and with the clear password: that
  of the URL when the object has none, or else the one whose encrypted text the object holds. A connection
  that answers the ping is registered to be closed at the level of the databases.
\<close>

theorem NewRedisClient_connects:
  fixes ParseURL :: "string \<Rightarrow> 'e + redis_opts \<times> 'p tls_config option" and o1 :: "'p options"
  assumes "good_crypto cx" "\<forall>h. sh = Some h \<longrightarrow> handler_ok h" "\<not> encrypted (rPassword r)"
    and "decode o0 = Ret (None, o1)" "ParseURL (URL o1) = Inr (r, tc)" "TLSConfig o1 = None"
    and "val_of (Password o1) = [] \<and> p = rPassword r \<or>
      encrypted (val_of (Password o1)) \<and> UnsafeString cx (Password o1) = Ret (Inr p)"
    and "opts_UnmarshalJSON cx ParseURL tlib (JsonOther decode) o0 = Ret (None, o2)"
    and "c = new_client (merge_options o1 r\<lparr>rPassword := p\<rparr>) tc" "ping c w = (None, w')"
  shows "\<exists>h. NewRedisClient cx new_client ping close closer o2 sh w = Ret (Inr c, Some h, w') \<and>
    closer c \<in> set (preStopFuncs h ! LevelDB)"
proof -
  let ?o = "o1\<lparr>driver_opts := Some (r, tc)\<rparr>"
  obtain pw where pw: "set_password cx ?o (rPassword r) = Ret (None :: 'e redis_error option, ?o\<lparr>Password := pw\<rparr>)"
    and o2: "o2 = ?o\<lparr>driver_opts := Some (merge_options o1 r, tc), Password := pw\<rparr>"
    by (rule opts_object [OF assms(8,4,5,6)]) simp
  have "UnsafeString cx pw = Ret (Inr p)"
    using assms(7)
  proof
    assume "val_of (Password o1) = [] \<and> p = rPassword r"
    then show ?thesis using set_password_url [OF assms(1) _ assms(3) pw] by simp
  next
    assume "encrypted (val_of (Password o1)) \<and> UnsafeString cx (Password o1) = Ret (Inr p)"
    moreover from this have "pw = Password o1"
      using arg_cong [OF set_password_kept [OF _ pw], of Password] by simp
    ultimately show ?thesis by simp
  qed
  then show ?thesis
    using NewRedisClient_registers [of o2 "merge_options o1 r" tc cx p ping new_client w w' sh] assms(2,9,10)
    by (simp add: o2) blast
qed

definition blank_redis :: redis_opts where
  "blank_redis = \<lparr>rAddr = [], rPassword = ''pw'', rDB = 0, rMaxRetries = 0, rMinRetryBackoff = 0, rMaxRetryBackoff = 0, rDialTimeout = 0,
     rReadTimeout = 0, rWriteTimeout = 0, rPoolSize = 10, rMinIdleConns = 0, rMaxConnAge = 0, rPoolTimeout = 0, rIdleTimeout = 0,
     rIdleCheckFrequency = 0\<rparr>"

definition no_tls :: "(unit, unit, unit) tls_lib" where
  "no_tls = \<lparr>ReadFile = (\<lambda>_. Inl ()), AppendCertsFromPEM = (\<lambda>_. None), LoadX509KeyPair = (\<lambda>_ _. Inl ()),
     err_text = (\<lambda>_. []), quote = id\<rparr>"

definition blank_options :: "unit options" where
  "blank_options = \<lparr>driver_opts = None, URL = ''redis://:pw@h'', Password = \<lparr>val_of = [], secret_of = []\<rparr>, DB = Some 3, MaxRetries = None,
     MinRetryBackoff = None, MaxRetryBackoff = None, DialTimeout = None, ReadTimeout = None, WriteTimeout = None, PoolSize = None,
     MinIdleConns = None, MaxConnAge = None, PoolTimeout = None, IdleTimeout = None, IdleCheckFrequency = None, TLSConfig = None\<rparr>"

lemma NewRedisClient_connects_witness:
  "\<exists>o2 h. opts_UnmarshalJSON (example_crypto []) (\<lambda>_. Inr (blank_redis, None) :: unit + redis_opts \<times> unit tls_config option) no_tls (JsonOther (\<lambda>x. Ret (None, x))) blank_options =
      Ret (None, o2) \<and>
    NewRedisClient (example_crypto []) (\<lambda>r _. (rDB r, rPassword r)) (\<lambda>_ w. (None :: unit option, w)) (\<lambda>_ w. w) (\<lambda>c. c) o2 None () =
      Ret (Inr (3, ''pw''), Some h, ()) \<and> (3, ''pw'') \<in> set (preStopFuncs h ! LevelDB)"
proof -
  have p: "\<not> encrypted ''pw''" by (simp add: encrypted_def ciphertextPrefix_def)
  have "\<exists>o2. opts_UnmarshalJSON (example_crypto []) (\<lambda>_. Inr (blank_redis, None) :: unit + redis_opts \<times> unit tls_config option) no_tls (JsonOther (\<lambda>x. Ret (None, x))) blank_options =
      Ret (None, o2)"
    using p by (simp add: opts_UnmarshalJSON_def set_password_def str_String_def SetValue_def getSecret_def
      blank_options_def blank_redis_def example_crypto_def)
  then obtain o2 where o2: "opts_UnmarshalJSON (example_crypto []) (\<lambda>_. Inr (blank_redis, None) :: unit + redis_opts \<times> unit tls_config option) no_tls
      (JsonOther (\<lambda>x. Ret (None, x))) blank_options = Ret (None, o2)" ..
  have "\<exists>h. NewRedisClient (example_crypto []) (\<lambda>r _. (rDB r, rPassword r)) (\<lambda>_ w. (None :: unit option, w)) (\<lambda>_ w. w) (\<lambda>c. c) o2 None () =
      Ret (Inr (3, ''pw''), Some h, ()) \<and> (3, ''pw'') \<in> set (preStopFuncs h ! LevelDB)"
    using p
    by (intro NewRedisClient_connects [OF example_crypto_good _ _ _ _ _ _ o2, where r = blank_redis and tc = None and ?o1.0 = blank_options and p = "''pw''"])
      (simp_all add: blank_redis_def blank_options_def merge_options_def)
  with o2 show ?thesis by blast
qed

section \<open>The loop over a set\<close>

lemma visit_page_all: "\<forall>m a. f key m a = (None, g m a) \<Longrightarrow> visit_page f key ms a = (None, fold g ms a)"
  by (induction ms arbitrary: a) auto

lemma visit_page_no_error:
  "\<forall>m a. fst (f key m a) \<in> {None, Some ErrStopLoop} \<Longrightarrow> \<exists>a'. visit_page f key ms a = (None, a')"
proof (induction ms arbitrary: a)
  case (Cons m ms)
  obtain e a' where "f key m a = (e, a')" by (cases "f key m a")
  moreover from this have "e \<in> {None, Some ErrStopLoop}" using Cons.prems by (metis fst_conv)
  ultimately show ?case using Cons by auto
qed simp

text \<open>The cursor after \<open>i\<close> pages and the members of the first pages, of a server that answers \<open>pg\<close>.\<close>

definition cursor_at :: "(u64 \<Rightarrow> string list \<times> u64) \<Rightarrow> u64 \<Rightarrow> nat \<Rightarrow> u64" where
  "cursor_at pg cursor i = ((\<lambda>c. snd (pg c)) ^^ i) cursor"

definition members :: "(u64 \<Rightarrow> string list \<times> u64) \<Rightarrow> u64 \<Rightarrow> nat \<Rightarrow> string list" where
  "members pg cursor n = concat (map (\<lambda>i. fst (pg (cursor_at pg cursor i))) [0..<n])"

lemma cursor_at_simps [simp]:
  "cursor_at pg c 0 = c" "cursor_at pg (snd (pg c)) i = cursor_at pg c (Suc i)"
  using funpow_swap1 [of "\<lambda>c. snd (pg c)" i c] by (simp_all add: cursor_at_def)

lemma members_simps [simp]:
  "members pg c 0 = []" "members pg c (Suc n) = fst (pg c) @ members pg (snd (pg c)) n"
  by (simp_all add: members_def upt_conv_Cons map_Suc_upt [symmetric] comp_def del: upt_Suc)

lemma scan_loop_all:
  assumes "\<forall>w a. \<not> ctx_done w a" "\<forall>c w. sscan c ps w = (Inr (pg c), w)" "\<forall>m a. f key m a = (None, g m a)"
    and "\<forall>i<k. ps \<le> int (length (fst (pg (cursor_at pg cursor i))))"
    and "int (length (fst (pg (cursor_at pg cursor k)))) < ps"
  shows "scan_loop sscan ctx_done f key ps cursor w a = Some (None, w, fold g (members pg cursor (Suc k)) a)"
  using assms(4,5)
proof (induction k arbitrary: cursor a)
  case 0
  then show ?case
    by (cases "pg cursor", subst scan_loop.simps) (simp add: assms(1,2) visit_page_all [where f = f and key = key and g = g, OF assms(3)] split: prod.splits)
next
  case (Suc k)
  have "\<forall>i<k. ps \<le> int (length (fst (pg (cursor_at pg (snd (pg cursor)) i))))"
    using Suc.prems(1) by auto
  moreover have "int (length (fst (pg (cursor_at pg (snd (pg cursor)) k)))) < ps"
    using Suc.prems(2) by simp
  moreover have "ps \<le> int (length (fst (pg cursor)))" using Suc.prems(1) by force
  ultimately show ?case
    by (cases "pg cursor", subst scan_loop.simps) (simp add: assms(1,2) visit_page_all [where f = f and key = key and g = g, OF assms(3)] Suc.IH split: prod.splits)
qed




lemma scan_loop_stuck:
  assumes "scan_loop sscan ctx_done f key ps cursor w a = Some y"
    and "\<forall>m a. fst (f key m a) \<in> {None, Some ErrStopLoop}"
    and "\<forall>c w a. ctx_done w a \<or> (\<exists>ret c' w'. sscan c ps w = (Inr (ret, c'), w') \<and> ps \<le> int (length ret))"
  shows False
proof -
  let ?full = "\<lambda>sscan ctx_done f key ps. (\<forall>m a. fst (f key m a) \<in> {None, Some ErrStopLoop}) \<and>
    (\<forall>c w a. ctx_done w a \<or> (\<exists>ret c' w'. sscan c ps w = (Inr (ret, c'), w') \<and> ps \<le> int (length ret)))"
  have "\<not> ?full sscan ctx_done f key ps"
  proof (rule scan_loop.raw_induct [where P = "\<lambda>sscan ctx_done f key ps cursor w a y. \<not> ?full sscan ctx_done f key ps", OF _ assms(1)], rule notI)
    fix loop sscan ctx_done f key ps cursor w a y
    assume IH: "\<And>sscan ctx_done f key ps cursor w a y. loop sscan ctx_done f key ps cursor w a = Some y \<Longrightarrow> \<not> ?full sscan ctx_done f key ps"
      and step: "(if ctx_done w a then loop sscan ctx_done f key ps cursor w a
        else case sscan cursor ps w of (Inl err, w) \<Rightarrow> Some (Some err, w, a)
          | (Inr (ret, cursor), w) \<Rightarrow> (case visit_page f key ret a of (Some err, a) \<Rightarrow> Some (Some err, w, a)
            | (None, a) \<Rightarrow> if int (length ret) < ps then Some (None, w, a) else loop sscan ctx_done f key ps cursor w a)) = Some y"
      and full: "?full sscan ctx_done f key ps"
    show False
    proof (cases "ctx_done w a")
      case True
      then have "loop sscan ctx_done f key ps cursor w a = Some y" using step by simp
      then show ?thesis using IH full by blast
    next
      case False
      then obtain ret c' w' where p: "sscan cursor ps w = (Inr (ret, c'), w')" "ps \<le> int (length ret)"
        using full by blast
      obtain a' where "visit_page f key ret a = (None, a')"
        using visit_page_no_error [of f key ret a] full by blast
      with p False step have "loop sscan ctx_done f key ps c' w' a' = Some y" by simp
      then show ?thesis using IH full by blast
    qed
  qed
  then show ?thesis using assms(2,3) by blast
qed

text \<open>
  The loop does not return while the server lists as many members as were asked for on every page
  (so also when it starts again at cursor 0), even when the callback asks to stop at every member, and it
  does not return when the context is cancelled.
\<close>

theorem ForeachSet_never_returns:
  assumes "scard key w = (Inr n, w')" "n \<noteq> 0" "ps = (if pageSize = 0 then 100 else pageSize)"
    and "\<forall>m a. fst (f key m a) \<in> {None, Some ErrStopLoop}"
    and "\<forall>c w a. ctx_done w a \<or> (\<exists>ret c' w'. sscan key c ps w = (Inr (ret, c'), w') \<and> ps \<le> int (length ret))"
  shows "ForeachSet scard sscan ctx_done f key cursor pageSize w a = None"
  using scan_loop_stuck [where sscan = "sscan key" and f = f and key = key and ctx_done = ctx_done and ps = ps, OF _ assms(4,5)] assms(1-3)
  by (cases "scan_loop (sscan key) ctx_done f key ps cursor w' a") (auto simp: ForeachSet_def)

lemma ForeachSet_never_returns_witness:
  "ForeachSet (\<lambda>_ w. (Inr 1, w)) (\<lambda>_ _ _ w. (Inr ([''m''], 0), Suc w)) (\<lambda>_ _. False) (\<lambda>_ _ a. (Some ErrStopLoop :: string callback_error option, ()))
     ''k'' 0 1 (0 :: nat) () = None"
  by (rule ForeachSet_never_returns [where ps = 1 and n = 1]) simp_all

end
