(* ===== verification/Redis_Session.thy ===== *)
theory Redis_Session
  imports Redis Loggers
begin

text \<open>
  The client of \<open>clients/redis/redis.go\<close>: how it is decoded and made, and the session of a request, in which
  every command is traced and logged. A span is the list of the calls on it.
\<close>

section \<open>The client\<close>

record ('c, 'p) redis_client =
  redis_conn :: "'c option"
  redis_options :: "'p options option"

definition empty_options :: "'p options" where
  "empty_options = \<lparr>driver_opts = None, URL = [], Password = \<lparr>val_of = [], secret_of = []\<rparr>, DB = None, MaxRetries = None,
     MinRetryBackoff = None, MaxRetryBackoff = None, DialTimeout = None, ReadTimeout = None, WriteTimeout = None, PoolSize = None,
     MinIdleConns = None, MaxConnAge = None, PoolTimeout = None, IdleTimeout = None, IdleCheckFrequency = None, TLSConfig = None\<rparr>"

text \<open>\<open>unmarshal\<close> and \<open>connect\<close> are \<open>Options.UnmarshalJSON\<close> and \<open>NewRedisClient\<close> on the given data and state.\<close>

definition client_UnmarshalJSON ::
  "('p options \<Rightarrow> ('e redis_error option \<times> 'p options) run) \<Rightarrow> ('p options \<Rightarrow> 's \<Rightarrow> (('e connect_error + 'c) \<times> 's) run) \<Rightarrow>
   ('c, 'p) redis_client \<Rightarrow> 's \<Rightarrow> (('e redis_error + 'e connect_error) option \<times> ('c, 'p) redis_client \<times> 's) run" where
  "client_UnmarshalJSON unmarshal connect r s =
     (let opt = (case redis_options r of None \<Rightarrow> empty_options | Some opt \<Rightarrow> opt)
      in bind_run (unmarshal opt) (\<lambda>(err, opt).
           let r = r\<lparr>redis_options := Some opt\<rparr> in
           (case err of
              Some err \<Rightarrow> Ret (Some (Inl err), r, s)
            | None \<Rightarrow> map_run (\<lambda>(c, s). case c of
                  Inl err \<Rightarrow> (Some (Inr err), r\<lparr>redis_conn := None\<rparr>, s)
                | Inr c \<Rightarrow> (None, r\<lparr>redis_conn := Some c\<rparr>, s)) (connect opt s))))"

definition NewClient ::
  "('p options \<Rightarrow> 's \<Rightarrow> (('e connect_error + 'c) \<times> 's) run) \<Rightarrow> 'p options \<Rightarrow> 's \<Rightarrow>
   (('e connect_error + ('c, 'p) redis_client) \<times> 's) run" where
  "NewClient connect option s =
     map_run (\<lambda>(c, s). (map_sum id (\<lambda>c. \<lparr>redis_conn = Some c, redis_options = Some option\<rparr>) c, s)) (connect option s)"

definition client_Close :: "('c \<Rightarrow> 'w \<Rightarrow> 'e option \<times> 'w) \<Rightarrow> ('c, 'p) redis_client \<Rightarrow> 'w \<Rightarrow> ('e option \<times> 'w) run" where
  "client_Close close r w = (case redis_conn r of None \<Rightarrow> Panic | Some c \<Rightarrow> Ret (close c w))"

section \<open>Commands of a session\<close>

datatype attr = AttrString string | AttrInt int

datatype span_status = StatusError string | StatusOk

datatype span_call = Started string "(string \<times> attr) list" | Ended | StatusSet span_status

datatype 'e line_value = LineText string | LineError 'e

record 'e line =
  line_level :: level_option
  line_kvs :: "(string \<times> 'e line_value) list"

text \<open>A command: its name and its text. The observations of a session are its spans and the lines it logs.\<close>

record redis_cmd =
  cmd_name :: string
  cmd_text :: string

record 'e observed =
  spans :: "span_call list list"
  lines :: "'e line list"

record ('c, 'e) session =
  session_info :: string
  peer :: "string \<times> int"
  nil_error :: "'e \<Rightarrow> bool"
  error_text :: "'e \<Rightarrow> string"

text \<open>The deferred function: the span is ended before its status is set.\<close>

definition finish_command :: "('c, 'e) session \<Rightarrow> redis_cmd \<Rightarrow> 'e option \<Rightarrow> span_call list \<times> 'e line" where
  "finish_command ses cmd err =
     (case err of
        Some e \<Rightarrow>
          ([Ended, StatusSet (StatusError (error_text ses e))],
           \<lparr>line_level = (if nil_error ses e then AllowDebug else AllowError),
            line_kvs = [(''msg'', LineText ''failed to exec Redis Command''), (''cmd'', LineText (cmd_text cmd)), (''err'', LineError e)]\<rparr>)
      | None \<Rightarrow>
          ([Ended, StatusSet StatusOk],
           \<lparr>line_level = AllowDebug, line_kvs = [(''msg'', LineText ''exec Redis Command''), (''cmd'', LineText (cmd_text cmd))]\<rparr>))"

definition wrapped_process ::
  "('c, 'e) session \<Rightarrow> (redis_cmd \<Rightarrow> 'w \<Rightarrow> 'e option \<times> 'w) \<Rightarrow> redis_cmd \<Rightarrow> 'w \<times> 'e observed \<Rightarrow> 'e option \<times> 'w \<times> 'e observed" where
  "wrapped_process ses oldProcess cmd s =
     (case s of (w, ob) \<Rightarrow>
        let started = Started (''ExecuteRedisCommand.'' @ cmd_name cmd)
              [(''db.info'', AttrString (session_info ses)), (''net.peer.name'', AttrString (fst (peer ses))),
               (''net.peer.port'', AttrInt (snd (peer ses))), (''db.statement'', AttrString (cmd_text cmd)), (''db.system'', AttrString ''redis'')];
            (err, w) = oldProcess cmd w; (calls, ln) = finish_command ses cmd err
        in (err, w, ob\<lparr>spans := spans ob @ [started # calls], lines := lines ob @ [ln]\<rparr>))"

text \<open>\<open>Redis\<close>: the session of a client; a client without connection or options panics.\<close>

definition Redis_session ::
  "('c \<Rightarrow> string) \<Rightarrow> (string \<Rightarrow> 'u + string \<times> string) \<Rightarrow> ('e \<Rightarrow> bool) \<Rightarrow> ('e \<Rightarrow> string) \<Rightarrow> ('c, 'p) redis_client \<Rightarrow> ('c, 'e) session run" where
  "Redis_session show_conn parse_url is_nil text r =
     (case (redis_conn r, redis_options r) of
        (Some c, Some opt) \<Rightarrow> Ret \<lparr>session_info = show_conn c, peer = GetPeer parse_url opt, nil_error = is_nil, error_text = text\<rparr>
      | _ \<Rightarrow> Panic)"

section \<open>A session answers as the client\<close>

fun run_commands :: "('k \<Rightarrow> 's \<Rightarrow> 'r \<times> 's) \<Rightarrow> 'k list \<Rightarrow> 's \<Rightarrow> 'r list \<times> 's" where
  "run_commands exec [] s = ([], s)"
| "run_commands exec (c # cs) s =
     (case exec c s of (r, s) \<Rightarrow> (case run_commands exec cs s of (rs, s) \<Rightarrow> (r # rs, s)))"

lemma length_run_commands: "length (fst (run_commands exec cs s)) = length cs"
  by (induction cs arbitrary: s) (simp_all add: case_prod_beta)

text \<open>The status a span has in the end: what is set after the end is ignored.\<close>

fun recorded_status :: "span_call list \<Rightarrow> span_status option \<Rightarrow> span_status option" where
  "recorded_status [] st = st"
| "recorded_status (Ended # cs) st = st"
| "recorded_status (StatusSet s # cs) st = recorded_status cs (Some s)"
| "recorded_status (Started n a # cs) st = recorded_status cs st"

definition statement_of :: "span_call list \<Rightarrow> attr option" where
  "statement_of sp = (case sp of Started n attrs # _ \<Rightarrow> map_of attrs ''db.statement'' | _ \<Rightarrow> None)"

lemma wrapped_process_step:
  "wrapped_process ses p c (w, ob) = (err, w', ob') \<Longrightarrow>
    p c w = (err, w') \<and> (\<exists>n a. spans ob' = spans ob @ [Started n a # fst (finish_command ses c err)] \<and>
      map_of a ''db.statement'' = Some (AttrString (cmd_text c))) \<and> lines ob' = lines ob @ [snd (finish_command ses c err)]"
  by (auto simp: wrapped_process_def Let_def split: prod.splits)

text \<open>
  C31: Commands that are run in a session have the results, and the effects, that they have without it. Each
  has one span, in order, with the text of the command, which is ended, and one line in the log, at the
  level of errors exactly for errors other than \<open>redis.Nil\<close>. No span has a status, since it is set after the end.
\<close>

theorem Session_transparent:
  assumes "run_commands (wrapped_process ses p) cs (w, \<lparr>spans = [], lines = []\<rparr>) = (errs, w', ob)"
  shows "run_commands p cs w = (errs, w') \<and>
    map statement_of (spans ob) = map (\<lambda>c. Some (AttrString (cmd_text c))) cs \<and>
    (\<forall>sp \<in> set (spans ob). Ended \<in> set sp \<and> recorded_status sp None = None) \<and>
    map (\<lambda>l. line_level l = AllowError) (lines ob) = map (\<lambda>err. case err of None \<Rightarrow> False | Some e \<Rightarrow> \<not> nil_error ses e) errs"
proof -
  let ?P = "\<lambda>ob0. run_commands p cs w = (errs, w') \<and>
    map statement_of (spans ob) = map statement_of (spans ob0) @ map (\<lambda>c. Some (AttrString (cmd_text c))) cs \<and>
    (\<forall>sp \<in> set (spans ob). sp \<in> set (spans ob0) \<or> Ended \<in> set sp \<and> recorded_status sp None = None) \<and>
    map (\<lambda>l. line_level l = AllowError) (lines ob) =
      map (\<lambda>l. line_level l = AllowError) (lines ob0) @ map (\<lambda>err. case err of None \<Rightarrow> False | Some e \<Rightarrow> \<not> nil_error ses e) errs"
  have "?P ob0" if "run_commands (wrapped_process ses p) cs (w, ob0) = (errs, w', ob)" for ob0
    using that
  proof (induction cs arbitrary: w ob0 errs)
    case (Cons c cs)
    obtain err w1 ob1 where st: "wrapped_process ses p c (w, ob0) = (err, w1, ob1)" by (metis prod_cases3)
    obtain errs' where rest: "run_commands (wrapped_process ses p) cs (w1, ob1) = (errs', w', ob)" "errs = err # errs'"
      using Cons.prems st by (auto split: prod.splits)
    from wrapped_process_step [OF st] Cons.IH [OF rest(1)] show ?case
      by (auto simp: rest(2) statement_of_def finish_command_def split: option.splits)
  qed simp
  from this [OF assms] show ?thesis by simp
qed

definition sample_session :: "(unit, string) session" where
  "sample_session = \<lparr>session_info = ''Redis<h:6379 db:0>'', peer = (''h'', 6379), nil_error = (\<lambda>e. e = ''redis: nil''), error_text = id\<rparr>"

lemma Session_transparent_witness:
  "\<exists>ob. run_commands (wrapped_process sample_session (\<lambda>c n. (if cmd_name c = ''get'' then Some ''redis: nil'' else None, n + 1)))
      [\<lparr>cmd_name = ''get'', cmd_text = ''get k''\<rparr>, \<lparr>cmd_name = ''set'', cmd_text = ''set k v''\<rparr>] (0 :: nat, \<lparr>spans = [], lines = []\<rparr>) =
      ([Some ''redis: nil'', None], 2, ob) \<and>
    map statement_of (spans ob) = [Some (AttrString ''get k''), Some (AttrString ''set k v'')] \<and>
    map (\<lambda>l. line_level l = AllowError) (lines ob) = [False, False]"
proof -
  let ?p = "\<lambda>c n. (if cmd_name c = ''get'' then Some ''redis: nil'' else None, n + 1 :: nat)"
  let ?cs = "[\<lparr>cmd_name = ''get'', cmd_text = ''get k''\<rparr>, \<lparr>cmd_name = ''set'', cmd_text = ''set k v''\<rparr>]"
  obtain errs w' ob where r: "run_commands (wrapped_process sample_session ?p) ?cs (0, \<lparr>spans = [], lines = []\<rparr>) = (errs, w', ob)"
    by (metis prod_cases3)
  from Session_transparent [OF r] have "errs = [Some ''redis: nil'', None]" "w' = 2" by simp_all
  with r Session_transparent [OF r] show ?thesis by (auto simp: sample_session_def)
qed

text \<open>
  A client that was decoded or made without an error has its connection and its options, and can give
  sessions. When the connection cannot be made, a decoded client has none, and a session panics; when the
  options cannot be decoded it keeps the connection it had.
\<close>

theorem Client_usable:
  assumes "client_UnmarshalJSON unmarshal connect r s = Ret (err, r', s')"
  shows "case err of
      None \<Rightarrow> (\<exists>c opt s1. redis_conn r' = Some c \<and> redis_options r' = Some opt \<and> connect opt s = Ret (Inr c, s1) \<and>
        Redis_session show_conn parse_url is_nil text r' \<noteq> Panic)
    | Some (Inl e) \<Rightarrow> redis_conn r' = redis_conn r \<and> s' = s
    | Some (Inr e) \<Rightarrow> Redis_session show_conn parse_url is_nil text r' = Panic \<and> client_Close close r' w = Panic"
proof -
  obtain oerr opt where u: "unmarshal (case redis_options r of None \<Rightarrow> empty_options | Some opt \<Rightarrow> opt) = Ret (oerr, opt)"
    using assms by (auto simp: client_UnmarshalJSON_def bind_run_Ret_conv Let_def)
  show ?thesis
  proof (cases oerr)
    case None
    with assms u obtain c s1 where c: "connect opt s = Ret (c, s1)"
      by (auto simp: client_UnmarshalJSON_def map_run_def bind_run_Ret_conv Let_def)
    with assms u None show ?thesis
      by (cases c) (auto simp: client_UnmarshalJSON_def Redis_session_def client_Close_def)
  next
    case (Some e)
    with assms u show ?thesis by (auto simp: client_UnmarshalJSON_def)
  qed
qed

lemma Client_usable_witness:
  "Redis_session (\<lambda>c :: nat. []) (\<lambda>_. Inl ()) (\<lambda>_. False) id \<lparr>redis_conn = Some 7, redis_options = Some (empty_options :: unit options)\<rparr> \<noteq> Panic"
proof -
  have "client_UnmarshalJSON (\<lambda>opt. Ret (None, opt)) (\<lambda>_ s. Ret (Inr 7, s)) \<lparr>redis_conn = None, redis_options = None\<rparr> () =
      Ret (None :: (string redis_error + string connect_error) option, \<lparr>redis_conn = Some (7 :: nat), redis_options = Some (empty_options :: unit options)\<rparr>, ())"
    by (simp add: client_UnmarshalJSON_def)
  from Client_usable [OF this, of "\<lambda>_. []" "\<lambda>_. Inl ()" "\<lambda>_. False" id "\<lambda>_ w. (None, w)" "()"] show ?thesis by simp
qed

end
