(* ===== verification/Tracing.thy ===== *)
theory Tracing
  imports Logging Signals Tls
begin

text \<open>
  \<open>clients/tracing\<close>: the options and their decoders (\<open>tracing.go\<close>, \<open>otlp_http.go\<close>, \<open>otlp_grpc.go\<close>,
  \<open>zipkin.go\<close>, \<open>file.go\<close>), the choice of the exporter, the provider with the flush that is registered with
  the signal handler, and the ids of traces. The exporters of OpenTelemetry, the resource of the process,
  the JSON decoder and encoder and the files are parameters.
\<close>

section \<open>Options\<close>

record retry_options =
  Enabled :: bool
  InitialInterval :: int
  MaxInterval :: int
  MaxElapsedTime :: int

definition seconds :: "int \<Rightarrow> int" where
  "seconds n = n * 1000000000"

definition DefaultRetryConfig :: retry_options where
  "DefaultRetryConfig = \<lparr>Enabled = True, InitialInterval = seconds 5, MaxInterval = seconds 30, MaxElapsedTime = seconds 60\<rparr>"

definition RetryOptions_UnmarshalJSON ::
  "(string \<Rightarrow> retry_options \<Rightarrow> 'e option \<times> retry_options) \<Rightarrow> string \<Rightarrow> 'e option \<times> retry_options" where
  "RetryOptions_UnmarshalJSON decode data =
     (let c = \<lparr>Enabled = True, InitialInterval = seconds 5, MaxInterval = seconds 30, MaxElapsedTime = seconds 60\<rparr>
      in if data = ''false'' \<or> data = CHR 0x22 # ''false'' @ [CHR 0x22] then (None, c\<lparr>Enabled := False\<rparr>)
         else decode data c)"

text \<open>\<open>GzipCompression\<close> is 1 and \<open>NoCompression\<close> is 0. The error is returned in every case.\<close>

definition quoted :: "string \<Rightarrow> string" where
  "quoted s = CHR 0x22 # s @ [CHR 0x22]"

definition Compression_UnmarshalJSON :: "string \<Rightarrow> int \<Rightarrow> string option \<times> int" where
  "Compression_UnmarshalJSON data c =
     (Some ''the value can only be one of true, false, or gzip'',
      if data \<in> {quoted ''true'', ''true'', ''1'', quoted ''1'', quoted ''gzip''} then 1
      else if data \<in> {quoted ''false'', ''false'', ''0'', quoted ''0'', []} then 0
      else c)"

record http_options =
  h_Endpoint :: string
  h_Timeout :: int
  h_Insecure :: bool
  h_Retry :: retry_options
  h_Compression :: int
  h_Header :: "(string \<times> string) list"
  h_TLSConfig :: "tls_options option"
  h_URLPath :: string

record grpc_options =
  g_Endpoint :: string
  g_Timeout :: int
  g_Insecure :: bool
  g_Retry :: retry_options
  g_Compression :: int
  g_Header :: "(string \<times> string) list"
  g_TLSConfig :: tls_options
  g_URLPath :: string
  g_ReconnectionPeriod :: int
  g_ServiceConfig :: string

definition http_UnmarshalJSON :: "(string \<Rightarrow> http_options \<Rightarrow> 'e option \<times> http_options) \<Rightarrow> string \<Rightarrow> 'e option \<times> http_options" where
  "http_UnmarshalJSON decode data =
     decode data \<lparr>h_Endpoint = [], h_Timeout = seconds 10, h_Insecure = True, h_Retry = DefaultRetryConfig, h_Compression = 0,
       h_Header = [], h_TLSConfig = None, h_URLPath = ''/v1/traces''\<rparr>"

record trace_options =
  HTTP :: "http_options option"
  GRPC :: "grpc_options option"
  Zipkin :: "string option"
  File :: "string option"
  ServiceName :: string

definition empty_trace_options :: trace_options where
  "empty_trace_options = \<lparr>HTTP = None, GRPC = None, Zipkin = None, File = None, ServiceName = []\<rparr>"

definition trace_Reset :: "trace_options \<Rightarrow> trace_options" where
  "trace_Reset o' = empty_trace_options"

text \<open>What the JSON form shows: the exporter that is used, and nothing else.\<close>

record 'e trace_encoder =
  enc_http :: "http_options \<Rightarrow> string \<times> 'e option"
  enc_grpc :: "grpc_options \<Rightarrow> string \<times> 'e option"
  enc_zipkin :: "string \<Rightarrow> string \<times> 'e option"
  enc_file :: "string \<Rightarrow> string \<times> 'e option"

definition member_text :: "string \<Rightarrow> string \<Rightarrow> string \<times> 'e option \<Rightarrow> string \<times> 'e option" where
  "member_text indent key encoded =
     (indent @ indent @ quoted key @ '':'' @ fst encoded @ [CHR 0x0A], snd encoded)"

definition MarshalJSONPB :: "'e trace_encoder \<Rightarrow> string \<Rightarrow> trace_options \<Rightarrow> string \<times> 'e option" where
  "MarshalJSONPB enc' indent o' =
     (let (member, err) =
        (case HTTP o' of Some h \<Rightarrow> member_text indent ''http'' (enc_http enc' h)
         | None \<Rightarrow> (case GRPC o' of Some g \<Rightarrow> member_text indent ''grpc'' (enc_grpc enc' g)
         | None \<Rightarrow> (case Zipkin o' of Some z \<Rightarrow> member_text indent ''zipkin'' (enc_zipkin enc' z)
         | None \<Rightarrow> (case File o' of Some f \<Rightarrow> member_text indent ''file'' (enc_file enc' f)
         | None \<Rightarrow> ([], None)))))
      in (indent @ ''{'' @ member @ indent @ ''}'', err))"

section \<open>Exporters\<close>

datatype 'p http_option =
  HEndpoint string | HTimeout int | HRetry retry_options | HCompression int | HHeaders "(string \<times> string) list"
  | HURLPath string | HInsecure | HTLSClientConfig "'p tls_config"

datatype grpc_option =
  GEndpoint string | GTimeout int | GRetry retry_options | GHeaders "(string \<times> string) list" | GServiceConfig string
  | GReconnectionPeriod int | GInsecure | GCompressor string

datatype 'x trace_error = BadTls string | Failed 'x

text \<open>
  Files: \<open>Create\<close> gives a handle; \<open>Sync\<close> and \<open>CloseFile\<close> act on it. The exporter of a file is the one of
  the library with the file, whose \<open>Shutdown\<close> it hides.
\<close>

record ('p, 'c, 'te, 'f, 'x, 'exp, 'w) trace_lib =
  tlib :: "('p, 'c, 'te) tls_lib"
  otlp_http :: "'p http_option list \<Rightarrow> 'w \<Rightarrow> ('x + 'exp) \<times> 'w"
  otlp_grpc :: "grpc_option list \<Rightarrow> 'w \<Rightarrow> ('x + 'exp) \<times> 'w"
  zipkin_New :: "string \<Rightarrow> 'w \<Rightarrow> ('x + 'exp) \<times> 'w"
  stdout_New :: "'f \<Rightarrow> 'w \<Rightarrow> ('x + 'exp) \<times> 'w"
  Create :: "string \<Rightarrow> 'w \<Rightarrow> ('x + 'f) \<times> 'w"
  Sync :: "'f \<Rightarrow> 'w \<Rightarrow> 'x option \<times> 'w"
  CloseFile :: "'f \<Rightarrow> 'w \<Rightarrow> 'x option \<times> 'w"

datatype ('f, 'exp) exporter = Otlp 'exp | FileTracing 'exp 'f | Nop

definition lift_exp :: "('x + 'exp) \<times> 'w \<Rightarrow> ('x trace_error + ('f, 'exp) exporter) \<times> 'w" where
  "lift_exp r = (map_sum Failed Otlp (fst r), snd r)"

definition NewHTTPTraceExporter ::
  "('p, 'c, 'te, 'f, 'x, 'exp, 'w) trace_lib \<Rightarrow> http_options \<Rightarrow> 'w \<Rightarrow> ('x trace_error + ('f, 'exp) exporter) \<times> 'w" where
  "NewHTTPTraceExporter lib o' w =
     (let opts = [HEndpoint (h_Endpoint o'), HTimeout (h_Timeout o'), HRetry (h_Retry o'), HCompression (h_Compression o'),
                  HHeaders (h_Header o'), HURLPath (h_URLPath o')]
      in if h_Insecure o' then lift_exp (otlp_http lib (opts @ [HInsecure]) w)
         else (case NewTLSConfig (tlib lib) (h_TLSConfig o') of
                 Inl err \<Rightarrow> (Inl (BadTls err), w)
               | Inr tlsConfig \<Rightarrow> lift_exp (otlp_http lib (opts @ [HTLSClientConfig tlsConfig]) w)))"

text \<open>The option with the TLS credentials is made, and dropped.\<close>

definition NewGRPCTraceExporter ::
  "('p, 'c, 'te, 'f, 'x, 'exp, 'w) trace_lib \<Rightarrow> grpc_options \<Rightarrow> 'w \<Rightarrow> ('x trace_error + ('f, 'exp) exporter) \<times> 'w" where
  "NewGRPCTraceExporter lib o' w =
     (let opts = [GEndpoint (g_Endpoint o'), GTimeout (g_Timeout o'), GRetry (g_Retry o'), GHeaders (g_Header o'),
                  GServiceConfig (g_ServiceConfig o'), GReconnectionPeriod (g_ReconnectionPeriod o')];
          compress = (\<lambda>opts. if g_Compression o' = 1 then opts @ [GCompressor ''gzip''] else opts)
      in if g_Insecure o' then lift_exp (otlp_grpc lib (compress (opts @ [GInsecure])) w)
         else (case NewTLSConfig (tlib lib) (Some (g_TLSConfig o')) of
                 Inl err \<Rightarrow> (Inl (BadTls err), w)
               | Inr tlsConfig \<Rightarrow> lift_exp (otlp_grpc lib (compress opts) w)))"

definition NewZipkinTraceExporter ::
  "('p, 'c, 'te, 'f, 'x, 'exp, 'w) trace_lib \<Rightarrow> string \<Rightarrow> 'w \<Rightarrow> ('x trace_error + ('f, 'exp) exporter) \<times> 'w" where
  "NewZipkinTraceExporter lib endpoint w = lift_exp (zipkin_New lib endpoint w)"

definition NewFileTraceExporter ::
  "('p, 'c, 'te, 'f, 'x, 'exp, 'w) trace_lib \<Rightarrow> string \<Rightarrow> 'w \<Rightarrow> ('x trace_error + ('f, 'exp) exporter) \<times> 'w" where
  "NewFileTraceExporter lib path w =
     (case Create lib path w of
        (Inl err, w) \<Rightarrow> (Inl (Failed err), w)
      | (Inr f, w) \<Rightarrow>
          (case stdout_New lib f w of
             (Inl err, w) \<Rightarrow> (Inl (Failed err), w)
           | (Inr e, w) \<Rightarrow> (Inr (FileTracing e f), w)))"

definition file_Shutdown :: "('p, 'c, 'te, 'f, 'x, 'exp, 'w) trace_lib \<Rightarrow> 'f \<Rightarrow> 'w \<Rightarrow> 'x option \<times> 'w" where
  "file_Shutdown lib f w = (case Sync lib f w of (Some err, w) \<Rightarrow> (Some err, w) | (None, w) \<Rightarrow> CloseFile lib f w)"

definition NewNopTraceExporter :: "'w \<Rightarrow> ('x trace_error + ('f, 'exp) exporter) \<times> 'w" where
  "NewNopTraceExporter w = (Inr Nop, w)"

definition choose_exporter ::
  "('p, 'c, 'te, 'f, 'x, 'exp, 'w) trace_lib \<Rightarrow> trace_options \<Rightarrow> 'w \<Rightarrow> ('x trace_error + ('f, 'exp) exporter) \<times> 'w" where
  "choose_exporter lib o' w =
     (case HTTP o' of Some h \<Rightarrow> NewHTTPTraceExporter lib h w
      | None \<Rightarrow> (case GRPC o' of Some g \<Rightarrow> NewGRPCTraceExporter lib g w
      | None \<Rightarrow> (case Zipkin o' of Some z \<Rightarrow> NewZipkinTraceExporter lib z w
      | None \<Rightarrow> (case File o' of Some f \<Rightarrow> NewFileTraceExporter lib f w
      | None \<Rightarrow> NewNopTraceExporter w))))"

section \<open>The provider\<close>

datatype resource_attr = HostArch string | ServiceNameAttr string | ServiceNamespace string

definition resource_attrs :: "string \<Rightarrow> string \<Rightarrow> trace_options \<Rightarrow> resource_attr list" where
  "resource_attrs goarch ns o' =
     (let attrs = [HostArch goarch];
          attrs = (if length (ServiceName o') \<noteq> 0 then attrs @ [ServiceNameAttr (ServiceName o')] else attrs)
      in if length ns \<noteq> 0 then attrs @ [ServiceNamespace ns] else attrs)"

text \<open>
  \<open>resource_New\<close> and \<open>resource_Merge\<close> are those of OpenTelemetry, the latter with the default resource. The
  function that flushes and shuts down the provider is \<open>flush\<close> of it. The propagator and the error
  handler, which are global, are set by \<open>set_globals\<close>.
\<close>

record ('r, 'x, 'f, 'exp, 'p, 'w) provider_lib =
  resource_New :: "resource_attr list \<Rightarrow> 'w \<Rightarrow> ('x + 'r) \<times> 'w"
  resource_Merge :: "'r \<Rightarrow> 'x + 'r"
  set_globals :: "'w \<Rightarrow> 'w"
  NewTracerProvider :: "('f, 'exp) exporter \<Rightarrow> 'r \<Rightarrow> 'p"

definition NewTraceProvider ::
  "('p, 'c, 'te, 'f, 'x, 'exp, 'w) trace_lib \<Rightarrow> ('r, 'x, 'f, 'exp, 'tp, 'w) provider_lib \<Rightarrow> string \<Rightarrow> string \<Rightarrow> ('tp \<Rightarrow> 'g) \<Rightarrow>
   trace_options \<Rightarrow> 'g handler option \<Rightarrow> 'w \<Rightarrow> (('x trace_error + 'tp) \<times> 'g handler option \<times> 'w) run" where
  "NewTraceProvider lib plib goarch ns flush o' stopHandler w =
     (case choose_exporter lib o' w of
        (Inl err, w) \<Rightarrow> Ret (Inl err, stopHandler, w)
      | (Inr exp, w) \<Rightarrow>
          (case resource_New plib (resource_attrs goarch ns o') w of
             (Inl err, w) \<Rightarrow> Ret (Inl (Failed err), stopHandler, w)
           | (Inr r, w) \<Rightarrow>
               (case resource_Merge plib r of
                  Inl err \<Rightarrow> Ret (Inl (Failed err), stopHandler, w)
                | Inr r \<Rightarrow>
                    let w = set_globals plib w; tracer = NewTracerProvider plib exp r
                    in bind_run (SignalHandler stopHandler) (\<lambda>stopCh.
                         map_run (\<lambda>h. (Inr tracer, Some h, w)) (PreStop stopCh LevelTrace (flush tracer))))))"

section \<open>Ids\<close>

text \<open>
  The trace id is that of the context when it is a UUID, and a new one otherwise; \<open>uuid.Must\<close> panics
  when there is none. An error of the random source leaves the span id at what was read.
\<close>

definition NewIDs ::
  "(string \<Rightarrow> bytes option) \<Rightarrow> ('w \<Rightarrow> bytes option \<times> 'w) \<Rightarrow> ('w \<Rightarrow> bytes \<times> 'w) \<Rightarrow> string \<Rightarrow> 'l log_context \<Rightarrow> 'w \<Rightarrow>
   (bytes \<times> bytes \<times> 'w) run" where
  "NewIDs uuid_FromString uuid_V4 rand8 fresh ctx w =
     (case uuid_FromString (GetTraceId fresh ctx) of
        Some tid \<Rightarrow> (case rand8 w of (sid, w) \<Rightarrow> Ret (tid, sid, w))
      | None \<Rightarrow>
          (case uuid_V4 w of
             (None, w) \<Rightarrow> Panic
           | (Some tid, w) \<Rightarrow> (case rand8 w of (sid, w) \<Rightarrow> Ret (tid, sid, w))))"

definition NewSpanID :: "('w \<Rightarrow> bytes \<times> 'w) \<Rightarrow> 'w \<Rightarrow> bytes \<times> 'w" where
  "NewSpanID rand8 w = rand8 w"

section \<open>The traces are flushed after the databases are closed\<close>

lemma NewTraceProvider_registers:
  assumes "handler_ok h" "NewTraceProvider lib plib goarch ns flush op (Some h) w = Ret (Inr tracer, sh, w')"
  shows "\<exists>h'. sh = Some h' \<and> PreStop h LevelTrace (flush tracer) = Ret h'"
  using assms by (auto simp: NewTraceProvider_def SignalHandler_def Let_def map_run_def bind_run_Ret_conv split: sum.splits prod.splits)


definition sample_trace_lib :: "(unit, unit, unit, unit, string, unit, unit) trace_lib" where
  "sample_trace_lib = \<lparr>tlib = \<lparr>ReadFile = (\<lambda>_. Inl ()), AppendCertsFromPEM = (\<lambda>_. None), LoadX509KeyPair = (\<lambda>_ _. Inl ()), err_text = (\<lambda>_. []), quote = id\<rparr>, otlp_http = (\<lambda>_ w. (Inr (), w)), otlp_grpc = (\<lambda>_ w. (Inr (), w)),
     zipkin_New = (\<lambda>_ w. (Inr (), w)), stdout_New = (\<lambda>_ w. (Inr (), w)), Create = (\<lambda>_ w. (Inr (), w)),
     Sync = (\<lambda>_ w. (None, w)), CloseFile = (\<lambda>_ w. (None, w))\<rparr>"

definition sample_provider_lib :: "(resource_attr list, string, unit, unit, nat, unit) provider_lib" where
  "sample_provider_lib = \<lparr>resource_New = (\<lambda>r w. (Inr r, w)), resource_Merge = Inr, set_globals = id,
     NewTracerProvider = (\<lambda>_ r. length r)\<rparr>"


section \<open>Exporters and decoders\<close>

text \<open>
  The TLS options of the gRPC exporter are checked and then not used; every compression is refused, the
  named ones after they have been stored.
\<close>

lemma NewGRPCTraceExporter_drops_tls:
  assumes "\<not> g_Insecure o'" "NewTLSConfig (tlib lib) (Some (g_TLSConfig o')) = Inr cfg" "NewTLSConfig (tlib lib) (Some t) = Inr cfg'"
  shows "NewGRPCTraceExporter lib (o'\<lparr>g_TLSConfig := t\<rparr>) w = NewGRPCTraceExporter lib o' w"
  using assms by (simp add: NewGRPCTraceExporter_def Let_def)

lemma Compression_always_refused:
  "fst (Compression_UnmarshalJSON data c) \<noteq> None \<and> snd (Compression_UnmarshalJSON (quoted ''gzip'') c) = 1"
  by (simp add: Compression_UnmarshalJSON_def quoted_def)

text \<open>A file exporter that cannot be made leaves its file open.\<close>

lemma NewFileTraceExporter_leaks:
  "Create lib path w = (Inr f, w1) \<Longrightarrow> stdout_New lib f w1 = (Inl err, w2) \<Longrightarrow>
    NewFileTraceExporter lib path w = (Inl (Failed err), w2)"
  by (simp add: NewFileTraceExporter_def)

end
