(* ===== verification/Run_Group.thy ===== *)
theory Run_Group
  imports Signals
begin

text \<open>
  \<open>wrapper/run.go\<close>: a group of actors that holds a wait group of the signal handler while it runs. The
  group itself is the one of \<open>oklog/run\<close>: when one actor returns, it calls the interrupt functions of all
  actors in the order they were added, with the error of that actor, and then waits for the others.
\<close>

section \<open>Adding actors\<close>

datatype 'i interrupt = NopInterrupt | Interrupt 'i

text \<open>The interrupt function of an added actor also leaves the wait group; the last one is that of \<open>Run\<close>.\<close>

datatype 'i actor = Added "'i interrupt" | StopActor

definition Group_Add :: "'i option \<Rightarrow> 'i actor list \<Rightarrow> 'f handler option \<Rightarrow> ('i actor list \<times> 'f handler) run" where
  "Group_Add interrupt g stopHandler =
     bind_run (SignalHandler stopHandler) (\<lambda>stopCh.
     bind_run (AddFor stopCh 1 1) (\<lambda>h.
       Ret (g @ [Added (case interrupt of None \<Rightarrow> NopInterrupt | Some i \<Rightarrow> Interrupt i)], h)))"

section \<open>Running\<close>

text \<open>
  What the interrupts do: the calls of the functions that were given, the handler, and whether \<open>SafeStop\<close>
  was called at the end.
\<close>

fun run_interrupts :: "'i actor list \<Rightarrow> 'f handler \<Rightarrow> ('i list \<times> 'f handler \<times> bool) run" where
  "run_interrupts [] h = Ret ([], h, False)"
| "run_interrupts (Added i # as) h =
     bind_run (DoneFor h 1) (\<lambda>h.
       map_run (\<lambda>(calls, h, stop). ((case i of NopInterrupt \<Rightarrow> calls | Interrupt f \<Rightarrow> f # calls), h, stop)) (run_interrupts as h))"
| "run_interrupts (StopActor # as) h = map_run (\<lambda>(calls, h, stop). (calls, h, True)) (run_interrupts as h)"

definition Group_Run :: "'i actor list \<Rightarrow> 'f handler option \<Rightarrow> ('i list \<times> 'f handler \<times> bool) run" where
  "Group_Run g stopHandler = bind_run (SignalHandler stopHandler) (\<lambda>h. run_interrupts (g @ [StopActor]) h)"

section \<open>The group lets the stop end\<close>

definition add_all :: "'i option list \<Rightarrow> 'f handler \<Rightarrow> ('i actor list \<times> 'f handler) run" where
  "add_all is h = foldl (\<lambda>r i. bind_run r (\<lambda>(g, h). Group_Add i g (Some h))) (Ret ([], h)) is"

definition held :: "'f handler \<Rightarrow> nat \<Rightarrow> 'f handler" where
  "held h n = h\<lparr>wg := (wg h)(1 := wg h 1 + int n)\<rparr>"

lemma add_all_held:
  assumes "0 \<le> wg h 1"
  shows "\<exists>g. add_all is h = Ret (g, held h (length is)) \<and> length g = length is \<and>
    g = map (\<lambda>i. Added (case i of None \<Rightarrow> NopInterrupt | Some f \<Rightarrow> Interrupt f)) is"
proof (induction "is" rule: rev_induct)
  case Nil
  then show ?case by (simp add: add_all_def held_def)
next
  case (snoc i "is")
  then have "add_all (is @ [i]) h = Group_Add i (map (\<lambda>i. Added (case i of None \<Rightarrow> NopInterrupt | Some f \<Rightarrow> Interrupt f)) is)
      (Some (held h (length is)))"
    by (auto simp: add_all_def)
  also have "\<dots> = Ret (map (\<lambda>i. Added (case i of None \<Rightarrow> NopInterrupt | Some f \<Rightarrow> Interrupt f)) (is @ [i]), held h (length (is @ [i])))"
    using assms by (simp add: Group_Add_def SignalHandler_def AddFor_def held_def ac_simps)
  finally show ?case by simp
qed

lemma run_interrupts_released:
  assumes "0 \<le> wg h 1"
  shows "run_interrupts (map (\<lambda>i. Added (case i of None \<Rightarrow> NopInterrupt | Some f \<Rightarrow> Interrupt f)) is @ [StopActor]) (held h (length is)) =
    Ret (List.map_filter id is, held h 0, True)"
proof (induction "is")
  case Nil
  then show ?case by (simp add: map_filter_def)
next
  case (Cons i "is")
  have "DoneFor (held h (length (i # is))) 1 = Ret (held h (length is))"
    using assms by (simp add: DoneFor_def AddFor_def held_def)
  with Cons show ?case by (cases i) (simp_all add: map_filter_def)
qed

lemma held_0 [simp]: "held h 0 = h"
  by (simp add: held_def)

text \<open>
  Actors can be added without a panic as long as the handler exists, and each holds the wait group of
  level 1. When the group ends, every interrupt function that was given has been called once, in the
  order of the actors, the wait group is as before, and \<open>SafeStop\<close> is called last: if nothing else holds a
  wait group, the stop can then run to its end.
\<close>

theorem Group_ends_in_stop:
  assumes "handler_ok h" "\<not> mux_held h" "\<not> stopCh_closed h" "\<forall>k. wg h k = 0"
  shows "\<exists>g h1. add_all is h = Ret (g, h1) \<and> wg h1 1 = int (length is) \<and>
    Group_Run g (Some h1) = Ret (List.map_filter id is, h, True) \<and> (\<exists>s. reachable h s \<and> phase s = Stopped)"
proof -
  have wg: "0 \<le> wg h 1" using assms(4) by simp
  obtain g where g: "add_all is h = Ret (g, held h (length is))"
      "g = map (\<lambda>i. Added (case i of None \<Rightarrow> NopInterrupt | Some f \<Rightarrow> Interrupt f)) is"
    using add_all_held [OF wg] by blast
  have "Group_Run g (Some (held h (length is))) = Ret (List.map_filter id is, h, True)"
    using run_interrupts_released [OF wg, of "is"] by (simp add: Group_Run_def SignalHandler_def g(2))
  moreover have "wg (held h (length is)) 1 = int (length is)" using assms(4) by (simp add: held_def)
  ultimately show ?thesis using g(1) stop_can_complete [OF assms] by blast
qed

lemma Group_ends_in_stop_witness:
  "\<exists>g h1. add_all [Some ''close'', None] (new_handler :: nat handler) = Ret (g, h1) \<and>
    Group_Run g (Some h1) = Ret ([''close''], new_handler, True)"
proof -
  have "\<not> mux_held (new_handler :: nat handler)" "\<not> stopCh_closed (new_handler :: nat handler)" "\<forall>k. wg (new_handler :: nat handler) k = 0"
    by (simp_all add: new_handler_def)
  from Group_ends_in_stop [OF handler_ok_new this, of "[Some ''close'', None]"] show ?thesis
    by (auto simp: map_filter_def)
qed

text \<open>Without the handler neither adding nor running is possible.\<close>

lemma Group_needs_handler: "Group_Add i g None = Panic" "Group_Run g None = Panic"
  by (simp_all add: Group_Add_def Group_Run_def SignalHandler_def)

end
