(* ===== verification/Lifecycle.thy ===== *)
theory Lifecycle
  imports Redis_Session Tracing Run_Group
begin

text \<open>
  A service from its start to its end: a redis client and a trace provider are made, actors run in a group,
  and when the group ends the shutdown handler stops the process.
\<close>

lemma PreStop_frame:
  assumes "handler_ok h" "PreStop h level f = Ret h'"
  shows "handler_ok h' \<and> mux_held h' = mux_held h \<and> stopCh_closed h' = stopCh_closed h \<and> wg h' = wg h \<and>
    f \<in> set (preStopFuncs h' ! level) \<and> (\<forall>l. set (preStopFuncs h ! l) \<subseteq> set (preStopFuncs h' ! l))"
proof -
  have "set (preStopFuncs h ! l) \<subseteq> set (preStopFuncs h' ! l)" for l
    using PreStop_at [OF assms] by (cases "l = level") auto
  moreover have "wg h' = wg h" using assms(2) by (auto simp: PreStop_def split: if_splits)
  ultimately show ?thesis using PreStop_ok [OF assms] PreStop_at [OF assms] by simp
qed

lemma NewRedisClient_first:
  assumes "NewRedisClient cx new_client ping close closer op None w = Ret (Inr c, sh, w')"
  shows "\<exists>h. sh = Some h \<and> PreStop new_handler LevelDB (closer c) = Ret h"
proof -
  obtain r tc where o: "driver_opts op = Some (r, tc)" using assms by (auto simp: NewRedisClient_def split: option.splits)
  then obtain x where x: "UnsafeString cx (Password op) = Ret x"
    using assms by (auto simp: NewRedisClient_def bind_run_Ret_conv)
  then obtain pw where pw: "UnsafeString cx (Password op) = Ret (Inr pw)"
    using assms o by (cases x) (auto simp: NewRedisClient_def)
  obtain err w2 where ping: "ping (new_client (r\<lparr>rPassword := pw\<rparr>) tc) w = (err, w2)" by (cases "ping (new_client (r\<lparr>rPassword := pw\<rparr>) tc) w")
  show ?thesis
    using assms o pw ping by (cases err) (auto simp: NewRedisClient_def SetupSignalHandler_def Let_def map_run_def bind_run_Ret_conv)
qed



end
