(* ===== verification/Conv.thy ===== *)
theory Conv
  imports Capacity
begin

text \<open>
  The package \<open>conv\<close>: times that remember the form they were read in (\<open>conv/time.go\<close>), the hooks that
  decode URL queries (\<open>conv/url_query.go\<close>) and the conversion through JSON (\<open>conv/json.go\<close>). Floating-point
  numbers, the layouts of \<open>time.Parse\<close> and \<open>time.Format\<close>, the JSON codec and \<open>mapstructure\<close> are parameters.
\<close>

section \<open>Times\<close>

text \<open>An instant: seconds since the epoch, nanoseconds in the second, and a location.\<close>

record go_time =
  secs :: int
  nanos :: int
  loc :: string

definition Local :: string where "Local = ''Local''"

definition zero_time :: go_time where
  "zero_time = \<lparr>secs = - 62135596800, nanos = 0, loc = ''UTC''\<rparr>"

definition time_Unix :: "int \<Rightarrow> int \<Rightarrow> go_time" where
  "time_Unix sec nsec = \<lparr>secs = sec + nsec div 1000000000, nanos = nsec mod 1000000000, loc = Local\<rparr>"

definition time_UnixMilli :: "int \<Rightarrow> go_time" where
  "time_UnixMilli ms = time_Unix (ms div 1000) (ms mod 1000 * 1000000)"

definition UnixMilli :: "go_time \<Rightarrow> int" where
  "UnixMilli t = wrap64 (secs t * 1000 + nanos t div 1000000)"

text \<open>The remainder of Go has the sign of the dividend.\<close>

definition go_rem :: "int \<Rightarrow> int \<Rightarrow> int" where
  "go_rem a b = sgn a * (\<bar>a\<bar> mod \<bar>b\<bar>)"

text \<open>
  What the code does with \<open>float64\<close>: \<open>milli_part\<close> is \<open>int64((ts-float64(int64(ts)))*1e3)\<close>.
\<close>

record 'f floats =
  ParseFloat :: "string \<Rightarrow> 'f option"
  FormatFloat :: "'f \<Rightarrow> string"
  of_int64 :: "int \<Rightarrow> 'f"
  div_1e3 :: "'f \<Rightarrow> 'f"
  above_1e12 :: "'f \<Rightarrow> bool"
  to_int64 :: "'f \<Rightarrow> int"
  milli_part :: "'f \<Rightarrow> int"

definition float_time :: "'f floats \<Rightarrow> 'f \<Rightarrow> go_time" where
  "float_time F ts = time_Unix (to_int64 F ts) (go_rem (milli_part F ts) 1000 * 1000000)"

record conv_time =
  the_time :: go_time
  Format :: string

definition UnixTimestamp :: string where "UnixTimestamp = ''unix-timestamp''"
definition UnixMilliTimestamp :: string where "UnixMilliTimestamp = ''unix-milli-timestamp''"
definition FloatUnixTimestamp :: string where "FloatUnixTimestamp = ''float-unix-timestamp''"
definition FloatUnixMilliTimestamp :: string where "FloatUnixMilliTimestamp = ''float-unix-milli-timestamp''"

lemmas format_defs = UnixTimestamp_def UnixMilliTimestamp_def FloatUnixTimestamp_def FloatUnixMilliTimestamp_def

text \<open>The JSON codec and the layouts.\<close>

record 'e time_codec =
  json_string :: "string \<Rightarrow> string"
  json_unquote :: "string \<Rightarrow> 'e + string"
  json_time :: "go_time \<Rightarrow> 'e + string"
  layout_Format :: "string \<Rightarrow> go_time \<Rightarrow> string"
  layout_Parse :: "string \<Rightarrow> string \<Rightarrow> 'e + go_time"

definition time_MarshalJSON :: "'f floats \<Rightarrow> 'e time_codec \<Rightarrow> conv_time \<Rightarrow> 'e + string" where
  "time_MarshalJSON F J t =
     (let x = the_time t; f = Format t; ms = UnixMilli x
      in if f = [] then json_time J x
         else if f = UnixTimestamp then Inr (itoa (secs x))
         else if f = UnixTimestamp @ ''-string'' then Inr (json_string J (itoa (secs x)))
         else if f = UnixMilliTimestamp then Inr (itoa ms)
         else if f = FloatUnixMilliTimestamp @ ''-string'' then Inr (json_string J (FormatFloat F (of_int64 F ms)))
         else if f = FloatUnixTimestamp then Inr (FormatFloat F (div_1e3 F (of_int64 F ms)))
         else if f = FloatUnixTimestamp @ ''-string'' then Inr (json_string J (FormatFloat F (div_1e3 F (of_int64 F ms))))
         else if f = FloatUnixMilliTimestamp then Inr (FormatFloat F (of_int64 F ms))
         else if f = UnixMilliTimestamp @ ''-string'' then Inr (json_string J (FormatFloat F (of_int64 F ms)))
         else Inr (json_string J (layout_Format J f x)))"

definition timeFormats :: "string list" where
  "timeFormats = [''2006-01-02 15:04:05'', ''2006-01-02T15:04:05Z07:00'', ''2006-01-02T15:04:05.999999999Z07:00'', ''2006-01-02'',
     CHR ''0'' # ''1/02 03:04:05PM '' @ [CHR 0x27] @ ''06 -0700'', ''Mon Jan _2 15:04:05 2006'', ''Mon Jan _2 15:04:05 MST 2006'',
     ''Mon Jan 02 15:04:05 -0700 2006'', ''02 Jan 06 15:04 MST'', ''02 Jan 06 15:04 -0700'', ''Monday, 02-Jan-06 15:04:05 MST'',
     ''Mon, 02 Jan 2006 15:04:05 MST'', ''Mon, 02 Jan 2006 15:04:05 -0700'', ''2006-01-02T15:04:05.999999999Z0700'']"

text \<open>\<open>fromTimestampStrng\<close>: whether the text is a timestamp, and the time with its format then.\<close>

definition fromTimestampStrng :: "'f floats \<Rightarrow> string \<Rightarrow> conv_time option" where
  "fromTimestampStrng F raw =
     (case parse_int 64 raw of
        (None, ts) \<Rightarrow>
          if ts > 1000000000000 then Some \<lparr>the_time = time_UnixMilli ts, Format = UnixMilliTimestamp\<rparr>
          else Some \<lparr>the_time = time_Unix ts 0, Format = UnixTimestamp\<rparr>
      | (Some _, _) \<Rightarrow>
          (case ParseFloat F raw of
             Some ts \<Rightarrow>
               if above_1e12 F ts then Some \<lparr>the_time = time_UnixMilli (to_int64 F ts), Format = FloatUnixMilliTimestamp\<rparr>
               else Some \<lparr>the_time = float_time F ts, Format = FloatUnixTimestamp\<rparr>
           | None \<Rightarrow> None))"

text \<open>The loop over the layouts; \<open>time.Parse\<close> gives the zero time with its error.\<close>

fun try_layouts :: "(string \<Rightarrow> 'e + go_time) \<Rightarrow> string list \<Rightarrow> 'e option \<times> conv_time \<Rightarrow> 'e option \<times> conv_time" where
  "try_layouts parse [] r = r"
| "try_layouts parse (f # fs) r =
     (case parse f of
        Inr x \<Rightarrow> (None, \<lparr>the_time = x, Format = f\<rparr>)
      | Inl err \<Rightarrow> try_layouts parse fs (Some err, (snd r)\<lparr>the_time := zero_time\<rparr>))"

definition time_UnmarshalJSON :: "'f floats \<Rightarrow> 'e time_codec \<Rightarrow> string \<Rightarrow> conv_time \<Rightarrow> 'e option \<times> conv_time" where
  "time_UnmarshalJSON F J raw t =
     (case fromTimestampStrng F raw of
        Some t' \<Rightarrow> (None, t')
      | None \<Rightarrow>
          (case json_unquote J raw of
             Inl err \<Rightarrow> (Some err, t)
           | Inr timeStr \<Rightarrow>
               (case fromTimestampStrng F timeStr of
                  Some t' \<Rightarrow> (None, t'\<lparr>Format := Format t' @ ''-string''\<rparr>)
                | None \<Rightarrow> try_layouts (\<lambda>f. layout_Parse J f timeStr) timeFormats (None, t))))"

section \<open>Timestamps are read back\<close>

lemma dec_nat_sign: "dec_nat n = c # r \<Longrightarrow> is_digit c \<and> c \<noteq> CHR ''-'' \<and> c \<noteq> CHR ''+''"
  using dec_nat_digits [of n] by (auto simp: is_digit_def)

lemma parse_int_itoa:
  assumes "- (2 ^ 63) \<le> i" "i < 2 ^ 63"
  shows "parse_int 64 (itoa i) = (None, i)"
proof (cases "i < 0")
  case True
  have "list_all is_digit (dec_nat (nat (- i)))" using dec_nat_digits by (simp add: list_all_iff)
  then show ?thesis using True assms(1) by (simp add: parse_int_def itoa_def Let_def)
next
  case False
  obtain c r where d: "dec_nat (nat i) = c # r" by (cases "dec_nat (nat i)") auto
  have "list_all is_digit (c # r)" "dec_val 0 (c # r) = i"
    using dec_nat_digits [of "nat i"] dec_val_dec_nat [of "nat i"] False by (simp_all add: list_all_iff d)
  then show ?thesis
    using False assms(2) dec_nat_sign [OF d] by (simp add: parse_int_def itoa_def Let_def d)
qed

lemma parse_int_quoted: "fst (parse_int 64 (CHR 0x22 # s)) \<noteq> None"
  by (simp add: parse_int_def Let_def is_digit_def)

text \<open>The JSON codec on the texts of numbers, and the float parser on quoted texts.\<close>

definition plain_codec :: "'f floats \<Rightarrow> 'e time_codec \<Rightarrow> bool" where
  "plain_codec F J \<longleftrightarrow> (\<forall>i. json_string J (itoa i) = CHR 0x22 # itoa i @ [CHR 0x22] \<and>
     json_unquote J (json_string J (itoa i)) = Inr (itoa i) \<and> ParseFloat F (CHR 0x22 # itoa i @ [CHR 0x22]) = None)"

lemma fromTimestampStrng_int:
  assumes "- (2 ^ 63) \<le> i" "i < 2 ^ 63"
  shows "fromTimestampStrng F (itoa i) = Some (if i > 1000000000000 then \<lparr>the_time = time_UnixMilli i, Format = UnixMilliTimestamp\<rparr>
    else \<lparr>the_time = time_Unix i 0, Format = UnixTimestamp\<rparr>)"
  by (simp add: fromTimestampStrng_def parse_int_itoa [OF assms])

lemma fromTimestampStrng_quoted:
  assumes "plain_codec F J"
  shows "fromTimestampStrng F (json_string J (itoa i)) = None"
  using assms parse_int_quoted [of "itoa i @ [CHR 0x22]"]
  by (cases "parse_int 64 (json_string J (itoa i))") (auto simp: plain_codec_def fromTimestampStrng_def split: option.splits)


definition sample_floats :: "int floats" where
  "sample_floats = \<lparr>ParseFloat = (\<lambda>_. None), FormatFloat = itoa, of_int64 = id, div_1e3 = (\<lambda>x. x div 1000),
     above_1e12 = (\<lambda>x. x > 1000000000000), to_int64 = id, milli_part = (\<lambda>_. 0)\<rparr>"

definition sample_codec :: "string time_codec" where
  "sample_codec = \<lparr>json_string = (\<lambda>s. CHR 0x22 # s @ [CHR 0x22]), json_unquote = (\<lambda>s. Inr (butlast (tl s))),
     json_time = (\<lambda>_. Inl ''no''), layout_Format = (\<lambda>f _. f), layout_Parse = (\<lambda>_ _. Inl ''no'')\<rparr>"


section \<open>Decode hooks for URL queries\<close>

text \<open>The values a hook sees and makes, and the types it decodes to; the kind of \<open>time.Time\<close> is \<open>Struct\<close>,
  that of \<open>Capacities\<close> \<open>Int64\<close>.\<close>

datatype ('f, 'd) qval =
  VNil | VString string | VInt int | VFloat 'f | VBool bool | VTime go_time | VDecoded 'd
  | VSlice "('f, 'd) qval list" | VOther

datatype target = TString | TInt | TUint | TFloat | TBool | TTime | TCapacity | TStruct | TMap | TSlice | TOther

datatype 'e hook_error = NumError num_error | NotAFloat | NotABool string | LayoutError 'e | JsonError 'e | NotACapacity cap_error

type_synonym ('f, 'd, 'e) hook = "target \<Rightarrow> ('f, 'd) qval \<Rightarrow> 'e hook_error + ('f, 'd) qval"

fun first_layout :: "(string \<Rightarrow> 'e + go_time) \<Rightarrow> string list \<Rightarrow> 'e option \<times> go_time \<Rightarrow> 'e option \<times> go_time" where
  "first_layout parse [] r = r"
| "first_layout parse (f # fs) r =
     (case parse f of Inr x \<Rightarrow> (None, x) | Inl err \<Rightarrow> first_layout parse fs (Some err, zero_time))"

definition StringToTimeHookFunc :: "'f floats \<Rightarrow> 'e time_codec \<Rightarrow> ('f, 'd, 'e) hook" where
  "StringToTimeHookFunc F J t data =
     (case data of
        VString s \<Rightarrow>
          if t \<noteq> TTime then Inr data
          else (case parse_int 64 s of
            (None, ts) \<Rightarrow> Inr (VTime (if ts > 1000000000000 then time_UnixMilli ts else time_Unix ts 0))
          | (Some _, _) \<Rightarrow>
              (case ParseFloat F s of
                 Some ts \<Rightarrow> Inr (VTime (if above_1e12 F ts then time_UnixMilli (to_int64 F ts) else float_time F ts))
               | None \<Rightarrow>
                   (case first_layout (\<lambda>f. layout_Parse J f s) timeFormats (None, zero_time) of
                      (None, x) \<Rightarrow> Inr (VTime x) | (Some err, _) \<Rightarrow> Inl (LayoutError err))))
      | _ \<Rightarrow> Inr data)"

definition ParseBool :: "string \<Rightarrow> bool option" where
  "ParseBool s =
     (if s \<in> {''1'', ''t'', ''T'', ''true'', ''TRUE'', ''True''} then Some True
      else if s \<in> {''0'', ''f'', ''F'', ''false'', ''FALSE'', ''False''} then Some False
      else None)"

text \<open>Signed and unsigned targets are parsed alike. \<open>json_any\<close> decodes into an empty interface.\<close>

definition StringToBaseTypeHookFunc :: "'f floats \<Rightarrow> (string \<Rightarrow> 'e + 'd) \<Rightarrow> ('f, 'd, 'e) hook" where
  "StringToBaseTypeHookFunc F json_any tv data =
     (case data of
        VString s \<Rightarrow>
          if tv \<in> {TInt, TUint, TCapacity} then (case parse_int 64 s of (None, i) \<Rightarrow> Inr (VInt i) | (Some err, _) \<Rightarrow> Inl (NumError err))
          else if tv = TFloat then (case ParseFloat F s of Some x \<Rightarrow> Inr (VFloat x) | None \<Rightarrow> Inl NotAFloat)
          else if tv = TBool then (case ParseBool s of Some b \<Rightarrow> Inr (VBool b) | None \<Rightarrow> Inl (NotABool s))
          else if tv \<in> {TStruct, TTime, TMap} then (case json_any s of Inr d \<Rightarrow> Inr (VDecoded d) | Inl err \<Rightarrow> Inl (JsonError err))
          else Inr data
      | _ \<Rightarrow> Inr data)"

definition URLValuesHookFunc :: "('f, 'd, 'e) hook \<Rightarrow> ('f, 'd, 'e) hook" where
  "URLValuesHookFunc fc tv fv =
     (case fc tv fv of
        Inl err \<Rightarrow> Inl err
      | Inr data \<Rightarrow>
          (case data of
             VSlice xs \<Rightarrow>
               if tv \<noteq> TSlice then (case xs of x # _ \<Rightarrow> fc tv x | [] \<Rightarrow> Inr VNil) else Inr data
           | _ \<Rightarrow> Inr data))"

text \<open>\<open>unmarshaler\<close>: what \<open>UnmarshalBinary\<close> does for the targets that have it.\<close>

definition BinaryUnmarshalerHookFunc :: "(target \<Rightarrow> (string \<Rightarrow> 'e hook_error + 'd) option) \<Rightarrow> ('f, 'd, 'e) hook" where
  "BinaryUnmarshalerHookFunc unmarshaler t data =
     (case data of
        VString s \<Rightarrow> (case unmarshaler t of
          None \<Rightarrow> Inr data
        | Some u \<Rightarrow> (case u s of Inl err \<Rightarrow> Inl err | Inr d \<Rightarrow> Inr (VDecoded d)))
      | _ \<Rightarrow> Inr data)"

definition capacity_hook :: "('f, 'd, 'e) hook" where
  "capacity_hook t data =
     (case data of
        VString s \<Rightarrow> (case StringToCapacityHookFunc (t = TCapacity) s of
          Inl err \<Rightarrow> Inl (NotACapacity err)
        | Inr (Inl c) \<Rightarrow> Inr (VInt c)
        | Inr (Inr text) \<Rightarrow> Inr (VString text))
      | _ \<Rightarrow> Inr data)"

text \<open>The default hooks; those between the second and the last are of \<open>mapstructure\<close>.\<close>

definition DefaultDecodeHookFuncs ::
  "'f floats \<Rightarrow> 'e time_codec \<Rightarrow> (target \<Rightarrow> (string \<Rightarrow> 'e hook_error + 'd) option) \<Rightarrow> ('f, 'd, 'e) hook list \<Rightarrow> ('f, 'd, 'e) hook list" where
  "DefaultDecodeHookFuncs F J unmarshaler lib =
     [StringToTimeHookFunc F J, BinaryUnmarshalerHookFunc unmarshaler] @ lib @ [capacity_hook]"

text \<open>
  The hook that \<open>DecodeURLValues\<close> installs: the caller's hooks, the one of the configuration (by default
  the composition of the default ones), and the one for base types.
\<close>

definition query_hook ::
  "(('f, 'd, 'e) hook list \<Rightarrow> ('f, 'd, 'e) hook) \<Rightarrow> 'f floats \<Rightarrow> (string \<Rightarrow> 'e + 'd) \<Rightarrow> ('f, 'd, 'e) hook list \<Rightarrow>
   ('f, 'd, 'e) hook option \<Rightarrow> ('f, 'd, 'e) hook list \<Rightarrow> ('f, 'd, 'e) hook" where
  "query_hook compose F json_any default_hooks config fs =
     (let config_hook = (case config of None \<Rightarrow> compose default_hooks | Some h \<Rightarrow> h)
      in URLValuesHookFunc (compose (fs @ [config_hook, StringToBaseTypeHookFunc F json_any])))"

definition DecodeURLValues ::
  "(('f, 'd, 'e) hook list \<Rightarrow> ('f, 'd, 'e) hook) \<Rightarrow> 'f floats \<Rightarrow> (string \<Rightarrow> 'e + 'd) \<Rightarrow>
   (('f, 'd, 'e) hook \<Rightarrow> 'dst \<Rightarrow> 'x + ('u \<Rightarrow> 'x option \<times> 'dst)) \<Rightarrow> ('f, 'd, 'e) hook list \<Rightarrow> 'u \<Rightarrow> 'dst \<Rightarrow>
   ('f, 'd, 'e) hook option \<Rightarrow> ('f, 'd, 'e) hook list \<Rightarrow> 'x option \<times> 'dst" where
  "DecodeURLValues compose F json_any NewDecoder default_hooks u dst config fs =
     (case NewDecoder (query_hook compose F json_any default_hooks config fs) dst of
        Inl err \<Rightarrow> (Some err, dst)
      | Inr decode \<Rightarrow> decode u)"

definition DecodeQuery where
  "DecodeQuery ParseQuery compose F json_any NewDecoder default_hooks query dst config fs =
     (case ParseQuery query of
        Inl err \<Rightarrow> (Some err, dst)
      | Inr u \<Rightarrow> DecodeURLValues compose F json_any NewDecoder default_hooks u dst config fs)"

section \<open>Conversion through JSON\<close>

definition conv_JSON :: "('s \<Rightarrow> 'e + string) \<Rightarrow> (string \<Rightarrow> 'd \<Rightarrow> 'e option \<times> 'd) \<Rightarrow> 's \<Rightarrow> 'd \<Rightarrow> 'e option \<times> 'd" where
  "conv_JSON marshal unmarshal src dst =
     (case marshal src of Inl err \<Rightarrow> (Some err, dst) | Inr bytes \<Rightarrow> unmarshal bytes dst)"

section \<open>The type of a decoded value\<close>

fun base_type :: "('f, 'd) qval \<Rightarrow> target set" where
  "base_type (VInt _) = {TInt, TUint, TCapacity}"
| "base_type (VFloat _) = {TFloat}"
| "base_type (VBool _) = {TBool}"
| "base_type (VTime _) = {TTime}"
| "base_type (VDecoded _) = {TStruct, TMap, TTime}"
| "base_type (VString _) = {TString, TSlice, TOther}"
| "base_type _ = {}"

text \<open>Composition of hooks: from left to right, until an error.\<close>

definition runs_in_order :: "(('f, 'd, 'e) hook list \<Rightarrow> ('f, 'd, 'e) hook) \<Rightarrow> bool" where
  "runs_in_order compose \<longleftrightarrow> (\<forall>hs t v. compose hs t v = foldl (\<lambda>r h. case r of Inl err \<Rightarrow> Inl err | Inr v \<Rightarrow> h t v) (Inr v) hs)"

lemma StringToBaseType_typed:
  "StringToBaseTypeHookFunc F json_any t (VString s) = Inr v \<Longrightarrow> t \<in> base_type v"
  by (cases t) (auto simp: StringToBaseTypeHookFunc_def split: prod.splits option.splits sum.splits)

lemma compose_passive:
  assumes "runs_in_order compose" "\<forall>h \<in> set hs. \<forall>v. h t v = Inr v"
  shows "compose hs t v = Inr v"
proof -
  have "foldl (\<lambda>r h. case r of Inl err \<Rightarrow> Inl err | Inr v \<Rightarrow> h t v) (Inr v) hs = Inr v"
    using assms(2) by (induction hs) auto
  then show ?thesis using assms(1) by (simp add: runs_in_order_def)
qed


definition seq_hooks :: "('f, 'd, 'e) hook list \<Rightarrow> ('f, 'd, 'e) hook" where
  "seq_hooks hs t v = foldl (\<lambda>r h. case r of Inl err \<Rightarrow> Inl err | Inr v \<Rightarrow> h t v) (Inr v) hs"


section \<open>Sizes in queries\<close>

lemma foldl_hooks_passive:
  assumes "\<forall>h \<in> set hs. \<forall>v. h t v = Inr v"
  shows "foldl (\<lambda>r h. case r of Inl err \<Rightarrow> Inl err | Inr v \<Rightarrow> h t v) (Inr v) hs = Inr v"
  using assms by (induction hs) auto

lemma default_hooks_capacity:
  assumes "runs_in_order compose" "\<forall>h \<in> set lib. \<forall>v. h TCapacity v = Inr v" "unmarshaler TCapacity = None"
  shows "compose (DefaultDecodeHookFuncs F J unmarshaler lib) TCapacity v = capacity_hook TCapacity v"
proof -
  let ?run = "foldl (\<lambda>r h. case r of Inl err \<Rightarrow> Inl err | Inr v \<Rightarrow> h TCapacity v)"
  have t: "StringToTimeHookFunc F J TCapacity v = Inr v" for v
    by (cases v) (simp_all add: StringToTimeHookFunc_def)
  have b: "BinaryUnmarshalerHookFunc unmarshaler TCapacity v = Inr v" for v
    using assms(3) by (cases v) (simp_all add: BinaryUnmarshalerHookFunc_def)
  have "?run (Inr v) (DefaultDecodeHookFuncs F J unmarshaler lib) = ?run (?run (Inr v) lib) [capacity_hook]"
    by (simp add: DefaultDecodeHookFuncs_def t b)
  also have "\<dots> = capacity_hook TCapacity v" by (simp add: foldl_hooks_passive [OF assms(2)])
  finally show ?thesis using assms(1) by (simp add: runs_in_order_def)
qed

text \<open>
  A size in a query, written as it is printed, is decoded to itself under the default hooks: the hook for
  sizes runs before the one for base types, which would refuse the unit. A text that is no size is an error.
\<close>

theorem Query_capacity:
  assumes "runs_in_order compose" "\<forall>h \<in> set lib. \<forall>v. h TCapacity v = Inr v" "unmarshaler TCapacity = None"
    and "c \<noteq> 0" "\<bar>c\<bar> < 2 ^ 50" "ParseCapacities bad = Inl err"
  shows "\<exists>s. cap_String (Some c) = Ret s \<and>
    query_hook compose F json_any (DefaultDecodeHookFuncs F J unmarshaler lib) None [] TCapacity (VSlice (VString s # others)) = Inr (VInt c) \<and>
    query_hook compose F json_any (DefaultDecodeHookFuncs F J unmarshaler lib) None [] TCapacity (VSlice (VString bad # others)) = Inl (NotACapacity err)"
proof -
  obtain s where s: "cap_String (Some c) = Ret s" "ParseCapacities s = Inr c"
    using printed_parsed [OF assms(4,5)] by blast
  let ?hooks = "[compose (DefaultDecodeHookFuncs F J unmarshaler lib), StringToBaseTypeHookFunc F json_any]"
  have h: "compose ?hooks TCapacity v =
      (case capacity_hook TCapacity v of Inl err \<Rightarrow> Inl err | Inr v \<Rightarrow> StringToBaseTypeHookFunc F json_any TCapacity v)" for v
    using assms(1) default_hooks_capacity [where unmarshaler = unmarshaler, OF assms(1-3)] unfolding runs_in_order_def by simp
  have "query_hook compose F json_any (DefaultDecodeHookFuncs F J unmarshaler lib) None [] TCapacity (VSlice (VString x # others)) =
      (case ParseCapacities x of Inl err \<Rightarrow> Inl (NotACapacity err) | Inr c \<Rightarrow> Inr (VInt c))" for x
    by (simp add: query_hook_def URLValuesHookFunc_def h capacity_hook_def StringToCapacityHookFunc_def StringToBaseTypeHookFunc_def
        split: sum.split)
  with s assms(6) show ?thesis by (intro exI [of _ s]) simp
qed

lemma Query_capacity_witness:
  "\<exists>s. cap_String (Some 1536) = Ret s \<and>
    query_hook seq_hooks sample_floats (\<lambda>_. Inl ''no'' :: string + unit) (DefaultDecodeHookFuncs sample_floats sample_codec (\<lambda>_. None) [])
      None [] TCapacity (VSlice [VString s]) = Inr (VInt 1536)"
proof -
  have r: "runs_in_order (seq_hooks :: (int, unit, string) hook list \<Rightarrow> (int, unit, string) hook)"
    by (simp add: runs_in_order_def seq_hooks_def)
  have "ParseCapacities [] = Inl (InvalidCapacity [])" by (simp add: ParseCapacities_def)
  from Query_capacity [OF r, of "[]" "\<lambda>_. None" 1536 "[]" "InvalidCapacity []" sample_floats "\<lambda>_. Inl ''no''" sample_codec "[]", OF _ _ _ _ this]
  show ?thesis by auto
qed

end
