(* ===== verification/Template.thy ===== *)
theory Template
  imports Paths "HOL-Library.Multiset"
begin

text \<open>
  \<open>wrapper/template.go\<close>: a text or HTML template read from YAML or JSON. The two template engines of the
  standard library and the decoders of YAML and JSON are parameters; the functions that templates can
  call are defined where the code defines them.
\<close>

record ('t, 'h) tmpl =
  raw :: string
  htmlTmpl :: "'h option"
  textTmpl :: "'t option"

definition empty_tmpl :: "('t, 'h) tmpl" where
  "empty_tmpl = \<lparr>raw = [], htmlTmpl = None, textTmpl = None\<rparr>"

text \<open>
  The engines: a parser gets the functions, the name of the template and the text, or the file; with an
  error it gives a nil template. Execution gives what was written and an error.
\<close>

record ('f, 't, 'h, 'd, 'e) engines =
  text_Parse :: "'f \<Rightarrow> string \<Rightarrow> string \<Rightarrow> 'e + 't"
  text_ParseFiles :: "'f \<Rightarrow> string \<Rightarrow> string \<Rightarrow> 'e + 't"
  html_Parse :: "'f \<Rightarrow> string \<Rightarrow> string \<Rightarrow> 'e + 'h"
  html_ParseFiles :: "'f \<Rightarrow> string \<Rightarrow> string \<Rightarrow> 'e + 'h"
  text_Execute :: "'t \<Rightarrow> 'd \<Rightarrow> string \<times> 'e option"
  html_Execute :: "'h \<Rightarrow> 'd \<Rightarrow> string \<times> 'e option"

definition err_of :: "'e + 'a \<Rightarrow> 'e option" where
  "err_of r = (case r of Inl err \<Rightarrow> Some err | Inr _ \<Rightarrow> None)"

definition val_opt :: "'e + 'a \<Rightarrow> 'a option" where
  "val_opt r = (case r of Inl _ \<Rightarrow> None | Inr x \<Rightarrow> Some x)"

text \<open>\<open>filepath.Base\<close>.\<close>

definition file_Base :: "string \<Rightarrow> string" where
  "file_Base p =
     (if p = [] then ''.''
      else let p = rev (dropWhile (\<lambda>c. c = CHR ''/'') (rev p));
               b = rev (takeWhile (\<lambda>c. c \<noteq> CHR ''/'') (rev p))
           in if b = [] then ''/'' else b)"

definition parseTextTemplate :: "('f, 't, 'h, 'd, 'e) engines \<Rightarrow> 'f \<Rightarrow> string \<Rightarrow> ('t, 'h) tmpl \<Rightarrow> 'e option \<times> ('t, 'h) tmpl" where
  "parseTextTemplate E funcMaps text t =
     (let r = text_Parse E funcMaps ''root'' text in (err_of r, t\<lparr>htmlTmpl := None, textTmpl := val_opt r\<rparr>))"

definition parseTextFileTemplate :: "('f, 't, 'h, 'd, 'e) engines \<Rightarrow> 'f \<Rightarrow> string \<Rightarrow> ('t, 'h) tmpl \<Rightarrow> 'e option \<times> ('t, 'h) tmpl" where
  "parseTextFileTemplate E funcMaps f t =
     (let r = text_ParseFiles E funcMaps (file_Base f) f in (err_of r, t\<lparr>htmlTmpl := None, textTmpl := val_opt r\<rparr>))"

definition parseHTMLFileTemplate :: "('f, 't, 'h, 'd, 'e) engines \<Rightarrow> 'f \<Rightarrow> string \<Rightarrow> ('t, 'h) tmpl \<Rightarrow> 'e option \<times> ('t, 'h) tmpl" where
  "parseHTMLFileTemplate E funcMaps f t =
     (let r = html_ParseFiles E funcMaps (file_Base f) f in (err_of r, t\<lparr>textTmpl := None, htmlTmpl := val_opt r\<rparr>))"

definition parseHTMLTemplate :: "('f, 't, 'h, 'd, 'e) engines \<Rightarrow> 'f \<Rightarrow> string \<Rightarrow> ('t, 'h) tmpl \<Rightarrow> 'e option \<times> ('t, 'h) tmpl" where
  "parseHTMLTemplate E funcMaps text t =
     (let r = html_Parse E funcMaps ''root'' text in (err_of r, t\<lparr>textTmpl := None, htmlTmpl := val_opt r\<rparr>))"

datatype 'e tmpl_error = EngineError 'e | UnknownType string | JsonError 'e | InvalidFormat | UnknownFunction string

definition lift_err :: "'e option \<times> 'a \<Rightarrow> 'e tmpl_error option \<times> 'a" where
  "lift_err r = (map_option EngineError (fst r), snd r)"

record yaml_node =
  Tag :: string
  is_scalar :: bool
  Value :: string

definition tmpl_UnmarshalYAML ::
  "('f, 't, 'h, 'd, 'e) engines \<Rightarrow> 'f \<Rightarrow> yaml_node \<Rightarrow> ('t, 'h) tmpl \<Rightarrow> 'e tmpl_error option \<times> ('t, 'h) tmpl" where
  "tmpl_UnmarshalYAML E funcMaps v t0 =
     (let t = t0\<lparr>raw := Value v\<rparr>
      in if Tag v = ''!!str'' \<or> Tag v = ''!text'' then
           (if is_scalar v then lift_err (parseTextTemplate E funcMaps (Value v) t) else (Some (UnknownType (Tag v)), t))
         else if Tag v = ''!file'' then lift_err (parseTextFileTemplate E funcMaps (Value v) t)
         else if Tag v = ''!htmlFile'' then lift_err (parseHTMLFileTemplate E funcMaps (Value v) t)
         else if Tag v = ''!html'' then
           (if is_scalar v then lift_err (parseHTMLTemplate E funcMaps (Value v) t) else (Some (UnknownType (Tag v)), t))
         else (Some (UnknownType (Tag v)), t))"

definition tmpl_MarshalYAML :: "('t, 'h) tmpl \<Rightarrow> string" where
  "tmpl_MarshalYAML t = raw t"

definition tmpl_MarshalJSON :: "('t, 'h) tmpl \<Rightarrow> string" where
  "tmpl_MarshalJSON t = raw t"

text \<open>\<open>UnmarshalJSON\<close>: a string, or an object with one function and its argument. The text is not kept.\<close>

definition call_function ::
  "('f, 't, 'h, 'd, 'e) engines \<Rightarrow> 'f \<Rightarrow> string \<Rightarrow> string \<Rightarrow> ('t, 'h) tmpl \<Rightarrow> 'e tmpl_error option \<times> ('t, 'h) tmpl" where
  "call_function E funcMaps name v t =
     (if name = ''fn::text'' then lift_err (parseTextTemplate E funcMaps v t)
      else if name = ''fn::file'' then lift_err (parseTextFileTemplate E funcMaps v t)
      else if name = ''fn::html'' then lift_err (parseHTMLTemplate E funcMaps v t)
      else if name = ''fn::htmlFile'' then lift_err (parseHTMLFileTemplate E funcMaps v t)
      else (Some (UnknownFunction name), t))"

definition tmpl_UnmarshalJSON ::
  "(string \<Rightarrow> 'e + string) \<Rightarrow> (string \<Rightarrow> 'e + (string \<times> string) list) \<Rightarrow> ('f, 't, 'h, 'd, 'e) engines \<Rightarrow> 'f \<Rightarrow> string \<Rightarrow>
   ('t, 'h) tmpl \<Rightarrow> 'e tmpl_error option \<times> ('t, 'h) tmpl" where
  "tmpl_UnmarshalJSON dec_string dec_map E funcMaps data t =
     (if length data \<ge> 2 \<and> data ! 0 = CHR 0x22 \<and> data ! (length data - 1) = CHR 0x22 then
        (case dec_string data of
           Inl err \<Rightarrow> (Some (JsonError err), t)
         | Inr text \<Rightarrow> lift_err (parseTextTemplate E funcMaps text t))
      else
        (case dec_map data of
           Inl err \<Rightarrow> (Some (JsonError err), t)
         | Inr tmplFuncs \<Rightarrow>
             if length tmplFuncs \<noteq> 1 then (Some InvalidFormat, t)
             else call_function E funcMaps (fst (hd tmplFuncs)) (snd (hd tmplFuncs)) t))"

definition NewTextTemplate :: "('f, 't, 'h, 'd, 'e) engines \<Rightarrow> 'f \<Rightarrow> string \<Rightarrow> 'e + ('t, 'h) tmpl" where
  "NewTextTemplate E funcMaps text =
     (case parseTextTemplate E funcMaps text empty_tmpl of (Some err, _) \<Rightarrow> Inl err | (None, t) \<Rightarrow> Inr t)"

definition NewHTMLTemplate :: "('f, 't, 'h, 'd, 'e) engines \<Rightarrow> 'f \<Rightarrow> string \<Rightarrow> 'e + ('t, 'h) tmpl" where
  "NewHTMLTemplate E funcMaps text =
     (case parseHTMLTemplate E funcMaps text empty_tmpl of (Some err, _) \<Rightarrow> Inl err | (None, t) \<Rightarrow> Inr t)"

text \<open>The template that is used; without any it is a nil HTML template, and using that panics.\<close>

datatype ('t, 'h) tmpl_handler = TextHandler 't | HtmlHandler 'h | NilHandler

definition tmpl_handler :: "('t, 'h) tmpl \<Rightarrow> ('t, 'h) tmpl_handler" where
  "tmpl_handler t = (case textTmpl t of
     Some x \<Rightarrow> TextHandler x
   | None \<Rightarrow> (case htmlTmpl t of Some x \<Rightarrow> HtmlHandler x | None \<Rightarrow> NilHandler))"

definition tmpl_Execute :: "('f, 't, 'h, 'd, 'e) engines \<Rightarrow> ('t, 'h) tmpl \<Rightarrow> 'd \<Rightarrow> (string \<times> 'e option) run" where
  "tmpl_Execute E t data = (case tmpl_handler t of
     TextHandler x \<Rightarrow> Ret (text_Execute E x data)
   | HtmlHandler x \<Rightarrow> Ret (html_Execute E x data)
   | NilHandler \<Rightarrow> Panic)"

definition ExecuteToString :: "('f, 't, 'h, 'd, 'e) engines \<Rightarrow> ('t, 'h) tmpl \<Rightarrow> 'd \<Rightarrow> ('e + string) run" where
  "ExecuteToString E t data =
     map_run (\<lambda>(out, err). case err of Some e \<Rightarrow> Inl e | None \<Rightarrow> Inr out) (tmpl_Execute E t data)"

text \<open>The other methods go to the template that is used, too; \<open>f\<close> and \<open>g\<close> are the methods of the two engines.\<close>

definition via_handler :: "('t \<Rightarrow> 'r) \<Rightarrow> ('h \<Rightarrow> 'r) \<Rightarrow> ('t, 'h) tmpl \<Rightarrow> 'r run" where
  "via_handler f g t = (case tmpl_handler t of TextHandler x \<Rightarrow> Ret (f x) | HtmlHandler x \<Rightarrow> Ret (g x) | NilHandler \<Rightarrow> Panic)"

definition tmpl_Name :: "('t \<Rightarrow> string) \<Rightarrow> ('h \<Rightarrow> string) \<Rightarrow> ('t, 'h) tmpl \<Rightarrow> string run" where
  "tmpl_Name = via_handler"

definition DefinedTemplates :: "('t \<Rightarrow> string) \<Rightarrow> ('h \<Rightarrow> string) \<Rightarrow> ('t, 'h) tmpl \<Rightarrow> string run" where
  "DefinedTemplates = via_handler"

definition ExecuteTemplate ::
  "('t \<Rightarrow> string \<Rightarrow> 'd \<Rightarrow> string \<times> 'e option) \<Rightarrow> ('h \<Rightarrow> string \<Rightarrow> 'd \<Rightarrow> string \<times> 'e option) \<Rightarrow>
   ('t, 'h) tmpl \<Rightarrow> string \<Rightarrow> 'd \<Rightarrow> (string \<times> 'e option) run" where
  "ExecuteTemplate f g t name data = via_handler (\<lambda>x. f x name data) (\<lambda>x. g x name data) t"

section \<open>Functions of templates\<close>

definition AddFuncMaps :: "string \<Rightarrow> 'g \<Rightarrow> (string \<Rightarrow> 'g option) \<Rightarrow> (string \<Rightarrow> 'g option)" where
  "AddFuncMaps funcName f funcMaps = funcMaps(funcName \<mapsto> f)"

datatype template_function =
    FnToUpper | FnToLower | FnAdd | FnSub | FnTitle | FnJoin | FnMatch | FnSafeHtml | FnReReplaceAll | FnStringSlice | FnToMap
  | FnToJson | FnSafeJson

definition defaultFuncs :: "(string \<times> template_function) list" where
  "defaultFuncs = [(''toUpper'', FnToUpper), (''toLower'', FnToLower), (''add'', FnAdd), (''sub'', FnSub), (''title'', FnTitle),
     (''join'', FnJoin), (''match'', FnMatch), (''safeHtml'', FnSafeHtml), (''reReplaceAll'', FnReReplaceAll),
     (''stringSlice'', FnStringSlice), (''toMap'', FnToMap), (''toJson'', FnToJson), (''safeJson'', FnSafeJson)]"

text \<open>\<open>init\<close>, with the order in which the map of the default functions is ranged over.\<close>

definition init_funcs :: "(string \<times> template_function) list \<Rightarrow> (string \<Rightarrow> template_function option)" where
  "init_funcs order = fold (\<lambda>(name, f). AddFuncMaps name f) order Map.empty"

lemma init_funcs_any_order:
  assumes "mset order = mset defaultFuncs"
  shows "init_funcs order = map_of defaultFuncs"
proof -
  have "image_mset fst (mset order) = image_mset fst (mset defaultFuncs)" using assms by simp
  then have "mset (map fst order) = mset (map fst defaultFuncs)" by simp
  then have "distinct (map fst order)" by (rule mset_eq_imp_distinct_iff [THEN iffD2]) (simp add: defaultFuncs_def)
  have "fold (\<lambda>(name, f). AddFuncMaps name f) ps m = m ++ map_of ps" if "distinct (map fst ps)"
    for ps :: "(string \<times> template_function) list" and m
    using that
  proof (induction ps arbitrary: m)
    case (Cons p ps)
    then have "map_of ps (fst p) = None" by (simp add: map_of_eq_None_iff)
    with Cons show ?case by (cases p) (auto simp: AddFuncMaps_def fun_eq_iff map_add_def split: option.split)
  qed simp
  then have "init_funcs order = map_of order" using \<open>distinct (map fst order)\<close> by (simp add: init_funcs_def)
  also have "\<dots> = map_of defaultFuncs"
    by (rule map_of_eqI) (use assms \<open>distinct (map fst order)\<close> mset_eq_setD [OF assms] in \<open>auto simp: defaultFuncs_def\<close>)
  finally show ?thesis .
qed

definition tmpl_add :: "int \<Rightarrow> int \<Rightarrow> int" where "tmpl_add a b = wrap64 (a + b)"
definition tmpl_sub :: "int \<Rightarrow> int \<Rightarrow> int" where "tmpl_sub a b = wrap64 (a - b)"

fun str_join :: "string list \<Rightarrow> string \<Rightarrow> string" where
  "str_join [] sep = []"
| "str_join [s] sep = s"
| "str_join (s # ss) sep = s @ sep @ str_join ss sep"

definition tmpl_join :: "string \<Rightarrow> string list \<Rightarrow> string" where
  "tmpl_join sep s = str_join s sep"

definition stringSlice :: "string list \<Rightarrow> string list" where "stringSlice s = s"

text \<open>\<open>toMap\<close> panics with the error of the decoder; \<open>toJson\<close> drops the error of the encoder.\<close>

definition toMap :: "(string \<Rightarrow> 'e + (string \<Rightarrow> string option)) \<Rightarrow> string \<Rightarrow> (string \<Rightarrow> string option) run" where
  "toMap decode s = (case decode s of Inl _ \<Rightarrow> Panic | Inr m \<Rightarrow> Ret m)"

definition toJson :: "('o \<Rightarrow> string \<times> 'e option) \<Rightarrow> 'o \<Rightarrow> string" where
  "toJson marshal x = fst (marshal x)"

definition str_Trim :: "char \<Rightarrow> string \<Rightarrow> string" where
  "str_Trim q s = rev (dropWhile (\<lambda>c. c = q) (rev (dropWhile (\<lambda>c. c = q) s)))"

definition safeJson :: "('o \<Rightarrow> string \<times> 'e option) \<Rightarrow> 'o \<Rightarrow> string" where
  "safeJson marshal x = str_Trim (CHR 0x22) (fst (marshal x))"

text \<open>
  \<open>safeJson\<close> is meant to take the quotes off a JSON string, and takes off all quotes at the ends: of a text that
  ends in a quote, which JSON writes as a backslash and a quote, the backslash is left.
\<close>

lemma safeJson_outcomes:
  assumes "body \<noteq> []" "hd body \<noteq> CHR 0x22" "last body \<noteq> CHR 0x22"
  shows "marshal x = (CHR 0x22 # body @ [CHR 0x22], err) \<Longrightarrow> safeJson marshal x = body"
    and "marshal x = (CHR 0x22 # body @ [CHR 0x5C, CHR 0x22, CHR 0x22], err) \<Longrightarrow> safeJson marshal x = body @ [CHR 0x5C]"
proof -
  have "dropWhile (\<lambda>c. c = CHR 0x22) (body @ xs) = body @ xs" for xs
    using assms(1,2) by (cases body) simp_all
  moreover have "dropWhile (\<lambda>c. c = CHR 0x22) (rev body) = rev body"
    using assms(1,3) by (cases body rule: rev_cases) simp_all
  ultimately show "marshal x = (CHR 0x22 # body @ [CHR 0x22], err) \<Longrightarrow> safeJson marshal x = body"
    "marshal x = (CHR 0x22 # body @ [CHR 0x5C, CHR 0x22, CHR 0x22], err) \<Longrightarrow> safeJson marshal x = body @ [CHR 0x5C]"
    by (simp_all add: safeJson_def str_Trim_def)
qed

section \<open>What a template is after it was read\<close>

lemmas parse_defs = parseTextTemplate_def parseTextFileTemplate_def parseHTMLFileTemplate_def parseHTMLTemplate_def
  Let_def lift_err_def err_of_def val_opt_def

text \<open>The engine that the tag, or the function, of a template stands for.\<close>

definition text_source :: "string \<Rightarrow> bool" where
  "text_source tag = (tag \<in> {''!!str'', ''!text'', ''!file'', ''fn::text'', ''fn::file''})"

definition is_text :: "('t, 'h) tmpl \<Rightarrow> bool" where
  "is_text t = (textTmpl t \<noteq> None \<and> htmlTmpl t = None)"

definition is_html :: "('t, 'h) tmpl \<Rightarrow> bool" where
  "is_html t = (htmlTmpl t \<noteq> None \<and> textTmpl t = None)"

lemma parse_ok:
  "parseTextTemplate E fm x t = (None, t') \<Longrightarrow> is_text t'" "parseTextFileTemplate E fm x t = (None, t') \<Longrightarrow> is_text t'"
  "parseHTMLTemplate E fm x t = (None, t') \<Longrightarrow> is_html t'" "parseHTMLFileTemplate E fm x t = (None, t') \<Longrightarrow> is_html t'"
  by (auto simp: parse_defs is_text_def is_html_def split: sum.splits)

lemma parse_error:
  "parseTextTemplate E fm x t = (Some e, t') \<Longrightarrow> tmpl_handler t' = NilHandler" "parseTextFileTemplate E fm x t = (Some e, t') \<Longrightarrow> tmpl_handler t' = NilHandler"
  "parseHTMLTemplate E fm x t = (Some e, t') \<Longrightarrow> tmpl_handler t' = NilHandler" "parseHTMLFileTemplate E fm x t = (Some e, t') \<Longrightarrow> tmpl_handler t' = NilHandler"
  by (auto simp: parse_defs tmpl_handler_def split: sum.splits)

lemma lift_err_cases: "lift_err p = (r, t') \<Longrightarrow> (\<exists>e. r = Some (EngineError e) \<and> p = (Some e, t')) \<or> r = None \<and> p = (None, t')"
  by (cases p) (auto simp: lift_err_def)

text \<open>
  A template that was read without an error from YAML is a text template for the tags \<open>!!str\<close>,
  \<open>!text\<close> and \<open>!file\<close> and an HTML template for \<open>!html\<close> and \<open>!htmlFile\<close>, and never both, so it can be executed
  by that engine; its YAML form is the text it was read from. After an error of the engine it is neither,
  and executing it panics; after any other error it is what it was.
\<close>

theorem Template_read:
  assumes "tmpl_UnmarshalYAML E fm v t = (r, t')"
  shows "raw t' = Value v \<and> tmpl_MarshalYAML t' = Value v \<and>
    (case r of
       None \<Rightarrow> (if text_source (Tag v) then is_text t' \<and> tmpl_Execute E t' d = Ret (text_Execute E (the (textTmpl t')) d)
                else is_html t' \<and> tmpl_Execute E t' d = Ret (html_Execute E (the (htmlTmpl t')) d))
     | Some (EngineError _) \<Rightarrow> tmpl_Execute E t' d = Panic
     | Some _ \<Rightarrow> t' = t\<lparr>raw := Value v\<rparr>)"
proof -
  have ex: "is_text x \<Longrightarrow> tmpl_Execute E x d = Ret (text_Execute E (the (textTmpl x)) d)"
    "is_html x \<Longrightarrow> tmpl_Execute E x d = Ret (html_Execute E (the (htmlTmpl x)) d)"
    "tmpl_handler x = NilHandler \<Longrightarrow> tmpl_Execute E x d = Panic" for x
    by (auto simp: tmpl_Execute_def tmpl_handler_def is_text_def is_html_def)
  have "raw t' = Value v"
    using assms by (auto simp: tmpl_UnmarshalYAML_def parse_defs split: if_splits)
  moreover have "case r of
       None \<Rightarrow> (if text_source (Tag v) then is_text t' else is_html t')
     | Some (EngineError _) \<Rightarrow> tmpl_handler t' = NilHandler
     | Some _ \<Rightarrow> t' = t\<lparr>raw := Value v\<rparr>"
    using assms by (auto simp: tmpl_UnmarshalYAML_def text_source_def Let_def split: if_splits
      dest!: lift_err_cases parse_ok parse_error)
  ultimately show ?thesis
    using ex by (auto simp: tmpl_MarshalYAML_def split: option.splits tmpl_error.splits)
qed

definition sample_engines :: "(unit, string, string, unit, string) engines" where
  "sample_engines = \<lparr>text_Parse = (\<lambda>_ _ s. if s = [] then Inl ''empty'' else Inr s), text_ParseFiles = (\<lambda>_ n f. Inr f),
     html_Parse = (\<lambda>_ _ s. Inr s), html_ParseFiles = (\<lambda>_ n f. Inr f), text_Execute = (\<lambda>t _. (t, None)), html_Execute = (\<lambda>h _. (h, None))\<rparr>"

lemma Template_read_witness:
  "tmpl_Execute sample_engines (snd (tmpl_UnmarshalYAML sample_engines () \<lparr>Tag = ''!html'', is_scalar = True, Value = ''<p>''\<rparr> empty_tmpl)) () = Ret (''<p>'', None) \<and>
   tmpl_Execute sample_engines (snd (tmpl_UnmarshalYAML sample_engines () \<lparr>Tag = ''!text'', is_scalar = True, Value = []\<rparr> empty_tmpl)) () = Panic"
  using Template_read [OF surjective_pairing, of sample_engines "()" "\<lparr>Tag = ''!html'', is_scalar = True, Value = ''<p>''\<rparr>" empty_tmpl "()"]
    Template_read [OF surjective_pairing, of sample_engines "()" "\<lparr>Tag = ''!text'', is_scalar = True, Value = []\<rparr>" empty_tmpl "()"]
  by (simp add: tmpl_UnmarshalYAML_def parse_defs sample_engines_def text_source_def)

text \<open>From JSON the text is not kept: the JSON form afterwards is what it was before.\<close>

lemma UnmarshalJSON_loses_text:
  assumes "tmpl_UnmarshalJSON ds dm E fm data t = (r, t')"
  shows "tmpl_MarshalJSON t' = tmpl_MarshalJSON t \<and> (r = None \<longrightarrow> is_text t' \<or> is_html t')"
  using assms by (auto simp: tmpl_UnmarshalJSON_def call_function_def tmpl_MarshalJSON_def parse_defs is_text_def is_html_def
    split: if_splits sum.splits)

end
