(* ===== verification/Temp_Fs.thy ===== *)
theory Temp_Fs
  imports Paths
begin

text \<open>
  \<open>fs/tempfs.go\<close>: a file system in a temporary directory that remembers which files were opened. The file
  system below (\<open>afero\<close>) and that of the operating system are parameters on a state of the world.
\<close>

record ('fl, 'e, 'w) afero =
  fs_Stat :: "string \<Rightarrow> 'w \<Rightarrow> 'e option"
  fs_MkdirAll :: "string \<Rightarrow> nat \<Rightarrow> 'w \<Rightarrow> 'e option \<times> 'w"
  fs_OpenFile :: "string \<Rightarrow> nat \<Rightarrow> nat \<Rightarrow> 'w \<Rightarrow> ('e + 'fl) \<times> 'w"
  IsNotExist :: "'e \<Rightarrow> bool"

record temp_fs =
  tempDir :: string
  files :: "string list"

datatype 'e temp_error = Os 'e | EmptyRoot | InvalidDir string

definition NewTempFS :: "(string \<Rightarrow> string \<Rightarrow> 'w \<Rightarrow> ('e + string) \<times> 'w) \<Rightarrow> string \<Rightarrow> string \<Rightarrow> 'w \<Rightarrow> ('e temp_error + temp_fs) \<times> 'w" where
  "NewTempFS MkdirTemp dir pattern w =
     (case MkdirTemp dir pattern w of
        (Inl err, w) \<Rightarrow> (Inl (Os err), w)
      | (Inr d, w) \<Rightarrow> (Inr \<lparr>tempDir = d, files = []\<rparr>, w))"

text \<open>The directory of a file is made (mode 0755) when it does not exist.\<close>

definition temp_OpenFile ::
  "('fl, 'e, 'w) afero \<Rightarrow> string \<Rightarrow> nat \<Rightarrow> nat \<Rightarrow> temp_fs \<Rightarrow> 'w \<Rightarrow> ('e + 'fl) \<times> temp_fs \<times> 'w" where
  "temp_OpenFile A filename flag perm t w =
     (let dir = path_Dir filename;
          (ready, w) = (case fs_Stat A dir w of
             None \<Rightarrow> (None, w)
           | Some err \<Rightarrow> if \<not> IsNotExist A err then (Some err, w) else fs_MkdirAll A dir 493 w)
      in (case ready of
            Some err \<Rightarrow> (Inl err, t, w)
          | None \<Rightarrow>
              (case fs_OpenFile A filename flag perm w of
                 (Inl err, w) \<Rightarrow> (Inl err, t, w)
               | (Inr f, w) \<Rightarrow> (Inr f, t\<lparr>files := files t @ [filename]\<rparr>, w))))"

definition temp_List :: "temp_fs \<Rightarrow> string list" where
  "temp_List t = files t"

definition temp_Close :: "(string \<Rightarrow> 'w \<Rightarrow> 'e option \<times> 'w) \<Rightarrow> temp_fs \<Rightarrow> 'w \<Rightarrow> 'e temp_error option \<times> 'w" where
  "temp_Close RemoveAll t w =
     (if tempDir t = [] then (Some EmptyRoot, w)
      else if tempDir t = ''/'' \<or> tempDir t = ''./'' then (Some (InvalidDir (tempDir t)), w)
      else case RemoveAll (tempDir t) w of (err, w) \<Rightarrow> (map_option Os err, w))"

text \<open>
  After any calls of \<open>OpenFile\<close>, \<open>List\<close> is the names of those that succeeded, in their order, and the
  root is the same; \<open>Close\<close> never removes the root of the system or the working directory.
\<close>

fun open_all :: "('fl, 'e, 'w) afero \<Rightarrow> (string \<times> nat \<times> nat) list \<Rightarrow> temp_fs \<Rightarrow> 'w \<Rightarrow> bool list \<times> temp_fs \<times> 'w" where
  "open_all A [] t w = ([], t, w)"
| "open_all A ((name, flag, perm) # cs) t w =
     (case temp_OpenFile A name flag perm t w of
        (r, t, w) \<Rightarrow> (case open_all A cs t w of (oks, t, w) \<Rightarrow> ((case r of Inl _ \<Rightarrow> False | Inr _ \<Rightarrow> True) # oks, t, w)))"

lemma temp_OpenFile_files:
  "temp_OpenFile A name flag perm t w = (r, t', w') \<Longrightarrow>
    t' = (case r of Inl _ \<Rightarrow> t | Inr _ \<Rightarrow> t\<lparr>files := files t @ [name]\<rparr>)"
  by (auto simp: temp_OpenFile_def Let_def split: prod.splits option.splits sum.splits if_splits)

theorem List_opened:
  assumes "open_all A cs t w = (oks, t', w')"
  shows "length oks = length cs \<and> tempDir t' = tempDir t \<and>
    temp_List t' = temp_List t @ map fst (map fst (filter snd (zip cs oks)))"
  using assms
proof (induction cs arbitrary: t w oks)
  case (Cons c cs)
  obtain name flag perm where c: "c = (name, flag, perm)" by (cases c)
  obtain r t1 w1 where o: "temp_OpenFile A name flag perm t w = (r, t1, w1)" by (metis prod_cases3)
  obtain oks1 t2 w2 where rest: "open_all A cs t1 w1 = (oks1, t2, w2)" by (metis prod_cases3)
  from Cons.prems have eq: "oks = (case r of Inl _ \<Rightarrow> False | Inr _ \<Rightarrow> True) # oks1" "t' = t2" "w' = w2"
    by (simp_all add: c o rest)
  from Cons.IH [of t1 w1 oks1] rest eq have "length oks1 = length cs \<and> tempDir t' = tempDir t1 \<and>
      temp_List t' = temp_List t1 @ map fst (map fst (filter snd (zip cs oks1)))"
    by simp
  then show ?case
    using temp_OpenFile_files [OF o] by (cases r) (simp_all add: eq c temp_List_def)
qed simp

lemma temp_Close_safe:
  assumes "temp_Close RemoveAll t w = (err, w')" "w' \<noteq> w"
  shows "tempDir t \<noteq> [] \<and> tempDir t \<noteq> ''/'' \<and> w' = snd (RemoveAll (tempDir t) w)"
  using assms by (auto simp: temp_Close_def split: if_splits prod.splits)

end
