(* ===== verification/Wrappers.thy ===== *)
theory Wrappers
  imports Prelude
begin

text \<open>
  The small helpers of \<open>wrapper\<close>: strings (\<open>strings.go\<close>) and the version of the program (\<open>version.go\<close>).
  The JSON encoder and \<open>time.Parse\<close> with its printing are parameters.
\<close>

section \<open>Strings\<close>

definition stringer_String :: "(unit \<Rightarrow> string) \<Rightarrow> string" where
  "stringer_String f = f ()"

definition StringEqual :: "string \<Rightarrow> string \<Rightarrow> bool" where
  "StringEqual a b = (a = b)"

definition is_space :: "char \<Rightarrow> bool" where
  "is_space c = (c \<in> set [CHR 0x09, CHR 0x0A, CHR 0x0B, CHR 0x0C, CHR 0x0D, CHR '' ''])"

definition TrimSpace :: "string \<Rightarrow> string" where
  "TrimSpace s = rev (dropWhile is_space (rev (dropWhile is_space s)))"

text \<open>What the encoder wrote, without the space around it; nothing after an error.\<close>

definition JSONStringer :: "('v \<Rightarrow> 'e + string) \<Rightarrow> 'v \<Rightarrow> string" where
  "JSONStringer Encode v = (case Encode v of Inl _ \<Rightarrow> [] | Inr out \<Rightarrow> TrimSpace out)"

lemma JSONStringer_drops_newline:
  assumes "Encode v = Inr (s @ [CHR 0x0A])" "s \<noteq> []" "\<not> is_space (hd s)" "\<not> is_space (last s)"
  shows "JSONStringer Encode v = s"
proof -
  have "dropWhile is_space (s @ [CHR 0x0A]) = s @ [CHR 0x0A]" using assms(2,3) by (cases s) simp_all
  moreover have "dropWhile is_space (rev s) = rev s" using assms(2,4) by (cases s rule: rev_cases) simp_all
  moreover have "is_space (CHR 0x0A)" by (simp add: is_space_def)
  ultimately show ?thesis using assms(1) by (simp add: JSONStringer_def TrimSpace_def)
qed

section \<open>The version\<close>

record version =
  Version :: string
  GitCommit :: string
  BuildDate :: string
  GoVersion :: string
  Platform :: string

definition timeFormat :: "string list" where
  "timeFormat = [''2006-01-02T15:04:05Z07:00'', ''2006-01-02T15:04:05.999999999Z07:00'', ''2006-01-02 15:04:05'',
     ''Mon Jan _2 15:04:05 2006'', ''Mon Jan _2 15:04:05 MST 2006'', ''Mon Jan 02 15:04:05 -0700 2006'', ''02 Jan 06 15:04 MST'',
     ''02 Jan 06 15:04 -0700'', ''Monday, 02-Jan-06 15:04:05 MST'', ''Mon, 02 Jan 2006 15:04:05 MST'',
     ''Mon, 02 Jan 2006 15:04:05 -0700'', ''02 Jan 06 15:04 MST'', ''02 Jan 06 15:04 -0700'', ''Monday, 02-Jan-06 15:04:05 MST'',
     ''Mon, 02 Jan 2006 15:04:05 MST'', ''Mon, 02 Jan 2006 15:04:05 -0700'', ''2006-01-02T15:04:05Z0700'']"

text \<open>\<open>to_rfc3339\<close>: the text, in UTC and in the form of RFC 3339, of what \<open>time.Parse\<close> accepts with a layout.\<close>

fun normal_date :: "(string \<Rightarrow> string \<Rightarrow> string option) \<Rightarrow> string list \<Rightarrow> string \<Rightarrow> string" where
  "normal_date to_rfc3339 [] d = d"
| "normal_date to_rfc3339 (tf # tfs) d =
     (case to_rfc3339 tf d of Some d' \<Rightarrow> d' | None \<Rightarrow> normal_date to_rfc3339 tfs d)"

definition full_version :: "version \<Rightarrow> string" where
  "full_version v = Version v @ '', build '' @ GitCommit v @ ''/'' @ BuildDate v @ '' ['' @ GoVersion v @ ''/'' @ Platform v @ '']'' @ [CHR 0x0A]"

definition AddVersionFlags ::
  "(string \<Rightarrow> string \<Rightarrow> string option) \<Rightarrow> (string \<Rightarrow> string \<Rightarrow> 'a \<Rightarrow> 'a) \<Rightarrow> version \<Rightarrow> 'a \<Rightarrow> version \<times> 'a" where
  "AddVersionFlags to_rfc3339 flagFunc v a =
     (let v = v\<lparr>BuildDate := normal_date to_rfc3339 timeFormat (BuildDate v)\<rparr>
      in (v, flagFunc (Version v) (full_version v) a))"

lemma normal_date_cases:
  "normal_date p tfs d = d \<or> (\<exists>tf \<in> set tfs. p tf d = Some (normal_date p tfs d))"
  by (induction tfs) (auto split: option.splits)

text \<open>A date that is normal stays so: calling it twice changes nothing more.\<close>

lemma AddVersionFlags_idempotent:
  assumes "\<forall>d d' tf. p tf d = Some d' \<longrightarrow> p (hd timeFormat) d' = Some d'"
  shows "fst (AddVersionFlags p f (fst (AddVersionFlags p f v a)) a') = fst (AddVersionFlags p f v a)"
proof -
  have "normal_date p tfs (normal_date p tfs d) = normal_date p tfs d" if "tfs \<noteq> []" "hd tfs = hd timeFormat" for tfs d
  proof (cases "normal_date p tfs d = d")
    case False
    then obtain tf where "p tf d = Some (normal_date p tfs d)" using normal_date_cases by blast
    then have "p (hd tfs) (normal_date p tfs d) = Some (normal_date p tfs d)" using assms unfolding that(2) by blast
    then show ?thesis using that(1) by (cases tfs) simp_all
  qed simp
  moreover have "timeFormat \<noteq> []" by (simp add: timeFormat_def)
  ultimately show ?thesis by (simp add: AddVersionFlags_def Let_def del: normal_date.simps)
qed

end
