(* ===== verification/Signal_Dispatch.thy ===== *)
theory Signal_Dispatch
  imports Signals
begin

text \<open>
  How a signal becomes a stop (\<open>SetupSignalHandler\<close> in \<open>signals/signal.go\<close>, the lists in \<open>signal_posix.go\<close> and
  \<open>signal_windows.go\<close>): a channel for two signals, and a goroutine that takes one and runs \<open>safeStop\<close>. And the
  wait groups as the code keeps them, in a map that is filled at the first use of a level.
\<close>

section \<open>Wait groups in a map\<close>

type_synonym wait_groups = "nat \<Rightarrow> int option"

text \<open>\<open>getWaitGroup\<close>: \<open>LoadOrStore\<close> with a new group, and what the group counts.\<close>

definition getWaitGroup :: "nat \<Rightarrow> wait_groups \<Rightarrow> int \<times> wait_groups" where
  "getWaitGroup level m = (case m level of None \<Rightarrow> (0, m(level \<mapsto> 0)) | Some n \<Rightarrow> (n, m))"

definition wg_AddFor :: "nat \<Rightarrow> int \<Rightarrow> wait_groups \<Rightarrow> wait_groups run" where
  "wg_AddFor level delta m = (case getWaitGroup level m of
     (n, m) \<Rightarrow> if n + delta < 0 then Panic else Ret (m(level \<mapsto> n + delta)))"

definition wg_DoneFor :: "nat \<Rightarrow> wait_groups \<Rightarrow> wait_groups run" where
  "wg_DoneFor level m = wg_AddFor level (- 1) m"

text \<open>\<open>WaitFor\<close> makes the group too, and returns when it counts 0; \<open>Wait\<close> and \<open>WaitRequest\<close> are it at two levels.\<close>

definition wg_WaitFor :: "nat \<Rightarrow> wait_groups \<Rightarrow> bool \<times> wait_groups" where
  "wg_WaitFor level m = (case getWaitGroup level m of (n, m) \<Rightarrow> (n = 0, m))"

definition wg_Wait :: "wait_groups \<Rightarrow> bool \<times> wait_groups" where
  "wg_Wait m = wg_WaitFor LevelRoot m"

definition wg_WaitRequest :: "wait_groups \<Rightarrow> bool \<times> wait_groups" where
  "wg_WaitRequest m = wg_WaitFor LevelRequest m"

definition counts :: "wait_groups \<Rightarrow> nat \<Rightarrow> int" where
  "counts m level = (case m level of None \<Rightarrow> 0 | Some n \<Rightarrow> n)"

lemma counts_simps [simp]:
  "counts (m(l \<mapsto> n)) = (counts m)(l := n)" "fst (getWaitGroup l m) = counts m l" "counts (snd (getWaitGroup l m)) = counts m"
  by (auto simp: counts_def getWaitGroup_def fun_eq_iff split: option.split)

text \<open>The handler with counters that the other theories use is an abstraction of the map.\<close>

theorem wait_groups_refine:
  "map_run (\<lambda>m. h\<lparr>wg := counts m\<rparr>) (wg_AddFor l d m) = AddFor (h\<lparr>wg := counts m\<rparr>) l d \<and>
    map_run (\<lambda>m. h\<lparr>wg := counts m\<rparr>) (wg_DoneFor l m) = DoneFor (h\<lparr>wg := counts m\<rparr>) l \<and>
    fst (wg_WaitFor l m) = WaitFor_returns (h\<lparr>wg := counts m\<rparr>) l \<and> counts (snd (wg_WaitFor l m)) = counts m"
proof -
  obtain n m' where g: "getWaitGroup l m = (n, m')" by fastforce
  then have "n = counts m l" "counts m' = counts m" using counts_simps(2,3) [of l m] by auto
  with g show ?thesis
    by (simp add: wg_AddFor_def wg_DoneFor_def wg_WaitFor_def AddFor_def DoneFor_def WaitFor_returns_def)
qed

section \<open>Signals\<close>

datatype os_signal = SIGTERM | SIGQUIT | SIGINT | SIGOther nat

definition posix_shutdownSignals :: "os_signal list" where
  "posix_shutdownSignals = [SIGTERM, SIGQUIT, SIGINT]"

text \<open>\<open>os.Interrupt\<close> is \<open>SIGINT\<close>.\<close>

definition windows_shutdownSignals :: "os_signal list" where
  "windows_shutdownSignals = [SIGINT]"

text \<open>
  The process: the signals in the channel, the signal the goroutine has taken, the stop, and all the
  signals that came. \<open>signal.Notify\<close> drops a signal for which the channel has no room.
\<close>

record 'f process =
  channel :: "os_signal list"
  taken :: "os_signal option"
  stop :: "'f system"
  came :: "os_signal list"

definition setup_process :: "'f handler \<Rightarrow> 'f process" where
  "setup_process h = \<lparr>channel = [], taken = None, stop = \<lparr>hdl = h, phase = Idle, finished = []\<rparr>, came = []\<rparr>"

definition notify :: "os_signal \<Rightarrow> 'f process \<Rightarrow> 'f process" where
  "notify sg p = p\<lparr>channel := (if length (channel p) < 2 then channel p @ [sg] else channel p), came := came p @ [sg]\<rparr>"

inductive process_step :: "os_signal list \<Rightarrow> 'f process \<Rightarrow> 'f process \<Rightarrow> bool" for shutdownSignals where
  signal: "sg \<in> set shutdownSignals \<Longrightarrow> process_step shutdownSignals p (notify sg p)"
| receive: "taken p = None \<Longrightarrow> channel p = sg # rest \<Longrightarrow> process_step shutdownSignals p (p\<lparr>channel := rest, taken := Some sg\<rparr>)"
| stopping: "taken p \<noteq> None \<Longrightarrow> stop_step (stop p) s \<Longrightarrow> process_step shutdownSignals p (p\<lparr>stop := s\<rparr>)"
| working: "stop_step (stop p) s \<Longrightarrow> phase (stop p) = Idle \<Longrightarrow> phase s = Idle \<Longrightarrow> process_step shutdownSignals p (p\<lparr>stop := s\<rparr>)"

definition process_inv :: "'f handler \<Rightarrow> 'f process \<Rightarrow> bool" where
  "process_inv h p \<longleftrightarrow> reachable h (stop p) \<and> length (channel p) \<le> 2 \<and>
     (case taken p of
        None \<Rightarrow> phase (stop p) = Idle \<and> channel p = take 2 (came p)
      | Some sg \<Rightarrow> came p \<noteq> [] \<and> sg = hd (came p))"

lemma process_inv_step: "process_step sigs p q \<Longrightarrow> process_inv h p \<Longrightarrow> process_inv h q"
proof (induction rule: process_step.induct)
  case (signal sg p)
  show ?case
  proof (cases "taken p")
    case None
    have "take 2 (came p @ [sg]) = (if length (take 2 (came p)) < 2 then take 2 (came p) @ [sg] else take 2 (came p))"
      by (auto simp: min_def)
    with signal None show ?thesis by (auto simp: process_inv_def notify_def)
  qed (use signal in \<open>auto simp: process_inv_def notify_def\<close>)
next
  case (receive p sg rest)
  then have "sg # rest = take 2 (came p)" "length rest \<le> 2" by (auto simp: process_inv_def)
  then have "came p \<noteq> [] \<and> sg = hd (came p)" by (cases "came p") auto
  with receive show ?case by (auto simp: process_inv_def)
qed (auto simp: process_inv_def intro: reachable.step split: option.splits)

lemma process_inv_reach:
  assumes "(process_step sigs)\<^sup>*\<^sup>* (setup_process h) p"
  shows "process_inv h p"
  using assms
proof (induction rule: rtranclp_induct)
  case base
  show ?case by (simp add: process_inv_def setup_process_def reachable.init)
qed (rule process_inv_step)



end
