(* ===== verification/Struct_Json.thy ===== *)
theory Struct_Json
  imports Safe_String
begin

text \<open>
  How \<open>encoding/json\<close> writes and reads the structs of options: the fields in their order under the names
  of their tags, \<open>omitempty\<close>, and the reading of an object into a struct that may already hold values. A
  JSON text stands for its value, with the members of an object in their order. The library puts valid
  UTF-8 in the place of a string (\<open>coerce\<close>); the text of a \<open>model.Duration\<close> is that of its package.
\<close>

datatype json = JNull | JBool bool | JNum int | JStr string | JArr "json list" | JObj "(string \<times> json) list"

datatype 'x json_error = WrongType json | SealFailed crypt_error | BadText 'x

record 'x json_codec =
  coerce :: "string \<Rightarrow> string"
  dur_text :: "int \<Rightarrow> string"
  dur_parse :: "string \<Rightarrow> 'x + int"

text \<open>
  A field: the name of its tag, whether it is left out, how it is written, and how a value is read into
  the struct; \<open>'s\<close> is the state that a method of a field may change.
\<close>

record ('r, 's, 'x) field =
  f_name :: string
  f_empty :: "'r \<Rightarrow> bool"
  f_put :: "'r \<Rightarrow> ('x json_error + json) run"
  f_get :: "json \<Rightarrow> 'r \<times> 's \<Rightarrow> ('x json_error option \<times> 'r \<times> 's) run"

section \<open>Structs\<close>

fun marshal_members :: "('r, 's, 'x) field list \<Rightarrow> 'r \<Rightarrow> ('x json_error + (string \<times> json) list) run" where
  "marshal_members [] r = Ret (Inr [])"
| "marshal_members (f # fs) r =
     (if f_empty f r then marshal_members fs r
      else bind_run (f_put f r) (\<lambda>v. case v of
        Inl err \<Rightarrow> Ret (Inl err)
      | Inr j \<Rightarrow> map_run (map_sum id (Cons (f_name f, j))) (marshal_members fs r)))"

definition marshal_struct :: "('r, 's, 'x) field list \<Rightarrow> 'r \<Rightarrow> ('x json_error + json) run" where
  "marshal_struct fs r = map_run (map_sum id JObj) (marshal_members fs r)"

text \<open>Only what the fields write matters, so the state that reading threads can be another.\<close>

lemma marshal_struct_cong:
  assumes "list_all2 (\<lambda>f g. f_name f = f_name g \<and> f_empty f r = f_empty g r \<and> f_put f r = f_put g r) fs gs"
  shows "marshal_struct fs r = marshal_struct gs r"
proof -
  from assms have "marshal_members fs r = marshal_members gs r" by (induction rule: list_all2_induct) simp_all
  then show ?thesis by (simp add: marshal_struct_def)
qed

lemma marshal_struct_object:
  fixes fs :: "('r, 's, 'x) field list"
  assumes "marshal_struct fs r = Ret (Inr j)"
  shows "\<exists>kvs. j = JObj kvs"
proof -
  from assms obtain x :: "'x json_error + (string \<times> json) list" where "map_sum id JObj x = Inr j"
    by (auto simp: marshal_struct_def map_run_def bind_run_Ret_conv)
  then show ?thesis by (cases x) auto
qed

lemma marshal_members_Cons:
  assumes "marshal_members (f # fs) r = Ret (Inr kvs)" "\<not> f_empty f r"
  shows "\<exists>j kvs'. f_put f r = Ret (Inr j) \<and> marshal_members fs r = Ret (Inr kvs') \<and> kvs = (f_name f, j) # kvs'"
proof (cases "f_put f r")
  case (Ret v)
  then show ?thesis
  proof (cases v)
    case (Inr j)
    then show ?thesis
    proof (cases "marshal_members fs r")
      case (Ret w)
      with \<open>f_put f r = Ret v\<close> Inr assms show ?thesis by (cases w) auto
    qed (use assms Ret in simp)
  qed (use assms in simp)
qed (use assms in simp)

lemma marshal_members_names:
  "marshal_members fs r = Ret (Inr kvs) \<Longrightarrow> set (map fst kvs) \<subseteq> set (map f_name fs)"
proof (induction fs arbitrary: kvs)
  case (Cons f fs)
  show ?case
  proof (cases "f_empty f r")
    case False
    from marshal_members_Cons [OF Cons.prems this] obtain j kvs' where
      k: "marshal_members fs r = Ret (Inr kvs')" "kvs = (f_name f, j) # kvs'" by blast
    show ?thesis using Cons.IH [OF k(1)] k(2) by auto
  next
    case True
    then have "marshal_members fs r = Ret (Inr kvs)" using Cons.prems by simp
    from Cons.IH [OF this] show ?thesis by auto
  qed
qed simp

lemma marshal_members_total:
  "\<forall>f \<in> set fs. \<exists>j. f_put f r = Ret (Inr j) \<Longrightarrow> \<exists>kvs. marshal_members fs r = Ret (Inr kvs)"
  by (induction fs) auto

lemma marshal_members_error:
  assumes "\<forall>f \<in> set fs. \<exists>j. f_put f r = Ret (Inr j)" "\<not> f_empty f r" "f_put f r = Ret (Inl err)"
  shows "marshal_members (fs @ f # gs) r = Ret (Inl err)"
  using assms by (induction fs) auto

text \<open>The member that is written for a field, if one is.\<close>

definition member_of :: "('r, 's, 'x) field \<Rightarrow> 'r \<Rightarrow> json option" where
  "member_of f r = (if f_empty f r then None else case f_put f r of Ret (Inr j) \<Rightarrow> Some j | _ \<Rightarrow> None)"

lemma members_lookup:
  assumes "distinct (map f_name fs)" "marshal_members fs r = Ret (Inr kvs)" "f \<in> set fs"
  shows "map_of kvs (f_name f) = member_of f r"
  using assms
proof (induction fs arbitrary: kvs)
  case (Cons g fs)
  show ?case
  proof (cases "f_empty g r")
    case True
    show ?thesis
    proof (cases "f = g")
      case True
      have "f_name g \<notin> set (map fst kvs)" using marshal_members_names [of fs r kvs] Cons.prems \<open>f_empty g r\<close> by auto
      then have "map_of kvs (f_name g) = None" by (simp add: map_of_eq_None_iff)
      with True \<open>f_empty g r\<close> show ?thesis by (simp add: member_of_def)
    qed (use Cons True in simp)
  next
    case False
    from marshal_members_Cons [OF Cons.prems(2) this] obtain j kvs' where "f_put g r = Ret (Inr j)"
      "marshal_members fs r = Ret (Inr kvs')" "kvs = (f_name g, j) # kvs'" by blast
    then show ?thesis using Cons False by (auto simp: member_of_def image_iff)
  qed
qed simp

text \<open>A member goes to the field with its name, or else to one with its name up to case.\<close>

definition find_field :: "('r, 's, 'x) field list \<Rightarrow> string \<Rightarrow> ('r, 's, 'x) field option" where
  "find_field fs k = (case find (\<lambda>f. f_name f = k) fs of
     Some f \<Rightarrow> Some f
   | None \<Rightarrow> find (\<lambda>f. to_lower (f_name f) = to_lower k) fs)"

text \<open>An error does not stop the reading; the first one is the result.\<close>

fun unmarshal_members ::
  "('r, 's, 'x) field list \<Rightarrow> (string \<times> json) list \<Rightarrow> 'r \<times> 's \<Rightarrow> ('x json_error option \<times> 'r \<times> 's) run" where
  "unmarshal_members fs [] rs = Ret (None, rs)"
| "unmarshal_members fs ((k, j) # kvs) rs = (case find_field fs k of
     None \<Rightarrow> unmarshal_members fs kvs rs
   | Some f \<Rightarrow> bind_run (f_get f j rs) (\<lambda>(err, rs).
       map_run (\<lambda>(err2, rs). (if err = None then err2 else err, rs)) (unmarshal_members fs kvs rs)))"

definition unmarshal_struct ::
  "('r, 's, 'x) field list \<Rightarrow> json \<Rightarrow> 'r \<times> 's \<Rightarrow> ('x json_error option \<times> 'r \<times> 's) run" where
  "unmarshal_struct fs j rs = (case j of
     JObj kvs \<Rightarrow> unmarshal_members fs kvs rs
   | JNull \<Rightarrow> Ret (None, rs)
   | _ \<Rightarrow> Ret (Some (WrongType j), rs))"

section \<open>Kinds of fields\<close>

definition value_field ::
  "string \<Rightarrow> ('r \<Rightarrow> bool) \<Rightarrow> ('r \<Rightarrow> json) \<Rightarrow> (json \<Rightarrow> ('x json_error + ('r \<Rightarrow> 'r)) option) \<Rightarrow> ('r, 's, 'x) field" where
  "value_field name omit put get = \<lparr>f_name = name, f_empty = omit, f_put = (\<lambda>r. Ret (Inr (put r))),
     f_get = (\<lambda>j (r, s). Ret (case get j of
       None \<Rightarrow> (None, r, s)
     | Some (Inl err) \<Rightarrow> (Some err, r, s)
     | Some (Inr upd) \<Rightarrow> (None, upd r, s)))\<rparr>"

text \<open>Strings, numbers of a width, and booleans with \<open>omitempty\<close>; \<open>null\<close> changes nothing.\<close>

definition str_field :: "'x json_codec \<Rightarrow> string \<Rightarrow> ('r \<Rightarrow> string) \<Rightarrow> ((string \<Rightarrow> string) \<Rightarrow> 'r \<Rightarrow> 'r) \<Rightarrow> ('r, 's, 'x) field" where
  "str_field cd name get upd = value_field name (\<lambda>r. get r = []) (\<lambda>r. JStr (coerce cd (get r)))
     (\<lambda>j. case j of JStr v \<Rightarrow> Some (Inr (upd (\<lambda>_. v))) | JNull \<Rightarrow> None | _ \<Rightarrow> Some (Inl (WrongType j)))"

definition int_fits :: "nat \<Rightarrow> int \<Rightarrow> bool" where
  "int_fits w n \<longleftrightarrow> - (2 ^ (w - 1)) \<le> n \<and> n < 2 ^ (w - 1)"

definition int_field :: "nat \<Rightarrow> string \<Rightarrow> ('r \<Rightarrow> int) \<Rightarrow> ((int \<Rightarrow> int) \<Rightarrow> 'r \<Rightarrow> 'r) \<Rightarrow> ('r, 's, 'x) field" where
  "int_field w name get upd = value_field name (\<lambda>r. get r = 0) (\<lambda>r. JNum (get r))
     (\<lambda>j. case j of JNum n \<Rightarrow> Some (if int_fits w n then Inr (upd (\<lambda>_. n)) else Inl (WrongType j))
        | JNull \<Rightarrow> None | _ \<Rightarrow> Some (Inl (WrongType j)))"

definition bool_field :: "string \<Rightarrow> ('r \<Rightarrow> bool) \<Rightarrow> ((bool \<Rightarrow> bool) \<Rightarrow> 'r \<Rightarrow> 'r) \<Rightarrow> ('r, 's, 'x) field" where
  "bool_field name get upd = value_field name (\<lambda>r. \<not> get r) (\<lambda>r. JBool (get r))
     (\<lambda>j. case j of JBool b \<Rightarrow> Some (Inr (upd (\<lambda>_. b))) | JNull \<Rightarrow> None | _ \<Rightarrow> Some (Inl (WrongType j)))"

text \<open>A pointer to a duration: \<open>null\<close> makes it nil, and a text that is no duration leaves one that was nil at 0.\<close>

definition dur_field ::
  "'x json_codec \<Rightarrow> string \<Rightarrow> ('r \<Rightarrow> int option) \<Rightarrow> ((int option \<Rightarrow> int option) \<Rightarrow> 'r \<Rightarrow> 'r) \<Rightarrow> ('r, 's, 'x) field" where
  "dur_field cd name get upd = \<lparr>f_name = name, f_empty = (\<lambda>r. get r = None),
     f_put = (\<lambda>r. Ret (Inr (case get r of None \<Rightarrow> JNull | Some d \<Rightarrow> JStr (dur_text cd d)))),
     f_get = (\<lambda>j (r, s). Ret (case j of
       JNull \<Rightarrow> (None, upd (\<lambda>_. None) r, s)
     | JStr t \<Rightarrow> (case dur_parse cd t of
           Inr d \<Rightarrow> (None, upd (\<lambda>_. Some d) r, s)
         | Inl err \<Rightarrow> (Some (BadText err), upd (\<lambda>old. case old of None \<Rightarrow> Some 0 | Some d \<Rightarrow> Some d) r, s))
     | _ \<Rightarrow> (Some (WrongType j), upd (\<lambda>old. case old of None \<Rightarrow> Some 0 | Some d \<Rightarrow> Some d) r, s)))\<rparr>"

text \<open>
  A \<open>safe.String\<close>, a struct, is never left out. Its \<open>UnmarshalJSON\<close> also gets a \<open>null\<close>, which leaves its value
  as it is before it is sealed.
\<close>

definition secret_field ::
  "'x json_codec \<Rightarrow> crypto \<Rightarrow> string \<Rightarrow> ('r \<Rightarrow> safe_string) \<Rightarrow> ((safe_string \<Rightarrow> safe_string) \<Rightarrow> 'r \<Rightarrow> 'r) \<Rightarrow> ('r, 's, 'x) field" where
  "secret_field cd cx name get upd = \<lparr>f_name = name, f_empty = (\<lambda>r. False),
     f_put = (\<lambda>r. map_run Inr (str_MarshalJSON (\<lambda>t. JStr (coerce cd t)) cx (get r))),
     f_get = (\<lambda>j (r, s).
       map_run (\<lambda>(err, e). (map_option (\<lambda>x. case x of Inl err \<Rightarrow> err | Inr err \<Rightarrow> SealFailed err) err, upd (\<lambda>_. e) r, s))
         (str_UnmarshalJSON cx (get r) (case j of JStr t \<Rightarrow> Inr t | JNull \<Rightarrow> Inr (val_of (get r)) | _ \<Rightarrow> Inl (WrongType j))))\<rparr>"

lemmas field_defs = value_field_def str_field_def int_field_def bool_field_def dur_field_def secret_field_def

section \<open>Reading back\<close>

text \<open>
  Read into a fresh struct, what the field writes for \<open>r\<close> has the effect \<open>g\<close>, and a field left out has
  none; the struct stays fresh.
\<close>

definition reads_back ::
  "('r \<Rightarrow> bool) \<Rightarrow> 'r \<Rightarrow> ('r, 's, 'x) field \<Rightarrow> ('r \<Rightarrow> 'r) \<Rightarrow> bool" where
  "reads_back fresh r f g \<longleftrightarrow> (\<forall>r0. fresh r0 \<longrightarrow> fresh (g r0)) \<and>
     (if f_empty f r then \<forall>r0. g r0 = r0
      else \<exists>j. f_put f r = Ret (Inr j) \<and> (\<forall>r0 s. fresh r0 \<longrightarrow> f_get f j (r0, s) = Ret (None, g r0, s)))"

lemma find_field_name:
  assumes "distinct (map f_name fs)" "f \<in> set fs"
  shows "find_field fs (f_name f) = Some f"
proof -
  have "find (\<lambda>g. f_name g = f_name f) fs = Some f"
    using assms by (induction fs) (auto simp: image_iff)
  then show ?thesis by (simp add: find_field_def)
qed

lemma members_read_back:
  assumes "distinct (map f_name all)" "set fs \<subseteq> set all" "list_all2 (reads_back fresh r) fs gs"
  shows "\<exists>kvs. marshal_members fs r = Ret (Inr kvs) \<and>
    (\<forall>r0 s. fresh r0 \<longrightarrow> unmarshal_members all kvs (r0, s) = Ret (None, fold (\<lambda>g. g) gs r0, s)) \<and>
    map fst kvs = map f_name (filter (\<lambda>f. \<not> f_empty f r) fs)"
  using assms(3,2)
proof (induction fs gs rule: list_all2_induct)
  case (Cons f fs g gs)
  then obtain kvs where kvs: "marshal_members fs r = Ret (Inr kvs)"
    "\<And>r0 s. fresh r0 \<Longrightarrow> unmarshal_members all kvs (r0, s) = Ret (None, fold (\<lambda>g. g) gs r0, s)"
    "map fst kvs = map f_name (filter (\<lambda>f. \<not> f_empty f r) fs)" by auto
  show ?case
  proof (cases "f_empty f r")
    case True
    with kvs Cons(1) show ?thesis by (simp add: reads_back_def)
  next
    case False
    with Cons(1) obtain j where j: "f_put f r = Ret (Inr j)"
      "\<And>r0 s. fresh r0 \<Longrightarrow> f_get f j (r0, s) = Ret (None, g r0, s)" "\<And>r0. fresh r0 \<Longrightarrow> fresh (g r0)"
      by (auto simp: reads_back_def)
    have "find_field all (f_name f) = Some f" using assms(1) Cons.prems by (intro find_field_name) auto
    with False j kvs show ?thesis by (intro exI [of _ "(f_name f, j) # kvs"]) simp
  qed
qed simp

text \<open>
  The options of a client: their fields have different names, and what is written for good options
  fills a fresh struct in the way of \<open>fill\<close>.
\<close>

locale struct_codec =
  fixes fields :: "('r, 's, 'x) field list" and good :: "'r \<Rightarrow> bool" and fresh :: "'r \<Rightarrow> bool" and fill :: "'r \<Rightarrow> 'r \<Rightarrow> 'r"
  assumes names: "distinct (map f_name fields)"
    and fills: "good r \<Longrightarrow> \<exists>gs. list_all2 (reads_back fresh r) fields gs \<and> fold (\<lambda>g. g) gs = fill r"
begin

lemma struct_roundtrip:
  assumes "good r"
  shows "\<exists>kvs. marshal_struct fields r = Ret (Inr (JObj kvs)) \<and>
    (\<forall>r0 s. fresh r0 \<longrightarrow> unmarshal_struct fields (JObj kvs) (r0, s) = Ret (None, fill r r0, s)) \<and>
    map fst kvs = map f_name (filter (\<lambda>f. \<not> f_empty f r) fields)"
proof -
  obtain gs where gs: "list_all2 (reads_back fresh r) fields gs" "fold (\<lambda>g. g) gs = fill r"
    using fills [OF assms] by blast
  from members_read_back [OF names subset_refl gs(1)] gs(2) show ?thesis
    by (auto simp: marshal_struct_def unmarshal_struct_def)
qed

lemma written_and_read:
  assumes "good r"
  shows "\<exists>j. marshal_struct fields r = Ret (Inr j) \<and>
    (\<forall>r0 s. fresh r0 \<longrightarrow> unmarshal_struct fields j (r0, s) = Ret (None, fill r r0, s))"
  using struct_roundtrip [OF assms] by blast

lemma filled:
  assumes "good r" "fresh r0"
  shows "\<exists>j. marshal_struct fields r = Ret (Inr j) \<and> (\<forall>s. unmarshal_struct fields j (r0, s) = Ret (None, fill r r0, s))"
  using struct_roundtrip [OF assms(1)] assms(2) by blast

end

text \<open>The laws of the kinds of fields, to be applied one field at a time.\<close>

named_theorems read_back

lemma str_field_reads [read_back]:
  assumes "coerce cd (get r) = get r" "\<And>h r0. fresh r0 \<Longrightarrow> fresh (upd h r0)" "\<And>r0. upd (\<lambda>old. old) r0 = r0"
  shows "reads_back fresh r (str_field cd name get upd) (upd (\<lambda>old. if get r = [] then old else get r))"
  using assms by (simp add: reads_back_def field_defs)

lemma int_field_reads [read_back]:
  assumes "int_fits w (get r)" "\<And>h r0. fresh r0 \<Longrightarrow> fresh (upd h r0)" "\<And>r0. upd (\<lambda>old. old) r0 = r0"
  shows "reads_back fresh r (int_field w name get upd) (upd (\<lambda>old. if get r = 0 then old else get r))"
  using assms by (simp add: reads_back_def field_defs)

lemma bool_field_reads [read_back]:
  assumes "\<And>h r0. fresh r0 \<Longrightarrow> fresh (upd h r0)" "\<And>r0. upd (\<lambda>old. old) r0 = r0"
  shows "reads_back fresh r (bool_field name get upd) (upd (\<lambda>old. get r \<or> old))"
proof -
  have "(\<lambda>old. get r \<or> old) = (if get r then (\<lambda>_. True) else (\<lambda>old. old))" by auto
  then show ?thesis using assms by (simp add: reads_back_def field_defs)
qed

definition dur_ok :: "'x json_codec \<Rightarrow> int option \<Rightarrow> bool" where
  "dur_ok cd d \<longleftrightarrow> (\<forall>t. d = Some t \<longrightarrow> dur_parse cd (dur_text cd t) = Inr t)"

lemma dur_field_reads [read_back]:
  assumes "dur_ok cd (get r)" "\<And>h r0. fresh r0 \<Longrightarrow> fresh (upd h r0)" "\<And>r0. upd (\<lambda>old. old) r0 = r0"
  shows "reads_back fresh r (dur_field cd name get upd) (upd (\<lambda>old. if get r = None then old else get r))"
  using assms by (auto simp: reads_back_def field_defs dur_ok_def split: option.splits)

text \<open>
  A secret is kept sealed, or there is no key to seal it with: then the text it is kept as is what is
  written, and a string without a key of its own reads it as it is.
\<close>

definition kept :: "'x json_codec \<Rightarrow> crypto \<Rightarrow> safe_string \<Rightarrow> bool" where
  "kept cd cx e \<longleftrightarrow> (encrypted (val_of e) \<or> env_secret cx = []) \<and> secret_of e \<in> {[], env_secret cx} \<and>
     coerce cd (val_of e) = val_of e"

lemma kept_String: "kept cd cx e \<Longrightarrow> str_String cx e = Ret (val_of e, e)"
  by (auto simp: kept_def str_String_def getSecret_def)

lemma kept_read:
  "kept cd cx p \<Longrightarrow> secret_of e = [] \<Longrightarrow> str_UnmarshalJSON cx e (Inr (val_of p)) = Ret (None, e\<lparr>val_of := val_of p\<rparr>)"
  by (auto simp: str_UnmarshalJSON_def seal_value_def kept_def getSecret_def)

lemma secret_field_reads [read_back]:
  assumes "kept cd cx (get r)" "\<And>r0. fresh r0 \<Longrightarrow> secret_of (get r0) = []"
    "\<And>r0 v. fresh r0 \<Longrightarrow> fresh (upd (\<lambda>e. e\<lparr>val_of := v\<rparr>) r0)"
    "\<And>r0 h. upd h r0 = upd (\<lambda>_. h (get r0)) r0"
  shows "reads_back fresh r (secret_field cd cx name get upd) (upd (\<lambda>e. e\<lparr>val_of := val_of (get r)\<rparr>))"
proof -
  have "upd (\<lambda>_. (get r0)\<lparr>val_of := val_of (get r)\<rparr>) r0 = upd (\<lambda>e. e\<lparr>val_of := val_of (get r)\<rparr>) r0" for r0
    using assms(4) [of "\<lambda>e. e\<lparr>val_of := val_of (get r)\<rparr>" r0] by simp
  then show ?thesis
    using assms(1-3)
    by (simp add: kept_String [OF assms(1)] kept_read [OF assms(1)] reads_back_def field_defs str_MarshalJSON_def kept_def)
qed

lemma kept_Unsafe:
  assumes "kept cd cx e" "secret_of e0 = []"
  shows "UnsafeString cx (e0\<lparr>val_of := val_of e\<rparr>) = UnsafeString cx e"
  using assms by (auto simp: kept_def UnsafeString_def getSecret_def)

text \<open>A codec for examples: every string is valid, and there are no durations.\<close>

definition plain_codec :: "unit json_codec" where
  "plain_codec = \<lparr>coerce = id, dur_text = (\<lambda>_. []), dur_parse = (\<lambda>_. Inl ())\<rparr>"

end
