(* ===== verification/Options_Json.thy ===== *)
theory Options_Json
  imports Gorm_Client Struct_Json
begin

text \<open>
  The database clients in JSON (\<open>MarshalJSON\<close> and \<open>UnmarshalJSON\<close> in \<open>clients/gorm\<close>): a client is written as
  its options, and read by filling options and opening a client with them. A field that has the zero
  value is left out, and reading leaves the default in its place.
\<close>

section \<open>The fields of the options\<close>

text \<open>
  The TLS options of MySQL have methods of their own: \<open>json_value\<close> is how the library reads the text that
  \<open>MarshalJSON\<close> returned, and \<open>json_text\<close> the text of a member that is given to \<open>UnmarshalJSON\<close>.
\<close>

record ('x, 'p, 'c, 'te, 'w) tls_codec =
  marshal_tls :: "tls_options \<Rightarrow> 'x json_error + string"
  json_value :: "string \<Rightarrow> 'x + json"
  json_text :: "json \<Rightarrow> string"
  tls_env :: "('x json_error, 'p, 'c, 'te, 'w) tls_env"

definition tls_field :: "('x, 'p, 'c, 'te, 'w) tls_codec \<Rightarrow> (mysql_options, 'w, 'x) field" where
  "tls_field tc = \<lparr>f_name = ''tls_config'', f_empty = (\<lambda>r. False),
     f_put = (\<lambda>r. Ret (case mTLSConfig r of
       None \<Rightarrow> Inr JNull
     | Some t \<Rightarrow> (case gtls_MarshalJSON (marshal_tls tc) t of
         Inl err \<Rightarrow> Inl err
       | Inr text \<Rightarrow> map_sum BadText id (json_value tc text)))),
     f_get = (\<lambda>j (r, w). Ret (if j = JNull then (None, r\<lparr>mTLSConfig := None\<rparr>, w)
       else let t = (case mTLSConfig r of None \<Rightarrow> \<lparr>tls_opts = None, tls_name = []\<rparr> | Some t \<Rightarrow> t)
            in (case gtls_UnmarshalJSON (tls_env tc) (json_text tc j) t w of
                  (err, t, w) \<Rightarrow> (err, r\<lparr>mTLSConfig := Some t\<rparr>, w))))\<rparr>"

definition mysql_fields :: "'x json_codec \<Rightarrow> crypto \<Rightarrow> ('x, 'p, 'c, 'te, 'w) tls_codec \<Rightarrow> (mysql_options, 'w, 'x) field list" where
  "mysql_fields cd cx tc =
    [str_field cd ''host'' mHost mHost_update,
     str_field cd ''username'' mUsername mUsername_update,
     secret_field cd cx ''password'' mPassword mPassword_update,
     str_field cd ''schema'' mSchema mSchema_update,
     int_field 32 ''max_idle_connections'' mMaxIdle mMaxIdle_update,
     int_field 32 ''max_open_connections'' mMaxOpen mMaxOpen_update,
     dur_field cd ''max_connection_life_time'' mMaxLifeTime mMaxLifeTime_update,
     str_field cd ''charset'' mCharset mCharset_update,
     str_field cd ''collation'' mCollation mCollation_update,
     str_field cd ''table_prefix'' mTablePrefix mTablePrefix_update,
     dur_field cd ''slow_threshold'' mSlowThreshold mSlowThreshold_update,
     tls_field tc,
     bool_field ''enable_compression'' mCompression mCompression_update]"

definition clickhouse_fields :: "'x json_codec \<Rightarrow> crypto \<Rightarrow> (clickhouse_options, 'w, 'x) field list" where
  "clickhouse_fields cd cx =
    [str_field cd ''host'' cHost cHost_update,
     str_field cd ''username'' cUsername cUsername_update,
     secret_field cd cx ''password'' cPassword cPassword_update,
     str_field cd ''schema'' cSchema cSchema_update,
     int_field 32 ''max_idle_connections'' cMaxIdle cMaxIdle_update,
     int_field 32 ''max_open_connections'' cMaxOpen cMaxOpen_update,
     dur_field cd ''max_connection_life_time'' cMaxLifeTime cMaxLifeTime_update,
     str_field cd ''table_prefix'' cTablePrefix cTablePrefix_update,
     dur_field cd ''slow_threshold'' cSlowThreshold cSlowThreshold_update,
     dur_field cd ''dial_timeout'' cDialTimeout cDialTimeout_update,
     dur_field cd ''read_timeout'' cReadTimeout cReadTimeout_update,
     dur_field cd ''max_execution_time'' cMaxExecutionTime cMaxExecutionTime_update]"

text \<open>The protobuf duration of SQLite is a struct of seconds and nanoseconds.\<close>

definition seconds_fields :: "(int \<times> int, 'w, 'x) field list" where
  "seconds_fields = [int_field 64 ''seconds'' fst (\<lambda>h (a, b). (h a, b)), int_field 32 ''nanos'' snd (\<lambda>h (a, b). (a, h b))]"

definition threshold_field :: "(sqlite_options, 'w, 'x) field" where
  "threshold_field = \<lparr>f_name = ''slow_threshold'', f_empty = (\<lambda>r. sSlowThreshold r = None),
     f_put = (\<lambda>r. case sSlowThreshold r of
       None \<Rightarrow> Ret (Inr JNull)
     | Some d \<Rightarrow> marshal_struct (seconds_fields :: (int \<times> int, 'w, 'x) field list) d),
     f_get = (\<lambda>j (r, w). if j = JNull then Ret (None, r\<lparr>sSlowThreshold := None\<rparr>, w)
       else map_run (\<lambda>(err, d, w). (err, r\<lparr>sSlowThreshold := Some d\<rparr>, w))
         (unmarshal_struct seconds_fields j (case sSlowThreshold r of None \<Rightarrow> (0, 0) | Some d \<Rightarrow> d, w)))\<rparr>"

definition sqlite_fields :: "'x json_codec \<Rightarrow> (sqlite_options, 'w, 'x) field list" where
  "sqlite_fields cd =
    [str_field cd ''path'' sPath sPath_update,
     str_field cd ''table_prefix'' sTablePrefix sTablePrefix_update,
     threshold_field]"

section \<open>Filling options\<close>

abbreviation nonempty :: "'a list \<Rightarrow> 'a list \<Rightarrow> 'a list" where
  "nonempty a b \<equiv> if a = [] then b else a"

abbreviation nonzero :: "int \<Rightarrow> int \<Rightarrow> int" where
  "nonzero a b \<equiv> if a = 0 then b else a"

abbreviation nonnil :: "'a option \<Rightarrow> 'a option \<Rightarrow> 'a option" where
  "nonnil a b \<equiv> if a = None then b else a"

definition mysql_fill :: "mysql_options \<Rightarrow> mysql_options \<Rightarrow> mysql_options" where
  "mysql_fill r r0 = \<lparr>mHost = nonempty (mHost r) (mHost r0), mUsername = nonempty (mUsername r) (mUsername r0),
     mPassword = (mPassword r0)\<lparr>val_of := val_of (mPassword r)\<rparr>, mSchema = nonempty (mSchema r) (mSchema r0),
     mMaxIdle = nonzero (mMaxIdle r) (mMaxIdle r0), mMaxOpen = nonzero (mMaxOpen r) (mMaxOpen r0),
     mMaxLifeTime = nonnil (mMaxLifeTime r) (mMaxLifeTime r0), mCharset = nonempty (mCharset r) (mCharset r0),
     mCollation = nonempty (mCollation r) (mCollation r0), mTablePrefix = nonempty (mTablePrefix r) (mTablePrefix r0),
     mSlowThreshold = nonnil (mSlowThreshold r) (mSlowThreshold r0), mTLSConfig = None,
     mCompression = (mCompression r \<or> mCompression r0)\<rparr>"

definition clickhouse_fill :: "clickhouse_options \<Rightarrow> clickhouse_options \<Rightarrow> clickhouse_options" where
  "clickhouse_fill r r0 = \<lparr>cHost = nonempty (cHost r) (cHost r0), cUsername = nonempty (cUsername r) (cUsername r0),
     cPassword = (cPassword r0)\<lparr>val_of := val_of (cPassword r)\<rparr>, cSchema = nonempty (cSchema r) (cSchema r0),
     cMaxIdle = nonzero (cMaxIdle r) (cMaxIdle r0), cMaxOpen = nonzero (cMaxOpen r) (cMaxOpen r0),
     cMaxLifeTime = nonnil (cMaxLifeTime r) (cMaxLifeTime r0), cTablePrefix = nonempty (cTablePrefix r) (cTablePrefix r0),
     cSlowThreshold = nonnil (cSlowThreshold r) (cSlowThreshold r0), cDialTimeout = nonnil (cDialTimeout r) (cDialTimeout r0),
     cReadTimeout = nonnil (cReadTimeout r) (cReadTimeout r0), cMaxExecutionTime = nonnil (cMaxExecutionTime r) (cMaxExecutionTime r0)\<rparr>"

definition seconds_fill :: "int \<times> int \<Rightarrow> int \<times> int \<Rightarrow> int \<times> int" where
  "seconds_fill d d0 = (nonzero (fst d) (fst d0), nonzero (snd d) (snd d0))"

definition threshold_fill :: "(int \<times> int) option \<Rightarrow> (int \<times> int) option \<Rightarrow> (int \<times> int) option" where
  "threshold_fill d d0 = (case d of
     None \<Rightarrow> d0
   | Some d \<Rightarrow> Some (seconds_fill d (case d0 of None \<Rightarrow> (0, 0) | Some d0 \<Rightarrow> d0)))"

definition sqlite_fill :: "sqlite_options \<Rightarrow> sqlite_options \<Rightarrow> sqlite_options" where
  "sqlite_fill r r0 = \<lparr>sPath = nonempty (sPath r) (sPath r0), sTablePrefix = nonempty (sTablePrefix r) (sTablePrefix r0),
     sSlowThreshold = threshold_fill (sSlowThreshold r) (sSlowThreshold r0)\<rparr>"

text \<open>What can be written without loss: valid UTF-8, numbers of 32 bits, durations the package reads back, and a kept secret.\<close>

definition mysql_good :: "'x json_codec \<Rightarrow> crypto \<Rightarrow> mysql_options \<Rightarrow> bool" where
  "mysql_good cd cx r \<longleftrightarrow> kept cd cx (mPassword r) \<and> mTLSConfig r = None \<and>
     (\<forall>x \<in> {mHost r, mUsername r, mSchema r, mCharset r, mCollation r, mTablePrefix r}. coerce cd x = x) \<and>
     int_fits 32 (mMaxIdle r) \<and> int_fits 32 (mMaxOpen r) \<and> dur_ok cd (mMaxLifeTime r) \<and> dur_ok cd (mSlowThreshold r)"

definition clickhouse_good :: "'x json_codec \<Rightarrow> crypto \<Rightarrow> clickhouse_options \<Rightarrow> bool" where
  "clickhouse_good cd cx r \<longleftrightarrow> kept cd cx (cPassword r) \<and>
     (\<forall>x \<in> {cHost r, cUsername r, cSchema r, cTablePrefix r}. coerce cd x = x) \<and>
     int_fits 32 (cMaxIdle r) \<and> int_fits 32 (cMaxOpen r) \<and>
     (\<forall>d \<in> {cMaxLifeTime r, cSlowThreshold r, cDialTimeout r, cReadTimeout r, cMaxExecutionTime r}. dur_ok cd d)"

definition sqlite_good :: "'x json_codec \<Rightarrow> sqlite_options \<Rightarrow> bool" where
  "sqlite_good cd r \<longleftrightarrow> coerce cd (sPath r) = sPath r \<and> coerce cd (sTablePrefix r) = sTablePrefix r \<and>
     (\<forall>d. sSlowThreshold r = Some d \<longrightarrow> int_fits 64 (fst d) \<and> int_fits 32 (snd d))"

abbreviation no_own_key :: "('r \<Rightarrow> safe_string) \<Rightarrow> 'r \<Rightarrow> bool" where
  "no_own_key pw r \<equiv> secret_of (pw r) = []"

lemma tls_field_reads [read_back]:
  "mTLSConfig r = None \<Longrightarrow> (\<And>r0. fresh r0 \<Longrightarrow> fresh (r0\<lparr>mTLSConfig := None\<rparr>)) \<Longrightarrow>
    reads_back fresh r (tls_field tc) (mTLSConfig_update (\<lambda>_. None))"
  by (simp add: reads_back_def tls_field_def)

interpretation mysql_json: struct_codec "mysql_fields cd cx tc" "mysql_good cd cx" "no_own_key mPassword" mysql_fill for cd cx tc
proof (unfold_locales, goal_cases)
  case 1
  show ?case by (simp add: mysql_fields_def field_defs tls_field_def)
next
  case (2 r)
  note good = 2 [unfolded mysql_good_def]
  show ?case unfolding mysql_fields_def
    by (intro exI conjI, (rule list.rel_intros read_back | (simp add: good; fail) | (rule mysql_options.equality; simp; fail))+)
      (simp add: mysql_fill_def fun_eq_iff)
qed

interpretation clickhouse_json: struct_codec "clickhouse_fields cd cx" "clickhouse_good cd cx" "no_own_key cPassword" clickhouse_fill for cd cx
proof (unfold_locales, goal_cases)
  case 1
  show ?case by (simp add: clickhouse_fields_def field_defs)
next
  case (2 r)
  note good = 2 [unfolded clickhouse_good_def]
  show ?case unfolding clickhouse_fields_def
    by (intro exI conjI, (rule list.rel_intros read_back | (simp add: good; fail) | (rule clickhouse_options.equality; simp; fail))+)
      (simp add: clickhouse_fill_def fun_eq_iff)
qed
interpretation seconds_json: struct_codec seconds_fields "\<lambda>d. int_fits 64 (fst d) \<and> int_fits 32 (snd d)" "\<lambda>_. True" seconds_fill
proof (unfold_locales, goal_cases)
  case (2 d)
  note good = 2
  show ?case unfolding seconds_fields_def
    by (intro exI conjI, (rule list.rel_intros read_back | (simp add: good; fail) | (simp add: prod.case_eq_if; fail))+)
      (simp_all add: seconds_fill_def fun_eq_iff prod.case_eq_if)
qed (simp add: seconds_fields_def field_defs)

lemma threshold_field_reads [read_back]:
  assumes "\<forall>d. sSlowThreshold r = Some d \<longrightarrow> int_fits 64 (fst d) \<and> int_fits 32 (snd d)"
  shows "reads_back (\<lambda>_. True) r (threshold_field :: (sqlite_options, 'w, 'x) field) (sSlowThreshold_update (threshold_fill (sSlowThreshold r)))"
proof (cases "sSlowThreshold r")
  case None
  then show ?thesis by (simp add: reads_back_def threshold_field_def threshold_fill_def)
next
  case (Some d)
  let ?fs = "seconds_fields :: (int \<times> int, 'w, 'x) field list"
  have "int_fits 64 (fst d) \<and> int_fits 32 (snd d)" using Some assms by blast
  then have "\<exists>j. marshal_struct ?fs d = Ret (Inr j) \<and>
      (\<forall>d0 s. True \<longrightarrow> unmarshal_struct ?fs j (d0, s) = Ret (None, seconds_fill d d0, s))"
    by (rule seconds_json.written_and_read)
  then obtain j where "marshal_struct ?fs d = Ret (Inr j)"
    "\<And>d0 s. unmarshal_struct ?fs j (d0, s) = Ret (None, seconds_fill d d0, s)" by blast
  with Some show ?thesis
    by (auto simp: reads_back_def threshold_field_def threshold_fill_def dest: marshal_struct_object intro!: exI [of _ j]
        sqlite_options.equality split: option.splits)
qed

interpretation sqlite_json: struct_codec "sqlite_fields cd" "sqlite_good cd" "\<lambda>_. True" sqlite_fill for cd
proof (unfold_locales, goal_cases)
  case 1
  show ?case by (simp add: sqlite_fields_def field_defs threshold_field_def)
next
  case (2 r)
  note good = 2 [unfolded sqlite_good_def]
  show ?case unfolding sqlite_fields_def
    by (intro exI conjI, (rule list.rel_intros read_back | (simp add: good; fail) | (rule sqlite_options.equality; simp; fail))+)
      (simp add: sqlite_fill_def fun_eq_iff)
qed

section \<open>Clients\<close>

definition client_MarshalJSON :: "('o, 'w, 'x) field list \<Rightarrow> 'o option \<Rightarrow> ('x json_error + json) run" where
  "client_MarshalJSON fs options = (case options of None \<Rightarrow> Ret (Inr JNull) | Some r \<Rightarrow> marshal_struct fs r)"

definition mysql_MarshalJSON ::
  "'x json_codec \<Rightarrow> crypto \<Rightarrow> ('x, 'p, 'c, 'te, 'w) tls_codec \<Rightarrow> mysql_options option \<Rightarrow> ('x json_error + json) run" where
  "mysql_MarshalJSON cd cx tc = client_MarshalJSON (mysql_fields cd cx tc)"

definition clickhouse_MarshalJSON :: "'x json_codec \<Rightarrow> crypto \<Rightarrow> clickhouse_options option \<Rightarrow> ('x json_error + json) run" where
  "clickhouse_MarshalJSON cd cx = client_MarshalJSON (clickhouse_fields cd cx :: (clickhouse_options, unit, 'x) field list)"

definition sqlite_MarshalJSON :: "'x json_codec \<Rightarrow> sqlite_options option \<Rightarrow> ('x json_error + json) run" where
  "sqlite_MarshalJSON cd = client_MarshalJSON (sqlite_fields cd :: (sqlite_options, unit, 'x) field list)"

lemma mysql_MarshalJSON_any: "mysql_MarshalJSON cd cx tc (Some m) = marshal_struct (mysql_fields cd cx tc) m"
  by (simp add: mysql_MarshalJSON_def client_MarshalJSON_def)

text \<open>What is written does not depend on the state that reading threads.\<close>

lemma clickhouse_MarshalJSON_any:
  fixes cd :: "'x json_codec"
  shows "clickhouse_MarshalJSON cd cx (Some c) = marshal_struct (clickhouse_fields cd cx :: (clickhouse_options, 'w, 'x) field list) c"
  by (simp add: clickhouse_MarshalJSON_def client_MarshalJSON_def)
    (rule marshal_struct_cong, simp add: clickhouse_fields_def field_defs)

lemma sqlite_MarshalJSON_any:
  fixes cd :: "'x json_codec"
  shows "sqlite_MarshalJSON cd (Some q) = marshal_struct (sqlite_fields cd :: (sqlite_options, 'w, 'x) field list) q"
  by (simp add: sqlite_MarshalJSON_def client_MarshalJSON_def)
    (rule marshal_struct_cong, simp add: sqlite_fields_def field_defs threshold_field_def seconds_fields_def marshal_struct_def
      split: option.split)

text \<open>
  \<open>UnmarshalJSON\<close> of the three clients: options that are missing start from the defaults, the decoder
  fills them, and the client is made from a copy of them; a client that cannot be made is nil. The data
  are a JSON value, or the error of a text that is none.
\<close>

datatype ('x, 'e) client_error = JsonError "'x json_error" | OpenError "'e open_error"

definition opened ::
  "'o \<Rightarrow> ('e open_error + nat) \<times> ('db, 'w) gorm_state \<Rightarrow> ('x, 'e) client_error option \<times> 'o \<times> nat option \<times> ('db, 'w) gorm_state" where
  "opened options = (\<lambda>(r, s). case r of
     Inl err \<Rightarrow> (Some (OpenError err), options, None, s)
   | Inr c \<Rightarrow> (None, options, Some c, s))"

definition client_UnmarshalJSON ::
  "('o, 'w, 'x) field list \<Rightarrow> 'o \<Rightarrow> ('o \<Rightarrow> ('db, 'w) gorm_state \<Rightarrow> (('e open_error + nat) \<times> ('db, 'w) gorm_state) run) \<Rightarrow>
   'x + json \<Rightarrow> 'o option \<Rightarrow> nat option \<Rightarrow> ('db, 'w) gorm_state \<Rightarrow>
   (('x, 'e) client_error option \<times> 'o \<times> nat option \<times> ('db, 'w) gorm_state) run" where
  "client_UnmarshalJSON fs defaults new_client data options client s =
     (let options = (case options of None \<Rightarrow> defaults | Some o' \<Rightarrow> o')
      in case data of
           Inl err \<Rightarrow> Ret (Some (JsonError (BadText err)), options, client, s)
         | Inr j \<Rightarrow> bind_run (unmarshal_struct fs j (options, world s)) (\<lambda>(err, options, w).
             let s = s\<lparr>world := w\<rparr> in
             (case err of
                Some err \<Rightarrow> Ret (Some (JsonError err), options, client, s)
              | None \<Rightarrow> map_run (opened options) (new_client options s))))"

definition mysql_UnmarshalJSON where
  "mysql_UnmarshalJSON cd cx tc lib = client_UnmarshalJSON (mysql_fields cd cx tc) NewMySQLOptions (NewMySQLClient cx lib [])"

definition clickhouse_UnmarshalJSON where
  "clickhouse_UnmarshalJSON cd cx lib = client_UnmarshalJSON (clickhouse_fields cd cx) NewClickhouseOptions (NewClickhouseClient cx lib [])"

definition sqlite_UnmarshalJSON where
  "sqlite_UnmarshalJSON cd lib = client_UnmarshalJSON (sqlite_fields cd) NewSQLiteOptions (NewGormSQLiteClient lib [])"

lemma client_roundtrip:
  assumes "\<exists>j. marshal_struct fs r = Ret (Inr j) \<and> (\<forall>s. unmarshal_struct fs j (defaults, s) = Ret (None, o', s))"
  shows "\<exists>j. marshal_struct fs r = Ret (Inr j) \<and>
    client_UnmarshalJSON fs defaults new_client (Inr j) None clt s = map_run (opened o') (new_client o' s)"
  using assms by (auto simp: client_UnmarshalJSON_def)

text \<open>
  C39: A client that is read from the JSON of another one opens its database with the options of that
  client, under the same password; a field that was zero has the default instead, also where the
  client that was written was working with the zero value.
\<close>

theorem Options_JSON_roundtrip:
  fixes cd :: "'x json_codec" and s :: "('db, 'w) gorm_state"
  assumes "mysql_good cd cx m" "clickhouse_good cd cx c" "sqlite_good cd q"
  shows "(\<exists>j. mysql_MarshalJSON cd cx tc (Some m) = Ret (Inr j) \<and>
      mysql_UnmarshalJSON cd cx tc lib (Inr j) None clt s =
        map_run (opened (mysql_fill m NewMySQLOptions)) (NewMySQLClient cx lib [] (mysql_fill m NewMySQLOptions) s)) \<and>
    (\<exists>j. clickhouse_MarshalJSON cd cx (Some c) = Ret (Inr j) \<and>
      clickhouse_UnmarshalJSON cd cx lib (Inr j) None clt s =
        map_run (opened (clickhouse_fill c NewClickhouseOptions)) (NewClickhouseClient cx lib [] (clickhouse_fill c NewClickhouseOptions) s)) \<and>
    (\<exists>j. sqlite_MarshalJSON cd (Some q) = Ret (Inr j) \<and>
      sqlite_UnmarshalJSON cd lib (Inr j) None clt s =
        map_run (opened (sqlite_fill q NewSQLiteOptions)) (NewGormSQLiteClient lib [] (sqlite_fill q NewSQLiteOptions) s)) \<and>
    UnsafeString cx (mPassword (mysql_fill m NewMySQLOptions)) = UnsafeString cx (mPassword m) \<and>
    UnsafeString cx (cPassword (clickhouse_fill c NewClickhouseOptions)) = UnsafeString cx (cPassword c)"
proof -
  have fresh: "no_own_key mPassword NewMySQLOptions" "no_own_key cPassword NewClickhouseOptions"
    by (simp_all add: NewMySQLOptions_def NewClickhouseOptions_def empty_password_def)
  have pw: "kept cd cx (mPassword m)" "kept cd cx (cPassword c)"
    using assms by (auto simp: mysql_good_def clickhouse_good_def)
  show ?thesis
    unfolding mysql_UnmarshalJSON_def clickhouse_UnmarshalJSON_def sqlite_UnmarshalJSON_def
      clickhouse_MarshalJSON_any [where 'w = 'w] sqlite_MarshalJSON_any [where 'w = 'w] mysql_MarshalJSON_any
  proof (intro conjI)
    show "UnsafeString cx (mPassword (mysql_fill m NewMySQLOptions)) = UnsafeString cx (mPassword m)"
      "UnsafeString cx (cPassword (clickhouse_fill c NewClickhouseOptions)) = UnsafeString cx (cPassword c)"
      using kept_Unsafe [OF pw(1) fresh(1)] kept_Unsafe [OF pw(2) fresh(2)] by (simp_all add: mysql_fill_def clickhouse_fill_def)
  qed (rule client_roundtrip, rule mysql_json.filled [OF assms(1) fresh(1)] clickhouse_json.filled [OF assms(2) fresh(2)]
      sqlite_json.filled [OF assms(3) TrueI])+
qed

definition sample_codec :: "unit json_codec" where
  "sample_codec = \<lparr>coerce = id, dur_text = (\<lambda>_. ''30s''), dur_parse = (\<lambda>_. Inr (30 * second))\<rparr>"

definition sample_clickhouse :: clickhouse_options where
  "sample_clickhouse = NewClickhouseOptions\<lparr>cPassword := \<lparr>val_of = ''pw'', secret_of = []\<rparr>, cSchema := []\<rparr>"

lemma Options_JSON_roundtrip_witness:
  "cSchema (clickhouse_fill sample_clickhouse NewClickhouseOptions) = ''idas'' \<and>
    (\<exists>j. clickhouse_MarshalJSON sample_codec (example_crypto []) (Some sample_clickhouse) = Ret (Inr j)) \<and>
    UnsafeString (example_crypto []) (cPassword (clickhouse_fill sample_clickhouse NewClickhouseOptions)) = Ret (Inr ''pw'')"
proof -
  let ?cx = "example_crypto []"
  have kept: "kept sample_codec ?cx \<lparr>val_of = v, secret_of = []\<rparr>" for v
    by (simp add: kept_def sample_codec_def example_crypto_def)
  have m: "mysql_good sample_codec ?cx NewMySQLOptions"
    using kept by (simp add: mysql_good_def NewMySQLOptions_def empty_password_def int_fits_def dur_ok_def) (simp add: sample_codec_def)
  have c: "clickhouse_good sample_codec ?cx sample_clickhouse"
    using kept by (simp add: clickhouse_good_def sample_clickhouse_def NewClickhouseOptions_def int_fits_def dur_ok_def)
      (simp add: sample_codec_def)
  have q: "sqlite_good sample_codec NewSQLiteOptions"
    by (simp add: sqlite_good_def NewSQLiteOptions_def sample_codec_def)
  note r = Options_JSON_roundtrip [OF m c q]
  have "cSchema (clickhouse_fill sample_clickhouse NewClickhouseOptions) = ''idas''"
    by (simp add: clickhouse_fill_def sample_clickhouse_def NewClickhouseOptions_def)
  moreover have "UnsafeString ?cx (cPassword sample_clickhouse) = Ret (Inr ''pw'')"
    by (simp add: sample_clickhouse_def UnsafeString_def encrypted_def ciphertextPrefix_def)
  moreover have "\<exists>j. clickhouse_MarshalJSON sample_codec ?cx (Some sample_clickhouse) = Ret (Inr j)"
    by (rule exE [OF r [THEN conjunct2, THEN conjunct1]]) blast
  ultimately show ?thesis by (simp add: r [THEN conjunct2, THEN conjunct2, THEN conjunct2, THEN conjunct2])
qed

text \<open>
  TLS options that are a name, such as \<open>skip-verify\<close>, are written as the name without quotes, which is no
  JSON: a MySQL client with such options cannot be written at all.
\<close>

theorem Named_TLS_not_written:
  assumes "mysql_good cd cx m" "json_value tc name = Inl err"
  shows "mysql_MarshalJSON cd cx tc (Some (m\<lparr>mTLSConfig := Some \<lparr>tls_opts = None, tls_name = name\<rparr>\<rparr>)) =
    Ret (Inl (BadText err))"
proof -
  let ?m = "m\<lparr>mTLSConfig := Some \<lparr>tls_opts = None, tls_name = name\<rparr>\<rparr>" and ?fs = "mysql_fields cd cx tc"
  have "str_String cx (mPassword m) = Ret (val_of (mPassword m), mPassword m)"
    using assms(1) by (intro kept_String [of cd]) (simp add: mysql_good_def)
  then have "\<forall>f \<in> set (take 11 ?fs). \<exists>j. f_put f ?m = Ret (Inr j)"
    by (simp add: mysql_fields_def field_defs str_MarshalJSON_def)
  moreover have "?fs = take 11 ?fs @ tls_field tc # drop 12 ?fs" by (simp add: mysql_fields_def)
  moreover have "f_put (tls_field tc) ?m = Ret (Inl (BadText err))" "\<not> f_empty (tls_field tc) ?m"
    using assms(2) by (simp_all add: tls_field_def gtls_MarshalJSON_def)
  ultimately show ?thesis
    using marshal_members_error [of "take 11 ?fs" ?m "tls_field tc" "BadText err" "drop 12 ?fs"]
    by (simp add: mysql_MarshalJSON_any marshal_struct_def)
qed

lemma Named_TLS_not_written_witness:
  "\<exists>tc :: (unit, unit, unit, unit, unit) tls_codec. mysql_MarshalJSON sample_codec (example_crypto []) tc
    (Some (NewMySQLOptions\<lparr>mTLSConfig := Some \<lparr>tls_opts = None, tls_name = ''skip-verify''\<rparr>\<rparr>)) = Ret (Inl (BadText ()))"
proof -
  have m: "mysql_good sample_codec (example_crypto []) NewMySQLOptions"
    by (simp add: mysql_good_def NewMySQLOptions_def empty_password_def int_fits_def dur_ok_def kept_def example_crypto_def)
      (simp add: sample_codec_def)
  define tc :: "(unit, unit, unit, unit, unit) tls_codec"
    where "tc = \<lparr>marshal_tls = \<lambda>_. Inr [], json_value = \<lambda>_. Inl (), json_text = \<lambda>_. [],
      tls_env = \<lparr>decode_name = \<lambda>_ n. (None, n), decode_opts = \<lambda>_ t. (None, t), NewId' = \<lambda>w. ([], w),
        tlib = \<lparr>ReadFile = \<lambda>_. Inl (), AppendCertsFromPEM = \<lambda>_. None, LoadX509KeyPair = \<lambda>_ _. Inl (), err_text = \<lambda>_. [], quote = id\<rparr>,
         tls_error = \<lambda>_. WrongType JNull, RegisterTLSConfig = \<lambda>_ _ w. (None, w)\<rparr>\<rparr>"
  then have "json_value tc ''skip-verify'' = Inl ()" by simp
  from Named_TLS_not_written [OF m this] show ?thesis by blast
qed

end
