(* ===== verification/Storage_Json.thy ===== *)
theory Storage_Json
  imports Storage_Backends Struct_Json
begin

text \<open>
  The clients of \<open>clients/storage\<close> in JSON: a client is written as its options, and the object that is
  written is again a configuration (\<open>NewMapConfigProvider\<close>) from which \<open>NewClient\<close> makes the client anew.
\<close>

definition s3_fields :: "'x json_codec \<Rightarrow> crypto \<Rightarrow> (s3_options, 's, 'x) field list" where
  "s3_fields cd cx =
    [str_field cd ''type'' s3_Type s3_Type_update,
     str_field cd ''endpoint'' s3_Endpoint s3_Endpoint_update,
     str_field cd ''access_key_id'' s3_AccessKeyId s3_AccessKeyId_update,
     secret_field cd cx ''secret_access_key'' s3_SecretAccessKey s3_SecretAccessKey_update,
     str_field cd ''bucket'' s3_Bucket s3_Bucket_update,
     str_field cd ''region'' s3_Region s3_Region_update,
     int_field 64 ''worker'' s3_Worker s3_Worker_update]"

definition oss_fields :: "'x json_codec \<Rightarrow> crypto \<Rightarrow> (oss_options, 's, 'x) field list" where
  "oss_fields cd cx =
    [str_field cd ''type'' oss_Type oss_Type_update,
     str_field cd ''endpoint'' oss_Endpoint oss_Endpoint_update,
     str_field cd ''access_key_id'' oss_AccessKeyId oss_AccessKeyId_update,
     secret_field cd cx ''secret_access_key'' oss_SecretAccessKey oss_SecretAccessKey_update,
     str_field cd ''bucket'' oss_Bucket oss_Bucket_update,
     str_field cd ''region'' oss_Region oss_Region_update,
     int_field 64 ''worker'' oss_Worker oss_Worker_update,
     int_field 64 ''oss_max_idle_conns'' OSSMaxIdleConns OSSMaxIdleConns_update,
     int_field 64 ''oss_max_idle_conns_per_host'' OSSMaxIdleConnsPerHost OSSMaxIdleConnsPerHost_update]"

definition fs_fields :: "'x json_codec \<Rightarrow> (fs_options, 's, 'x) field list" where
  "fs_fields cd = [str_field cd ''base'' Base Base_update, str_field cd ''type'' Type Type_update]"

text \<open>The clients have no state of their own for the methods of a field.\<close>

definition s3_MarshalJSON :: "'x json_codec \<Rightarrow> crypto \<Rightarrow> s3_client \<Rightarrow> ('x json_error + json) run" where
  "s3_MarshalJSON cd cx c = marshal_struct (s3_fields cd cx :: (s3_options, unit, 'x) field list) (s3_o c)"

definition oss_MarshalJSON :: "'x json_codec \<Rightarrow> crypto \<Rightarrow> oss_client \<Rightarrow> ('x json_error + json) run" where
  "oss_MarshalJSON cd cx c = marshal_struct (oss_fields cd cx :: (oss_options, unit, 'x) field list) (oss_o c)"

definition fs_MarshalJSON :: "'x json_codec \<Rightarrow> ('f, 'e) fs_client \<Rightarrow> ('x json_error + json) run" where
  "fs_MarshalJSON cd c = marshal_struct (fs_fields cd :: (fs_options, unit, 'x) field list) (o_of c)"

definition backend_MarshalJSON :: "'x json_codec \<Rightarrow> crypto \<Rightarrow> ('f, 'e) backend \<Rightarrow> ('x json_error + json) run" where
  "backend_MarshalJSON cd cx b = (case b of
     S3_client c \<Rightarrow> s3_MarshalJSON cd cx c
   | OSS_client c \<Rightarrow> oss_MarshalJSON cd cx c
   | FS_client c \<Rightarrow> fs_MarshalJSON cd c)"

lemmas MarshalJSON_defs = backend_MarshalJSON_def s3_MarshalJSON_def oss_MarshalJSON_def fs_MarshalJSON_def

text \<open>
  The object as a configuration: \<open>to_string\<close> and \<open>to_int\<close> are \<open>cast.ToString\<close> and \<open>cast.ToInt\<close> of what is
  stored under a key, which is nothing for a missing one; a number is stored as a floating-point one.
\<close>

definition casts :: "(json option \<Rightarrow> string) \<Rightarrow> (json option \<Rightarrow> int) \<Rightarrow> bool" where
  "casts to_string to_int \<longleftrightarrow> (\<forall>s. to_string (Some (JStr s)) = s) \<and> to_string None = [] \<and>
     (\<forall>n. \<bar>n\<bar> \<le> 2 ^ 53 \<longrightarrow> to_int (Some (JNum n)) = n) \<and> to_int None = 0"

definition config_of :: "(json option \<Rightarrow> string) \<Rightarrow> (json option \<Rightarrow> int) \<Rightarrow> json \<Rightarrow> config_provider" where
  "config_of to_string to_int j = NewMapConfigProvider to_string to_int (case j of JObj kvs \<Rightarrow> kvs | _ \<Rightarrow> [])"

section \<open>What the object holds\<close>

text \<open>What the configuration has under the name of a field.\<close>

lemma config_fields:
  assumes "distinct (map f_name fs)" "marshal_struct fs r = Ret (Inr j)"
  shows "\<forall>f \<in> set fs. GetString (config_of to_string to_int j) (f_name f) = to_string (member_of f r) \<and>
    GetInt (config_of to_string to_int j) (f_name f) = to_int (member_of f r)"
proof -
  obtain kvs where "marshal_members fs r = Ret (Inr kvs)" "j = JObj kvs"
    using assms(2) by (auto simp: marshal_struct_def map_run_def bind_run_Ret_conv map_sum_Inr)
  then show ?thesis
    using members_lookup [OF assms(1)] by (simp add: config_of_def NewMapConfigProvider_def map_Get_def)
qed

lemma f_name_simps:
  "f_name (str_field cd k get upd) = k" "f_name (int_field w k get' upd') = k" "f_name (secret_field cd cx k get2 upd2) = k"
  by (simp_all add: field_defs)

lemma member_simps:
  assumes "casts to_string to_int"
  shows "coerce cd (get r) = get r \<Longrightarrow> to_string (member_of (str_field cd k get upd) r) = get r"
    "\<bar>get' r\<bar> \<le> 2 ^ 53 \<Longrightarrow> to_int (member_of (int_field w k get' upd') r) = get' r"
    "str_String cx (get2 r) = Ret (val_of (get2 r), get2 r) \<Longrightarrow> coerce cd (val_of (get2 r)) = val_of (get2 r) \<Longrightarrow>
      to_string (member_of (secret_field cd cx k get2 upd2) r) = val_of (get2 r)"
  using assms by (auto simp: casts_def member_of_def field_defs str_MarshalJSON_def)

section \<open>The client made anew\<close>

text \<open>The strings of the options are valid UTF-8, and their numbers are exact as floating-point numbers.\<close>

definition exact :: "'x json_codec \<Rightarrow> ('f, 'e) backend \<Rightarrow> bool" where
  "exact cd b = (case b of
     S3_client c \<Rightarrow> (\<forall>x \<in> {s3_Endpoint (s3_o c), s3_AccessKeyId (s3_o c), s3_Bucket (s3_o c), s3_Region (s3_o c),
       val_of (s3_SecretAccessKey (s3_o c)), ''s3''}. coerce cd x = x)
   | OSS_client c \<Rightarrow> (\<forall>x \<in> {oss_Endpoint (oss_o c), oss_AccessKeyId (oss_o c), oss_Bucket (oss_o c), oss_Region (oss_o c),
       val_of (oss_SecretAccessKey (oss_o c)), ''oss''}. coerce cd x = x) \<and>
       (\<forall>n \<in> {oss_Worker (oss_o c), OSSMaxIdleConns (oss_o c), OSSMaxIdleConnsPerHost (oss_o c)}. \<bar>n\<bar> \<le> 2 ^ 53)
   | FS_client c \<Rightarrow> coerce cd (Base (o_of c)) = Base (o_of c) \<and> coerce cd (Type (o_of c)) = Type (o_of c))"

text \<open>The client but for the copy of the key that its secret carries; the key is that of the environment.\<close>

definition unkeyed :: "('f, 'e) backend \<Rightarrow> ('f, 'e) backend" where
  "unkeyed b = (case b of
     S3_client c \<Rightarrow> S3_client (c\<lparr>s3_o := (s3_o c)\<lparr>s3_SecretAccessKey := (s3_SecretAccessKey (s3_o c))\<lparr>secret_of := []\<rparr>\<rparr>\<rparr>)
   | OSS_client c \<Rightarrow> OSS_client (c\<lparr>oss_o := (oss_o c)\<lparr>oss_SecretAccessKey := (oss_SecretAccessKey (oss_o c))\<lparr>secret_of := []\<rparr>\<rparr>\<rparr>)
   | FS_client c \<Rightarrow> FS_client c)"

text \<open>A secret that was loaded is written as it is kept, and is loaded again as it was.\<close>

lemma load_secret_again:
  assumes "good_crypto cx" "load_secret cx v = Ret (Inr (s, plain))"
  shows "str_String cx s = Ret (val_of s, s) \<and> load_secret cx (val_of s) = Ret (Inr (s\<lparr>secret_of := []\<rparr>, plain))"
proof -
  from assms(2) have sv: "SetValue cx \<lparr>val_of = [], secret_of = []\<rparr> v = Ret (None, s)" "UnsafeString cx s = Ret (Inr plain)"
    by (auto simp: load_secret_def bind_run_Ret_conv map_run_def split: option.splits sum.splits) (metis sum.exhaust)+
  show ?thesis
  proof (cases "\<not> encrypted v \<and> env_secret cx \<noteq> [] \<and> v \<noteq> []")
    case True
    with sv(1) obtain c where c: "enc cx v (env_secret cx) = Ret (Inr c)" "s = \<lparr>val_of = c, secret_of = env_secret cx\<rparr>"
      by (auto simp: SetValue_def getSecret_def Let_def bind_run_Ret_conv split: sum.splits) (metis sum.exhaust)
    have "encrypted c \<and> c \<noteq> []" by (rule enc_encrypted [OF assms(1) c(1)])
    then show ?thesis using sv(2) c(2) True
      by (simp add: str_String_def load_secret_def SetValue_def UnsafeString_def getSecret_def)
  next
    case False
    with sv(1) have "s = \<lparr>val_of = v, secret_of = []\<rparr>" by (simp add: SetValue_def getSecret_def split: if_splits)
    then show ?thesis using sv False assms(2)
      by (auto simp: str_String_def load_secret_def SetValue_def UnsafeString_def getSecret_def)
  qed
qed

lemma s3_NewClient_made:
  assumes "s3_NewClient cx v = Ret (Inr c)"
  shows "\<exists>sec plain. load_secret cx (GetString v ''secret_access_key'') = Ret (Inr (sec, plain)) \<and>
    c = \<lparr>s3_bucket = GetString v ''bucket'',
        s3_o = \<lparr>s3_Type = ''s3'', s3_Endpoint = s3_endpoint v, s3_AccessKeyId = GetString v ''access_key_id'',
          s3_SecretAccessKey = sec, s3_Bucket = GetString v ''bucket'', s3_Region = GetString v ''region'', s3_Worker = 0\<rparr>,
        s3_base = s3_endpoint v, s3_secret = plain\<rparr>"
proof (cases "load_secret cx (GetString v ''secret_access_key'')")
  case (Ret r)
  with assms show ?thesis by (cases r) (auto simp: s3_NewClient_def)
qed (use assms in \<open>simp add: s3_NewClient_def\<close>)

lemma s3_written:
  fixes cd :: "'x json_codec"
  assumes "good_crypto cx" "s3_NewClient cx v = Ret (Inr c)" "exact cd (S3_client c)" "casts to_string to_int"
  shows "\<exists>j. backend_MarshalJSON cd cx (S3_client c) = Ret (Inr j) \<and> GetString (config_of to_string to_int j) ''type'' = ''s3'' \<and>
    map_run (map_sum id S3_client) (s3_NewClient cx (config_of to_string to_int j)) = Ret (Inr (unkeyed (S3_client c)))"
proof -
  let ?fs = "s3_fields cd cx :: (s3_options, unit, 'x) field list"
  obtain sec plain where L: "load_secret cx (GetString v ''secret_access_key'') = Ret (Inr (sec, plain))"
    "c = \<lparr>s3_bucket = GetString v ''bucket'',
        s3_o = \<lparr>s3_Type = ''s3'', s3_Endpoint = s3_endpoint v, s3_AccessKeyId = GetString v ''access_key_id'',
          s3_SecretAccessKey = sec, s3_Bucket = GetString v ''bucket'', s3_Region = GetString v ''region'', s3_Worker = 0\<rparr>,
        s3_base = s3_endpoint v, s3_secret = plain\<rparr>"
    using s3_NewClient_made [OF assms(2)] by blast
  have K: "str_String cx sec = Ret (val_of sec, sec)" "load_secret cx (val_of sec) = Ret (Inr (sec\<lparr>secret_of := []\<rparr>, plain))"
    using load_secret_again [OF assms(1) L(1)] by auto
  have names: "distinct (map f_name ?fs)" by (simp add: s3_fields_def field_defs)
  have "\<exists>kvs. marshal_members ?fs (s3_o c) = Ret (Inr kvs)"
    using L(2) K(1) by (simp add: s3_fields_def field_defs str_MarshalJSON_def)
  then obtain j where j: "marshal_struct ?fs (s3_o c) = Ret (Inr j)" by (auto simp: marshal_struct_def)
  let ?v = "config_of to_string to_int j"
  have "GetString ?v ''type'' = s3_Type (s3_o c)" "GetString ?v ''endpoint'' = s3_Endpoint (s3_o c)"
    "GetString ?v ''access_key_id'' = s3_AccessKeyId (s3_o c)" "GetString ?v ''bucket'' = s3_Bucket (s3_o c)"
    "GetString ?v ''region'' = s3_Region (s3_o c)" "GetString ?v ''secret_access_key'' = val_of sec"
    using config_fields [OF names j, of to_string to_int] assms(3) L(2) K(1)
    by (simp_all add: s3_fields_def f_name_simps exact_def member_simps [OF assms(4)])
  moreover have "s3_endpoint ?v = s3_endpoint v" if "GetString ?v ''endpoint'' = s3_endpoint v" "GetString ?v ''region'' = GetString v ''region''"
    using that by (auto simp: s3_endpoint_def Let_def)
  ultimately show ?thesis
    using j K(2) by (intro exI [of _ j]) (simp add: MarshalJSON_defs s3_NewClient_def unkeyed_def L(2))
qed

lemma oss_NewClient_made:
  assumes "oss_NewClient cx v = Ret (Inr c)"
  shows "\<exists>sec plain. load_secret cx (GetString v ''secret_access_key'') = Ret (Inr (sec, plain)) \<and>
    c = \<lparr>oss_bucket = GetString v ''bucket'',
        oss_o = \<lparr>oss_Type = ''oss'', oss_Endpoint = oss_endpoint v, oss_AccessKeyId = GetString v ''access_key_id'',
          oss_SecretAccessKey = sec, oss_Bucket = GetString v ''bucket'', oss_Region = GetString v ''region'',
          oss_Worker = GetInt v ''worker'', OSSMaxIdleConns = idle_conns v ''oss_max_idle_conns'',
          OSSMaxIdleConnsPerHost = idle_conns v ''oss_max_idle_conns_per_host''\<rparr>,
        oss_secret = plain\<rparr>"
proof (cases "load_secret cx (GetString v ''secret_access_key'')")
  case (Ret r)
  with assms show ?thesis by (cases r) (auto simp: oss_NewClient_def)
qed (use assms in \<open>simp add: oss_NewClient_def\<close>)

lemma idle_conns_nonzero: "idle_conns v k \<noteq> 0"
  by (simp add: idle_conns_def Let_def)

lemma idle_conns_again: "GetInt v k = idle_conns v0 k \<Longrightarrow> idle_conns v k = idle_conns v0 k"
  using idle_conns_nonzero [of v0 k] by (subst idle_conns_def) (simp add: Let_def)

lemma oss_written:
  fixes cd :: "'x json_codec"
  assumes "good_crypto cx" "oss_NewClient cx v = Ret (Inr c)" "exact cd (OSS_client c)" "casts to_string to_int"
  shows "\<exists>j. backend_MarshalJSON cd cx (OSS_client c) = Ret (Inr j) \<and> GetString (config_of to_string to_int j) ''type'' = ''oss'' \<and>
    map_run (map_sum id OSS_client) (oss_NewClient cx (config_of to_string to_int j)) = Ret (Inr (unkeyed (OSS_client c)))"
proof -
  let ?fs = "oss_fields cd cx :: (oss_options, unit, 'x) field list"
  obtain sec plain where L: "load_secret cx (GetString v ''secret_access_key'') = Ret (Inr (sec, plain))"
    "c = \<lparr>oss_bucket = GetString v ''bucket'',
        oss_o = \<lparr>oss_Type = ''oss'', oss_Endpoint = oss_endpoint v, oss_AccessKeyId = GetString v ''access_key_id'',
          oss_SecretAccessKey = sec, oss_Bucket = GetString v ''bucket'', oss_Region = GetString v ''region'',
          oss_Worker = GetInt v ''worker'', OSSMaxIdleConns = idle_conns v ''oss_max_idle_conns'',
          OSSMaxIdleConnsPerHost = idle_conns v ''oss_max_idle_conns_per_host''\<rparr>,
        oss_secret = plain\<rparr>"
    using oss_NewClient_made [OF assms(2)] by blast
  have K: "str_String cx sec = Ret (val_of sec, sec)" "load_secret cx (val_of sec) = Ret (Inr (sec\<lparr>secret_of := []\<rparr>, plain))"
    using load_secret_again [OF assms(1) L(1)] by auto
  have names: "distinct (map f_name ?fs)" by (simp add: oss_fields_def f_name_simps)
  have "\<exists>kvs. marshal_members ?fs (oss_o c) = Ret (Inr kvs)"
    using L(2) K(1) by (intro marshal_members_total) (auto simp: oss_fields_def field_defs str_MarshalJSON_def)
  then obtain j where j: "marshal_struct ?fs (oss_o c) = Ret (Inr j)" by (auto simp: marshal_struct_def)
  let ?v = "config_of to_string to_int j"
  have "GetString ?v ''type'' = oss_Type (oss_o c)" "GetString ?v ''endpoint'' = oss_Endpoint (oss_o c)"
    "GetString ?v ''access_key_id'' = oss_AccessKeyId (oss_o c)" "GetString ?v ''bucket'' = oss_Bucket (oss_o c)"
    "GetString ?v ''region'' = oss_Region (oss_o c)" "GetString ?v ''secret_access_key'' = val_of sec"
    "GetInt ?v ''worker'' = oss_Worker (oss_o c)" "GetInt ?v ''oss_max_idle_conns'' = OSSMaxIdleConns (oss_o c)"
    "GetInt ?v ''oss_max_idle_conns_per_host'' = OSSMaxIdleConnsPerHost (oss_o c)"
    using config_fields [OF names j, of to_string to_int] assms(3) L(2) K(1)
    by (simp_all add: oss_fields_def f_name_simps exact_def member_simps [OF assms(4)])
  moreover have "oss_endpoint ?v = oss_endpoint v" if "GetString ?v ''endpoint'' = oss_endpoint v" "GetString ?v ''region'' = GetString v ''region''"
    using that by (auto simp: oss_endpoint_def)
  ultimately show ?thesis
    using j K(2) idle_conns_again [of ?v _ v]
    by (intro exI [of _ j]) (simp add: MarshalJSON_defs oss_NewClient_def unkeyed_def L(2))
qed

lemma fs_written:
  fixes cd :: "'x json_codec"
  assumes "fs_NewClient mk None (Some v) = Inr c" "exact cd (FS_client c)" "casts to_string to_int" "GetString v ''type'' \<noteq> []"
  shows "\<exists>j. backend_MarshalJSON cd cx (FS_client c) = Ret (Inr j) \<and>
    GetString (config_of to_string to_int j) ''type'' = GetString v ''type'' \<and>
    fs_NewClient mk None (Some (config_of to_string to_int j)) = Inr c"
proof -
  let ?fs = "fs_fields cd :: (fs_options, unit, 'x) field list"
  have c: "Base (o_of c) = GetString v ''base''" "Type (o_of c) = GetString v ''type''"
    using assms(1,4) by (auto simp: fs_NewClient_def Let_def split: sum.splits if_splits)
  have names: "distinct (map f_name ?fs)" by (simp add: fs_fields_def f_name_simps)
  have "\<exists>kvs. marshal_members ?fs (o_of c) = Ret (Inr kvs)"
    by (intro marshal_members_total) (auto simp: fs_fields_def field_defs)
  then obtain j where j: "marshal_struct ?fs (o_of c) = Ret (Inr j)" by (auto simp: marshal_struct_def)
  let ?v = "config_of to_string to_int j"
  have "GetString ?v ''base'' = GetString v ''base''" "GetString ?v ''type'' = GetString v ''type''"
    using config_fields [OF names j, of to_string to_int] assms(2) c
    by (simp_all add: fs_fields_def f_name_simps exact_def member_simps [OF assms(3)])
  then show ?thesis
    using j assms(1) by (intro exI [of _ j]) (simp add: MarshalJSON_defs fs_NewClient_def)
qed

text \<open>
  C38: The JSON of a storage client is a configuration of the same client: \<open>NewStorage\<close> on it gives a client of
  the same type with the same options and the same secret, for every package and every configuration the
  client came from.
\<close>

theorem Storage_JSON_rebuilds:
  fixes cd :: "'x json_codec"
  assumes "good_crypto cx" "casts to_string to_int" "distinct ps" "init_all cx mk ps [] = Ret reg"
    and "NewStorage reg v = Ret (Inr b)" "exact cd b"
  shows "\<exists>j. backend_MarshalJSON cd cx b = Ret (Inr j) \<and> NewStorage reg (config_of to_string to_int j) = Ret (Inr (unkeyed b))"
proof -
  have reg: "reg = all_entries cx mk ps" using init_all_packages [OF assms(3), of cx mk] assms(4) by simp
  obtain p where p: "p \<in> set ps" "GetString v ''type'' \<in> set (types_of p)" "new_func_of cx mk p v = Ret (Inr b)"
    using NewStorage_made assms(5) unfolding reg by blast
  have again: ?thesis if "backend_MarshalJSON cd cx b = Ret (Inr j)" "GetString (config_of to_string to_int j) ''type'' = GetString v ''type''"
    "new_func_of cx mk p (config_of to_string to_int j) = Ret (Inr (unkeyed b))" for j
    using that p(2) by (intro exI [of _ j]) (simp add: reg NewStorage_known [OF p(1)])
  show ?thesis
  proof (cases p)
    case Pkg_s3
    then obtain c where "b = S3_client c" "s3_NewClient cx v = Ret (Inr c)"
      using p(3) by (auto simp: new_func_of_def map_run_def bind_run_Ret_conv map_sum_Inr)
    then show ?thesis using s3_written [OF assms(1) _ _ assms(2)] assms(6) p(2) Pkg_s3 again
      by (fastforce simp: new_func_of_def map_run_def bind_run_Ret_conv map_sum_Inr)
  next
    case Pkg_oss
    then obtain c where "b = OSS_client c" "oss_NewClient cx v = Ret (Inr c)"
      using p(3) by (auto simp: new_func_of_def map_run_def bind_run_Ret_conv map_sum_Inr)
    then show ?thesis using oss_written [OF assms(1) _ _ assms(2)] assms(6) p(2) Pkg_oss again
      by (fastforce simp: new_func_of_def map_run_def bind_run_Ret_conv map_sum_Inr)
  next
    case Pkg_fs
    then obtain c where "b = FS_client c" "fs_NewClient mk None (Some v) = Inr c"
      using p(3) by (auto simp: new_func_of_def map_sum_Inr)
    moreover have "GetString v ''type'' \<noteq> []" using p(2) types_of_nonempty by metis
    ultimately show ?thesis using fs_written [OF _ _ assms(2)] assms(6) Pkg_fs again
      by (fastforce simp: new_func_of_def unkeyed_def)
  qed
qed

definition sample_string :: "json option \<Rightarrow> string" where
  "sample_string v = (case v of Some (JStr s) \<Rightarrow> s | _ \<Rightarrow> [])"

definition sample_int :: "json option \<Rightarrow> int" where
  "sample_int v = (case v of Some (JNum n) \<Rightarrow> n | _ \<Rightarrow> 0)"

definition oss_config :: config_provider where
  "oss_config = \<lparr>GetString = (\<lambda>k. if k = ''type'' then ''oss'' else if k = ''region'' then ''eu'' else
     if k = ''secret_access_key'' then ''pw'' else []), GetInt = (\<lambda>_. 0)\<rparr>"

lemma Storage_JSON_rebuilds_witness:
  "\<exists>b j. NewStorage (all_entries (example_crypto []) sample_makers [Pkg_oss, Pkg_fs]) oss_config = Ret (Inr b) \<and>
    backend_MarshalJSON plain_codec (example_crypto []) b = Ret (Inr j) \<and>
    NewStorage (all_entries (example_crypto []) sample_makers [Pkg_oss, Pkg_fs]) (config_of sample_string sample_int j) = Ret (Inr b)"
proof -
  let ?cx = "example_crypto []" and ?ps = "[Pkg_oss, Pkg_fs]"
  let ?reg = "all_entries ?cx sample_makers ?ps"
  have "load_secret ?cx ''pw'' = Ret (Inr (\<lparr>val_of = ''pw'', secret_of = []\<rparr>, ''pw''))"
    by (simp add: load_secret_def SetValue_def UnsafeString_def getSecret_def encrypted_def ciphertextPrefix_def example_crypto_def)
  then obtain c where c: "oss_NewClient ?cx oss_config = Ret (Inr c)" "oss_o c = \<lparr>oss_Type = ''oss'', oss_Endpoint = ''https://oss-eu.aliyuncs.com'',
      oss_AccessKeyId = [], oss_SecretAccessKey = \<lparr>val_of = ''pw'', secret_of = []\<rparr>, oss_Bucket = [], oss_Region = ''eu'', oss_Worker = 0,
      OSSMaxIdleConns = 100, OSSMaxIdleConnsPerHost = 100\<rparr>"
    by (simp add: oss_NewClient_def oss_config_def oss_endpoint_def idle_conns_def wrap64_def)
  have "NewStorage ?reg oss_config = map_run (map_sum NewFailed id) (new_func_of ?cx sample_makers Pkg_oss oss_config)"
    by (rule NewStorage_known) (simp_all add: oss_config_def)
  then have b: "NewStorage ?reg oss_config = Ret (Inr (OSS_client c))" by (simp add: new_func_of_def c(1))
  have e: "exact plain_codec (OSS_client c :: (string, unit) backend)" by (simp add: exact_def c(2) plain_codec_def)
  have ts: "casts sample_string sample_int" by (simp add: casts_def sample_string_def sample_int_def)
  have i: "init_all ?cx sample_makers ?ps [] = Ret ?reg" by (rule init_all_packages) simp
  have "unkeyed (OSS_client c :: (string, unit) backend) = OSS_client c" by (simp add: unkeyed_def c(2))
  with Storage_JSON_rebuilds [OF example_crypto_good ts _ i b e] b show ?thesis by fastforce
qed

end
