(* ===== verification/Redis_Json.thy ===== *)
theory Redis_Json
  imports Redis_Session Struct_Json
begin

text \<open>
  The redis client in JSON (\<open>MarshalJSON\<close> of \<open>clients/redis/redis.go\<close>): it is written as its options, and the
  decoder of the options, \<open>Options.UnmarshalJSON\<close>, reads them back before it looks at the URL again.
\<close>

section \<open>Pointers without omitempty\<close>

definition ptr_field ::
  "string \<Rightarrow> ('r \<Rightarrow> 'v option) \<Rightarrow> (('v option \<Rightarrow> 'v option) \<Rightarrow> 'r \<Rightarrow> 'r) \<Rightarrow> 'v \<Rightarrow> ('v \<Rightarrow> ('x json_error + json) run) \<Rightarrow>
   (json \<Rightarrow> 'v \<Rightarrow> ('x json_error option \<times> 'v) run) \<Rightarrow> ('r, 's, 'x) field" where
  "ptr_field name get upd zero put read = \<lparr>f_name = name, f_empty = (\<lambda>r. False),
     f_put = (\<lambda>r. case get r of None \<Rightarrow> Ret (Inr JNull) | Some v \<Rightarrow> put v),
     f_get = (\<lambda>j (r, s). if j = JNull then Ret (None, upd (\<lambda>_. None) r, s)
       else map_run (\<lambda>(err, v). (err, upd (\<lambda>_. Some v) r, s)) (read j (case get r of None \<Rightarrow> zero | Some v \<Rightarrow> v)))\<rparr>"

definition ptr_int_field :: "string \<Rightarrow> ('r \<Rightarrow> int option) \<Rightarrow> ((int option \<Rightarrow> int option) \<Rightarrow> 'r \<Rightarrow> 'r) \<Rightarrow> ('r, 's, 'x) field" where
  "ptr_int_field name get upd = ptr_field name get upd 0 (\<lambda>n. Ret (Inr (JNum n)))
     (\<lambda>j old. Ret (case j of JNum n \<Rightarrow> if int_fits 64 n then (None, n) else (Some (WrongType j), old) | _ \<Rightarrow> (Some (WrongType j), old)))"

definition ptr_dur_field ::
  "'x json_codec \<Rightarrow> string \<Rightarrow> ('r \<Rightarrow> int option) \<Rightarrow> ((int option \<Rightarrow> int option) \<Rightarrow> 'r \<Rightarrow> 'r) \<Rightarrow> ('r, 's, 'x) field" where
  "ptr_dur_field cd name get upd = ptr_field name get upd 0 (\<lambda>d. Ret (Inr (JStr (dur_text cd d))))
     (\<lambda>j old. Ret (case j of
       JStr t \<Rightarrow> (case dur_parse cd t of Inr d \<Rightarrow> (None, d) | Inl err \<Rightarrow> (Some (BadText err), old))
     | _ \<Rightarrow> (Some (WrongType j), old)))"

text \<open>The TLS options, by the tags of the generated struct.\<close>

definition tls_fields :: "'x json_codec \<Rightarrow> (tls_options, unit, 'x) field list" where
  "tls_fields cd =
    [str_field cd ''ca_file'' CAFile CAFile_update,
     str_field cd ''cert_file'' CertFile CertFile_update,
     str_field cd ''key_file'' KeyFile KeyFile_update,
     str_field cd ''server_name'' ServerName ServerName_update,
     bool_field ''insecure_skip_verify'' InsecureSkipVerify InsecureSkipVerify_update,
     str_field cd ''min_version'' MinVersion MinVersion_update]"

definition zero_tls :: tls_options where
  "zero_tls = \<lparr>CAFile = [], CertFile = [], KeyFile = [], ServerName = [], InsecureSkipVerify = False, MinVersion = []\<rparr>"

definition redis_fields :: "'x json_codec \<Rightarrow> crypto \<Rightarrow> ('p options, unit, 'x) field list" where
  "redis_fields cd cx =
    [str_field cd ''url'' URL URL_update,
     secret_field cd cx ''password'' Password Password_update,
     ptr_int_field ''db'' DB DB_update,
     ptr_int_field ''max_retries'' MaxRetries MaxRetries_update,
     ptr_dur_field cd ''min_retry_backoff'' MinRetryBackoff MinRetryBackoff_update,
     ptr_dur_field cd ''max_retry_backoff'' MaxRetryBackoff MaxRetryBackoff_update,
     ptr_dur_field cd ''dial_timeout'' DialTimeout DialTimeout_update,
     ptr_dur_field cd ''read_timeout'' ReadTimeout ReadTimeout_update,
     ptr_dur_field cd ''write_timeout'' WriteTimeout WriteTimeout_update,
     ptr_int_field ''pool_size'' PoolSize PoolSize_update,
     ptr_int_field ''min_idle_conns'' MinIdleConns MinIdleConns_update,
     ptr_int_field ''max_conn_age'' MaxConnAge MaxConnAge_update,
     ptr_int_field ''pool_timeout'' PoolTimeout PoolTimeout_update,
     ptr_int_field ''idle_timeout'' IdleTimeout IdleTimeout_update,
     ptr_int_field ''idle_check_frequency'' IdleCheckFrequency IdleCheckFrequency_update,
     ptr_field ''tls_config'' TLSConfig TLSConfig_update zero_tls (marshal_struct (tls_fields cd))
       (\<lambda>j t. map_run (\<lambda>(err, t, s). (err, t)) (unmarshal_struct (tls_fields cd) j (t, ())))]"

definition redis_MarshalJSON :: "'x json_codec \<Rightarrow> crypto \<Rightarrow> ('c, 'p) redis_client \<Rightarrow> ('x json_error + json) run" where
  "redis_MarshalJSON cd cx r = (case redis_options r of None \<Rightarrow> Ret (Inr JNull) | Some opt \<Rightarrow> marshal_struct (redis_fields cd cx) opt)"

text \<open>The data that the decoder gets for a JSON value: a string is the URL.\<close>

definition data_of :: "'x json_codec \<Rightarrow> crypto \<Rightarrow> json \<Rightarrow> ('x json_error, 'p) json_data" where
  "data_of cd cx j = (case j of
     JStr t \<Rightarrow> JsonString (Inr t)
   | _ \<Rightarrow> JsonOther (\<lambda>opt. map_run (\<lambda>(err, opt, s). (err, opt)) (unmarshal_struct (redis_fields cd cx) j (opt, ()))))"

section \<open>Reading back\<close>

definition tls_fill :: "tls_options \<Rightarrow> tls_options \<Rightarrow> tls_options" where
  "tls_fill t t0 = \<lparr>CAFile = (if CAFile t = [] then CAFile t0 else CAFile t), CertFile = (if CertFile t = [] then CertFile t0 else CertFile t),
     KeyFile = (if KeyFile t = [] then KeyFile t0 else KeyFile t), ServerName = (if ServerName t = [] then ServerName t0 else ServerName t),
     InsecureSkipVerify = (InsecureSkipVerify t \<or> InsecureSkipVerify t0), MinVersion = (if MinVersion t = [] then MinVersion t0 else MinVersion t)\<rparr>"

definition tls_good :: "'x json_codec \<Rightarrow> tls_options \<Rightarrow> bool" where
  "tls_good cd t \<longleftrightarrow> (\<forall>x \<in> {CAFile t, CertFile t, KeyFile t, ServerName t, MinVersion t}. coerce cd x = x)"

interpretation tls_json: struct_codec "tls_fields cd" "tls_good cd" "\<lambda>_. True" tls_fill for cd
proof (unfold_locales, goal_cases)
  case 1
  show ?case by (simp add: tls_fields_def field_defs)
next
  case (2 r)
  note good = 2 [unfolded tls_good_def]
  show ?case unfolding tls_fields_def
    by (intro exI conjI, (rule list.rel_intros read_back | (simp add: good; fail) | (rule tls_options.equality; simp; fail))+)
      (simp add: tls_fill_def fun_eq_iff)
qed

lemma ptr_field_reads:
  assumes "\<And>v. get r = Some v \<Longrightarrow> \<exists>j. put v = Ret (Inr j) \<and> j \<noteq> JNull \<and> (\<forall>old. read j old = Ret (None, fill v old))"
    and "\<And>h r0. fresh r0 \<Longrightarrow> fresh (upd h r0)" "\<And>h r0. upd h r0 = upd (\<lambda>_. h (get r0)) r0"
  shows "reads_back fresh r (ptr_field name get upd zero put read)
    (upd (\<lambda>old. case get r of None \<Rightarrow> None | Some v \<Rightarrow> Some (fill v (case old of None \<Rightarrow> zero | Some v \<Rightarrow> v))))"
proof (cases "get r")
  case None
  with assms(2) show ?thesis by (simp add: reads_back_def ptr_field_def)
next
  case (Some v)
  with assms(1) obtain j where j: "put v = Ret (Inr j)" "j \<noteq> JNull" "\<And>old. read j old = Ret (None, fill v old)" by blast
  with Some assms(2) show ?thesis
    using assms(3) [of "\<lambda>old. Some (fill v (case old of None \<Rightarrow> zero | Some v \<Rightarrow> v))"]
    by (auto simp: reads_back_def ptr_field_def)
qed

definition int_ok :: "int option \<Rightarrow> bool" where
  "int_ok p \<longleftrightarrow> (\<forall>n. p = Some n \<longrightarrow> int_fits 64 n)"

lemma ptr_int_field_reads [read_back]:
  assumes "int_ok (get r)" "\<And>h r0. fresh r0 \<Longrightarrow> fresh (upd h r0)"
  shows "reads_back fresh r (ptr_int_field name get upd) (upd (\<lambda>_. get r))"
  using assms by (cases "get r") (simp_all add: reads_back_def ptr_int_field_def ptr_field_def int_ok_def)

lemma ptr_dur_field_reads [read_back]:
  assumes "dur_ok cd (get r)" "\<And>h r0. fresh r0 \<Longrightarrow> fresh (upd h r0)"
  shows "reads_back fresh r (ptr_dur_field cd name get upd) (upd (\<lambda>_. get r))"
  using assms by (cases "get r") (simp_all add: reads_back_def ptr_dur_field_def ptr_field_def dur_ok_def)

lemma tls_read:
  assumes "tls_good cd t"
  shows "\<exists>j. marshal_struct (tls_fields cd) t = Ret (Inr j) \<and> j \<noteq> JNull \<and>
    (\<forall>old. map_run (\<lambda>(err, t, s). (err, t)) (unmarshal_struct (tls_fields cd) j (old, ())) = Ret (None, tls_fill t old))"
  using tls_json.written_and_read [OF assms] marshal_struct_object [of "tls_fields cd" t] by fastforce

definition redis_good :: "'x json_codec \<Rightarrow> crypto \<Rightarrow> 'p options \<Rightarrow> bool" where
  "redis_good cd cx r \<longleftrightarrow> kept cd cx (Password r) \<and> coerce cd (URL r) = URL r \<and>
     (\<forall>p \<in> {DB r, MaxRetries r, PoolSize r, MinIdleConns r, MaxConnAge r, PoolTimeout r, IdleTimeout r, IdleCheckFrequency r}.
       int_ok p) \<and>
     (\<forall>d \<in> {MinRetryBackoff r, MaxRetryBackoff r, DialTimeout r, ReadTimeout r, WriteTimeout r}. dur_ok cd d) \<and>
     (\<forall>t. TLSConfig r = Some t \<longrightarrow> tls_good cd t)"

definition redis_fill :: "'p options \<Rightarrow> 'p options \<Rightarrow> 'p options" where
  "redis_fill r r0 = r\<lparr>driver_opts := driver_opts r0, URL := (if URL r = [] then URL r0 else URL r),
     Password := (Password r0)\<lparr>val_of := val_of (Password r)\<rparr>,
     TLSConfig := (case TLSConfig r of None \<Rightarrow> None | Some t \<Rightarrow> Some (tls_fill t (case TLSConfig r0 of None \<Rightarrow> zero_tls | Some t0 \<Rightarrow> t0)))\<rparr>"

interpretation redis_json: struct_codec "redis_fields cd cx" "redis_good cd cx" "\<lambda>r. secret_of (Password r) = []" redis_fill for cd cx
proof (unfold_locales, goal_cases)
  case 1
  show ?case by (simp add: redis_fields_def field_defs ptr_int_field_def ptr_dur_field_def ptr_field_def)
next
  case (2 r)
  note good = 2 [unfolded redis_good_def]
  show ?case unfolding redis_fields_def
    by (intro exI conjI, (rule list.rel_intros read_back ptr_field_reads | (simp add: good; fail) | (rule options.equality; simp; fail)
        | (rule tls_read, simp add: good; fail))+)
      (auto simp: redis_fill_def fun_eq_iff intro!: options.equality)
qed

section \<open>The client made anew\<close>

text \<open>
  Decoded options: the driver has the values of the options over those of the URL, and the password is
  empty only when that of the URL is.
\<close>

definition decoded ::
  "(string \<Rightarrow> 'e + redis_opts \<times> 'p tls_config option) \<Rightarrow> ('p, 'c, 'te) tls_lib \<Rightarrow> 'p options \<Rightarrow> bool" where
  "decoded ParseURL tlib opt \<longleftrightarrow> (\<exists>r tc tc2. ParseURL (URL opt) = Inr (r, tc) \<and> driver_opts opt = Some (merge_options opt r, tc2) \<and>
     (val_of (Password opt) = [] \<longrightarrow> rPassword r = []) \<and>
     (case TLSConfig opt of None \<Rightarrow> tc2 = tc | Some t \<Rightarrow> (\<exists>c. NewTLSConfig tlib (Some t) = Inr c \<and> tc2 = Some c)))"

lemma SetValue_empty:
  assumes "good_crypto cx" "SetValue cx e v = Ret (None, e')" "val_of e' = []"
  shows "v = []"
proof (rule ccontr)
  assume v: "v \<noteq> []"
  show False
  proof (cases "\<not> encrypted v \<and> getSecret cx e \<noteq> []")
    case True
    with assms(2) v obtain c where "enc cx v (getSecret cx e) = Ret (Inr c)" "e' = e\<lparr>secret_of := getSecret cx e, val_of := c\<rparr>"
      by (auto simp: SetValue_def Let_def bind_run_Ret_conv split: sum.splits if_splits) (metis sum.exhaust)
    with enc_encrypted [OF assms(1)] assms(3) show False by auto
  next
    case False
    with assms(2,3) v show False by (auto simp: SetValue_def)
  qed
qed

lemma set_password_empty:
  assumes "good_crypto cx" "set_password cx opt url = Ret (None :: 'e redis_error option, opt')" "val_of (Password opt') = []"
  shows "url = []"
proof -
  obtain t pw pw' where "str_String cx (Password opt) = Ret (t, pw)" "SetValue cx pw (DefaultString [t, url]) = Ret (None, pw')"
    "opt' = opt\<lparr>Password := pw'\<rparr>"
    using assms(2) by (auto simp: set_password_def map_run_def bind_run_Ret_conv simp del: DefaultString.simps)
  then have "DefaultString [t, url] = []" using SetValue_empty [OF assms(1)] assms(3) by simp
  then show ?thesis by (simp split: if_splits)
qed

lemma decode_object:
  fixes ParseURL :: "string \<Rightarrow> 'e + redis_opts \<times> 'p tls_config option"
  assumes "good_crypto cx" "opts_UnmarshalJSON cx ParseURL tlib (JsonOther decode) o0 = Ret (None, o2)"
  shows "decoded ParseURL tlib o2"
proof -
  obtain o1 where o1: "decode o0 = Ret (None, o1)"
    using assms(2) by (auto simp: opts_UnmarshalJSON_def bind_run_Ret_conv split: option.splits)
  then obtain r tc where r: "ParseURL (URL o1) = Inr (r, tc)"
    using assms(2) by (auto simp: opts_UnmarshalJSON_def split: sum.splits)
  obtain e o3 where x: "set_password cx (o1\<lparr>driver_opts := Some (r, tc)\<rparr>) (rPassword r) = Ret (e :: 'e redis_error option, o3)"
    using assms(2) o1 r
    by (cases "set_password cx (o1\<lparr>driver_opts := Some (r, tc)\<rparr>) (rPassword r) :: ('e redis_error option \<times> 'p options) run")
      (auto simp: opts_UnmarshalJSON_def)
  have e: "e = None" using assms(2) o1 r x by (cases e) (auto simp: opts_UnmarshalJSON_def)
  obtain pw where o3: "o3 = o1\<lparr>driver_opts := Some (r, tc), Password := pw\<rparr>" using set_password_only [OF x] by auto
  have empty: "val_of pw = [] \<longrightarrow> rPassword r = []" using set_password_empty [OF assms(1) x [unfolded e]] o3 by simp
  show ?thesis
  proof (cases "TLSConfig o1")
    case None
    then have "o2 = o3\<lparr>driver_opts := Some (merge_options o3 r, tc)\<rparr>"
      using assms(2) o1 r x e o3 by (simp add: opts_UnmarshalJSON_def)
    then show ?thesis using r empty None by (simp add: decoded_def o3 merge_options_def)
  next
    case (Some t)
    then have T: "TLSConfig o3 = Some t" by (simp add: o3)
    show ?thesis
    proof (cases "NewTLSConfig tlib (Some t)")
      case (Inr c)
      then have "o2 = o3\<lparr>driver_opts := Some (merge_options o3 r, Some c)\<rparr>"
        using assms(2) T by (simp add: opts_UnmarshalJSON_def o1 r x e)
      then show ?thesis using r empty Some Inr by (simp add: decoded_def o3 merge_options_def)
    qed (use assms(2) T in \<open>simp add: opts_UnmarshalJSON_def o1 r x e\<close>)
  qed
qed

lemma tls_fill_zero: "tls_fill t zero_tls = t"
  by (simp add: tls_fill_def zero_tls_def)

text \<open>The options without the copy of the key that the password carries.\<close>

definition unkeyed_options :: "'p options \<Rightarrow> 'p options" where
  "unkeyed_options opt = opt\<lparr>Password := (Password opt)\<lparr>secret_of := []\<rparr>\<rparr>"

lemma options_again:
  fixes ParseURL :: "string \<Rightarrow> 'x json_error + redis_opts \<times> 'p tls_config option"
  assumes "decoded ParseURL tlib opt" "redis_good cd cx opt"
  shows "\<exists>kvs. marshal_struct (redis_fields cd cx) opt = Ret (Inr (JObj kvs)) \<and> (URL opt \<noteq> [] \<longrightarrow> map_of kvs ''url'' = Some (JStr (URL opt))) \<and>
    opts_UnmarshalJSON cx ParseURL tlib (data_of cd cx (JObj kvs)) empty_options = Ret (None, unkeyed_options opt)"
proof -
  let ?o1 = "redis_fill opt empty_options"
  obtain r tc tc2 where d: "ParseURL (URL opt) = Inr (r, tc)" "driver_opts opt = Some (merge_options opt r, tc2)"
    "val_of (Password opt) = [] \<longrightarrow> rPassword r = []"
    "case TLSConfig opt of None \<Rightarrow> tc2 = tc | Some t \<Rightarrow> (\<exists>c. NewTLSConfig tlib (Some t) = Inr c \<and> tc2 = Some c)"
    using assms(1) by (auto simp: decoded_def)
  have k: "kept cd cx (Password opt)" using assms(2) by (simp add: redis_good_def)
  let ?fs = "redis_fields cd cx :: ('p options, unit, 'x) field list"
  obtain kvs where j: "marshal_struct ?fs opt = Ret (Inr (JObj kvs))" "unmarshal_struct ?fs (JObj kvs) (empty_options, ()) = Ret (None, ?o1, ())"
    using redis_json.struct_roundtrip [OF assms(2)] by (fastforce simp: empty_options_def)
  let ?url = "str_field cd ''url'' URL URL_update :: ('p options, unit, 'x) field"
  have "marshal_members ?fs opt = Ret (Inr kvs)"
    using j(1) by (auto simp: marshal_struct_def map_run_def bind_run_Ret_conv map_sum_Inr)
  moreover have "?url \<in> set ?fs" by (simp add: redis_fields_def)
  ultimately have "map_of kvs (f_name ?url) = member_of ?url opt" by (intro members_lookup [OF redis_json.names])
  then have url: "URL opt \<noteq> [] \<longrightarrow> map_of kvs ''url'' = Some (JStr (URL opt))"
    using assms(2) by (simp add: member_of_def field_defs redis_good_def)
  have o1: "?o1 = (unkeyed_options opt)\<lparr>driver_opts := None\<rparr>"
    by (rule options.equality) (auto simp: redis_fill_def empty_options_def unkeyed_options_def tls_fill_zero split: option.split)
  have pw: "set_password cx (?o1\<lparr>driver_opts := Some (r, tc)\<rparr>) (rPassword r) =
      Ret (None :: 'x json_error redis_error option, ?o1\<lparr>driver_opts := Some (r, tc)\<rparr>)"
    using k d(3) by (auto simp: o1 unkeyed_options_def set_password_def str_String_def SetValue_def getSecret_def kept_def
        intro!: options.equality)
  show ?thesis
    using j d pw url by (intro exI [of _ kvs])
      (auto simp: data_of_def opts_UnmarshalJSON_def o1 unkeyed_options_def merge_options_def intro!: options.equality split: option.splits)
qed

text \<open>
  C40: A client whose options were decoded from a JSON object is written as an object from which the same
  options are decoded, but for the copy of the key; a client made from them connects with the same options
  and the same password. The URL, with a password that is in it, is a member of the object as it is.
\<close>

theorem Redis_JSON_reconnects:
  fixes ParseURL :: "string \<Rightarrow> 'x json_error + redis_opts \<times> 'p tls_config option" and c :: "('c, 'p) redis_client"
  assumes "good_crypto cx" "opts_UnmarshalJSON cx ParseURL tlib (JsonOther decode) o0 = Ret (None, opt)" "redis_good cd cx opt"
    and "redis_options c = Some opt"
  shows "\<exists>kvs. redis_MarshalJSON cd cx c = Ret (Inr (JObj kvs)) \<and> (URL opt \<noteq> [] \<longrightarrow> map_of kvs ''url'' = Some (JStr (URL opt))) \<and>
    opts_UnmarshalJSON cx ParseURL tlib (data_of cd cx (JObj kvs)) empty_options = Ret (None, unkeyed_options opt) \<and>
    NewRedisClient cx new_client ping close closer (unkeyed_options opt) sh w = NewRedisClient cx new_client ping close closer opt sh w"
proof -
  have "kept cd cx (Password opt)" using assms(3) by (simp add: redis_good_def)
  then have "UnsafeString cx ((Password opt)\<lparr>secret_of := []\<rparr>) = UnsafeString cx (Password opt)"
    by (auto simp: kept_def UnsafeString_def getSecret_def)
  then have "NewRedisClient cx new_client ping close closer (unkeyed_options opt) sh w = NewRedisClient cx new_client ping close closer opt sh w"
    by (auto simp: NewRedisClient_def unkeyed_options_def split: option.split)
  with options_again [OF decode_object [OF assms(1,2)] assms(3)] assms(4) show ?thesis
    by (auto simp: redis_MarshalJSON_def)
qed

lemma Redis_JSON_reconnects_witness:
  "\<exists>opt kvs. opts_UnmarshalJSON (example_crypto []) (\<lambda>_. Inr (blank_redis, None) :: unit json_error + redis_opts \<times> unit tls_config option)
      no_tls (JsonOther (\<lambda>x. Ret (None, x))) blank_options = Ret (None, opt) \<and>
    redis_MarshalJSON plain_codec (example_crypto []) \<lparr>redis_conn = Some (), redis_options = Some opt\<rparr> = Ret (Inr (JObj kvs)) \<and>
    map_of kvs ''url'' = Some (JStr ''redis://:pw@h'')"
proof -
  let ?cx = "example_crypto []" and ?parse = "\<lambda>_. Inr (blank_redis, None) :: unit json_error + redis_opts \<times> unit tls_config option"
  let ?opt = "blank_options\<lparr>driver_opts := Some (merge_options blank_options blank_redis, None), Password := \<lparr>val_of = ''pw'', secret_of = []\<rparr>\<rparr>"
  have d: "opts_UnmarshalJSON ?cx ?parse no_tls (JsonOther (\<lambda>x. Ret (None, x))) blank_options = Ret (None, ?opt)"
    by (simp add: opts_UnmarshalJSON_def set_password_def str_String_def SetValue_def getSecret_def encrypted_def ciphertextPrefix_def
      blank_options_def blank_redis_def example_crypto_def merge_options_def)
  have g: "redis_good plain_codec ?cx ?opt"
    by (simp add: redis_good_def kept_def plain_codec_def blank_options_def example_crypto_def int_ok_def dur_ok_def int_fits_def)
  have "redis_options \<lparr>redis_conn = Some (), redis_options = Some ?opt\<rparr> = Some ?opt" "URL ?opt = ''redis://:pw@h''"
    by (simp_all add: blank_options_def)
  with Redis_JSON_reconnects [OF example_crypto_good d g this(1)] d show ?thesis by fastforce
qed

end
