(* ===== verification/Spec2Isabelle.thy ===== *)
theory Spec2Isabelle
  imports Queue_Race Buffers Array_Set Capacity Errors Safe_String Signals Sorting Http Uuid Jwt_Tokens Loggers Nacos_Loop Storage_Backends Gorm_Client Sqlite_Function Sql_Log Lifecycle Conv Template Temp_Fs Wrappers
    Signal_Dispatch Options_Json Storage_Json Redis_Json
begin

text \<open>
  A verification library of \<open>fuck\<close>, the Go module of utilities that services share: containers, sizes,
  errors, encrypted configuration values, the shutdown handler, and clients of a configuration server,
  of object stores, of redis, of SQL databases and of a tracing collector. All paths are under \<open>src/\<close>.

  \<^bold>\<open>How the program is put together.\<close> The packages at the bottom depend on the standard library only: \<open>wrapper\<close>
  (slices, maps, functions, the ring queue, templates), \<open>sets\<close>, \<open>buffer\<close>, \<open>capacity\<close>, \<open>errors\<close>, \<open>safe\<close>,
  \<open>crypto\<close>, \<open>generator\<close>, \<open>conv\<close>, \<open>http\<close>. \<open>signals\<close> holds the one shutdown handler of the process: a client
  registers a function at a level (\<open>PreStop\<close>), a running actor holds a wait group of a level (\<open>AddFor\<close>), and
  a stop works through the levels. \<open>log\<close> builds the loggers. The clients under \<open>clients/\<close> are built on
  these: their options hold encrypted passwords (\<open>safe.String\<close>) and TLS options (\<open>clients/tls\<close>), and what they
  open is closed by the shutdown handler.

  \<^bold>\<open>Conventions.\<close> A call that may panic gives a value of \<open>run\<close>, \<open>Ret\<close> or \<open>Panic\<close>; a Go error result is the
  left side of a sum, or an option where there is nothing else to return. A method with a pointer receiver
  returns the changed record; a value receiver does not. \<open>int\<close> and \<open>int64\<close> of the source are integers, with
  the wrap-around written out (\<open>wrap64\<close>) where a value can leave the range, and words where the code works
  on bits or bytes. Strings are strings of bytes. Code that is not in the repository (drivers, cipher
  primitives, the JSON and YAML codecs, file systems, the clock, the random source) is an argument of the
  definitions, mostly a record of functions; what the code relies on of it is a hypothesis, and every
  hypothesis is met by an example next to the theorem. The order in which Go ranges over a map is an argument too.

  \<^bold>\<open>The theories.\<close>
  \<^item> \<open>Prelude\<close>: the outcome of a call, and the functions of \<open>strings\<close>, \<open>strconv\<close> and \<open>bytes\<close> that several
    components use, with their lemmas (parsing what was printed, cutting, trimming, prefixes); \<open>Encoding\<close>: base64,
    hexadecimal, big-endian integers; \<open>Paths\<close>: \<open>path\<close> and \<open>path/filepath\<close>.
  \<^item> \<open>Ring\<close>, \<open>Ring_Queue\<close>, \<open>Queue_Race\<close> (\<open>wrapper/queue.go\<close>): the circular list as an explicit heap of linked nodes, the
    queue on it, and its use by several goroutines as a step relation whose steps are the unlocked test of \<open>Get\<close>
    and the critical sections. The queue refines a bounded list (locale \<open>bounded_fifo\<close>); \<open>Remove\<close> filters it unless
    the root node is removed; one consumer never panics. That two consumers can is \<open>two_consumers_can_panic\<close>.
  \<^item> \<open>Buffers\<close> (\<open>buffer\<close>): the limited writer and the reader that looks ahead. The contracts of writers and
    readers are locales (\<open>counting_writer\<close>, \<open>complete_writer\<close>, \<open>stream_reader\<close>); the code's own writer and reader
    are proved to meet the contract they rely on, so they can be stacked.
  \<^item> \<open>Sets\<close>, \<open>Array_Set\<close> (\<open>sets\<close>): sets on maps and on arrays, both stores without duplicates (locale \<open>dedup_store\<close>);
    \<open>Sorting\<close>: the three types that \<open>sort.Sort\<close> sorts by their \<open>Less\<close> and \<open>Swap\<close> (locale \<open>sort_interface\<close>).
  \<^item> \<open>Capacity\<close> (\<open>capacity\<close>): printing and parsing of sizes, with the buffer of the printer and its indices.
  \<^item> \<open>Errors\<close> (\<open>errors\<close>): coded errors and their chains; the constructors share the locale \<open>coded_constructor\<close>.
  \<^item> \<open>Cipher\<close>, \<open>Safe_String\<close> (\<open>safe\<close>, \<open>crypto\<close>): padding (locale \<open>padding_scheme\<close>), block chaining, the text format of a
    ciphertext, and configuration strings that are kept encrypted (locale \<open>sealing\<close> for the ways to make one).
  \<^item> \<open>Signals\<close>, \<open>Run_Group\<close> (\<open>signals/signal.go\<close>, \<open>wrapper/run.go\<close>): the handler, the stop as a step relation with
    its phases, the order of the levels, and the groups of actors that end in a stop; \<open>Lifecycle\<close>: a service with a client, a tracer and
    actors, from its start to the end of the stop.
  \<^item> \<open>Signal_Dispatch\<close> (\<open>signals\<close>): the signals of the process on their way to a stop (\<open>process_step\<close>), and the wait groups in
    the map of the code, which refine the counters of \<open>Signals\<close>.
  \<^item> \<open>Slices\<close>, \<open>Template\<close>, \<open>Wrappers\<close> (\<open>wrapper\<close>), \<open>Conv\<close> (\<open>conv\<close>), \<open>Http\<close> (\<open>http\<close>), \<open>Uuid\<close> (\<open>generator\<close>), \<open>Jwt\<close> (\<open>jwt\<close>, with
    the locale \<open>config_source\<close> of the ways to make a signing configuration; \<open>Jwt_Tokens\<close>: tokens from their signature to the
    check, by a server that knows several issuers), \<open>Temp_Fs\<close> (\<open>fs/tempfs.go\<close>).
  \<^item> \<open>Logging\<close>, \<open>Loggers\<close> (\<open>log\<close>): levels, formats, the construction of loggers and the filter of a record's key values;
    the default logger as a state machine, and the way of a record from a context to the output.
  \<^item> \<open>Nacos\<close>, \<open>Nacos_Watch\<close>, \<open>Nacos_Loop\<close> (\<open>clients/nacos\<close>): requests, the login, and the watchdog: registration under the
    read-write lock as a step relation, one poll, the backoff, the two tickers, and the life of the loop
    as a sequence of ticks and new listeners, with its invariant.
  \<^item> \<open>Storage\<close>, \<open>Bucket_Store\<close>, \<open>Local_Store\<close>, \<open>Storage_Backends\<close> (\<open>clients/storage\<close>): the registry and file modes, the S3 and OSS stores with
    their paged listings (locale \<open>paged_listing\<close>), the store on a file system, and the choice among them by a configuration.
  \<^item> \<open>Tls\<close> (\<open>clients/tls\<close>), \<open>Redis\<close> and \<open>Redis_Session\<close> (\<open>clients/redis\<close>, the latter with the traced sessions),
    \<open>Tracing\<close> (\<open>clients/tracing\<close>).
  \<^item> \<open>Gorm_Options\<close>, \<open>Gorm_Client\<close>, \<open>Sql_Log\<close> (\<open>clients/gorm\<close>): the options of the three databases, which implement one
    interface (locale \<open>db_interface\<close>), data source names, the clients in a heap of shared pointers with the collector
    of metrics (\<open>gorm_step\<close>, with its invariant by rule induction), sessions, and the log of statements;
    \<open>Sqlite_Function\<close>: the SQL function that SQLite is given.
  \<^item> \<open>Struct_Json\<close>, \<open>Options_Json\<close>, \<open>Storage_Json\<close>, \<open>Redis_Json\<close>: clients in JSON. A struct is a list of fields, taken from its
    tags, and each kind of field (string, number, duration, secret, pointer) has one law of being read back; the locale
    \<open>struct_codec\<close> puts the laws together, and its interpretations are the options of the databases, of redis and of TLS. That a
    client survives its JSON, and how (\<open>Options_JSON_roundtrip\<close>, \<open>Storage_JSON_rebuilds\<close>, \<open>Redis_JSON_reconnects\<close>), is proved
    from these. The syntax of JSON is not modelled, a value is a tree.

  \<^bold>\<open>Loops.\<close> A loop that ends by its data is a total function with a measure (block chaining, digits, the
  reader of units, the filter of key values, the retry with a created schema, which happens once). A loop that
  can run forever is a \<open>partial_function\<close>, whose value \<open>None\<close> is not to return: the rings, whose links may not come
  back to their start, the loops over pages, whose server may never send a last page, the loops that read until
  the end. That they return is proved, from the ring invariant or from a script of the pages;
  \<open>ForeachSet_never_returns\<close> proves that one does not. No definition uses fuel.

  \<^bold>\<open>Bounds.\<close> Sizes and counters of 64 bits wrap around; the lemmas that need the range have it as a hypothesis
  (\<open>Capacities_roundtrip\<close> below 1024 TB, where the printer's buffer of 32 bytes is enough; timestamps in
  \<open>int64\<close>). Go's \<open>int\<close> has 64 bits.

  \<^bold>\<open>Not modelled.\<close> Generated code (\<open>tls.pb.go\<close>), the embedding \<open>redis/session.go\<close>, and the
  helpers of the tests. Of modelled packages: the encoders of the logging formats beyond the choice of the encoder; the
  goroutines inside the group of \<open>oklog/run\<close>; floating-point arithmetic, the layouts of \<open>time\<close>, regular
  expressions and the engines of templates, which are arguments; the memory model of Go: what is not under a
  lock is interleaved in steps.
\<close>

end
